(* ===== verification/Go_Prelude.thy ===== *)
theory Go_Prelude
  imports Complex_Main "HOL-Library.Sublist" "HOL-Library.Word"
begin

text \<open>
  The part of Go and of its standard library that the gateway's sources use, and the lemmas that
  every component shares.

  \<^item> A Go string is its bytes, a \<open>string\<close> (list of 8-bit characters). Case folding and trimming
    are the ASCII part of \<open>strings.ToLower\<close>, \<open>strings.EqualFold\<close> and \<open>strings.TrimSpace\<close>:
    bytes from 128 on are never changed and never white space.
  \<^item> A \<open>time.Time\<close> is its instant in nanoseconds since the zero time (year 1), so that the zero
    value is \<open>0\<close> and \<open>IsZero\<close> is equality with it; a \<open>time.Duration\<close> is an \<open>int\<close> in nanoseconds,
    and \<open>Time.Sub\<close> saturates at the bounds of \<open>int64\<close>.
  \<^item> \<open>int64\<close> arithmetic that can overflow goes through \<open>wrap64\<close>.
  The collection \<open>go_string\<close> evaluates string predicates on literals, \<open>go_time\<close> unfolds clock
  arithmetic.
\<close>

named_theorems go_string
named_theorems go_time

section \<open>Strings\<close>

definition byte_of :: "char \<Rightarrow> nat" where
  "byte_of c = of_char c"

definition lower_char :: "char \<Rightarrow> char" where
  "lower_char c = (if 65 \<le> byte_of c \<and> byte_of c \<le> 90 then char_of (byte_of c + 32) else c)"

definition to_lower :: "string \<Rightarrow> string" where
  "to_lower s = map lower_char s"

definition equal_fold :: "string \<Rightarrow> string \<Rightarrow> bool" where
  "equal_fold a b = (to_lower a = to_lower b)"

definition is_space :: "char \<Rightarrow> bool" where
  "is_space c = (byte_of c = 32 \<or> (9 \<le> byte_of c \<and> byte_of c \<le> 13))"

definition trim_left_space :: "string \<Rightarrow> string" where
  "trim_left_space s = dropWhile is_space s"

definition trim_space :: "string \<Rightarrow> string" where
  "trim_space s = rev (dropWhile is_space (rev (dropWhile is_space s)))"

fun has_prefix :: "string \<Rightarrow> string \<Rightarrow> bool" where
  "has_prefix s [] = True"
| "has_prefix [] (p # ps) = False"
| "has_prefix (c # s) (p # ps) = (c = p \<and> has_prefix s ps)"

definition has_suffix :: "string \<Rightarrow> string \<Rightarrow> bool" where
  "has_suffix s p = has_prefix (rev s) (rev p)"

fun contains :: "string \<Rightarrow> string \<Rightarrow> bool" where
  "contains [] p = has_prefix [] p"
| "contains (c # s) p = (has_prefix (c # s) p \<or> contains s p)"

definition contains_any :: "string \<Rightarrow> string list \<Rightarrow> bool" where
  "contains_any s ps = list_ex (contains s) ps"

text \<open>The bytes of a literal that is not ASCII text.\<close>

definition bytes :: "nat list \<Rightarrow> string" where
  "bytes ns = map char_of ns"

text \<open>\<open>strings.ReplaceAll\<close> for a non-empty pattern; an empty pattern leaves the string alone, and
  no caller passes one.\<close>

function replace_all :: "string \<Rightarrow> string \<Rightarrow> string \<Rightarrow> string" where
  "replace_all [] old new = []"
| "replace_all (c # s) old new =
     (if old \<noteq> [] \<and> has_prefix (c # s) old
      then new @ replace_all (drop (length old) (c # s)) old new
      else c # replace_all s old new)"
  by pat_completeness auto
termination
  by (relation "measure (\<lambda>(s, old, new). length s)") (auto simp: length_greater_0_conv [symmetric]
      simp del: length_greater_0_conv)

definition trim_prefix :: "string \<Rightarrow> string \<Rightarrow> string" where
  "trim_prefix s p = (if has_prefix s p then drop (length p) s else s)"

definition trim_suffix :: "string \<Rightarrow> string \<Rightarrow> string" where
  "trim_suffix s p = (if has_suffix s p then take (length s - length p) s else s)"

definition cut_prefix :: "string \<Rightarrow> string \<Rightarrow> (string \<times> bool)" where
  "cut_prefix s p = (if has_prefix s p then (drop (length p) s, True) else (s, False))"

text \<open>The verb \<open>%d\<close>.\<close>

fun nat_digits :: "nat \<Rightarrow> string" where
  "nat_digits n = (if n < 10 then [char_of (48 + n)] else nat_digits (n div 10) @ [char_of (48 + n mod 10)])"

definition itoa :: "int \<Rightarrow> string" where
  "itoa i = (if i < 0 then ''-'' @ nat_digits (nat (- i)) else nat_digits (nat i))"

declare nat_digits.simps [simp del]

lemma has_prefix_iff [simp]: "has_prefix s p \<longleftrightarrow> prefix p s"
  by (induction s p rule: has_prefix.induct) auto

lemma has_suffix_iff: "has_suffix s p \<longleftrightarrow> suffix p s"
  by (simp add: has_suffix_def suffix_to_prefix)

lemma contains_iff_sublist: "contains s p \<longleftrightarrow> sublist p s"
proof (induction s)
  case Nil
  show ?case by simp
next
  case (Cons c s)
  show ?case using Cons.IH by (simp add: sublist_Cons_right)
qed

lemma contains_def': "contains s p \<longleftrightarrow> (\<exists>a b. s = a @ p @ b)"
  by (simp add: contains_iff_sublist sublist_def)

lemma contains_append_left [intro]: "contains a p \<Longrightarrow> contains (a @ b) p"
  by (simp add: contains_iff_sublist sublist_append)

lemma contains_append_right [intro]: "contains b p \<Longrightarrow> contains (a @ b) p"
  by (simp add: contains_iff_sublist sublist_append)

lemma contains_trans: "contains s p \<Longrightarrow> contains p q \<Longrightarrow> contains s q"
  by (auto simp: contains_iff_sublist intro: sublist_order.order_trans)

lemma contains_refl [simp]: "contains s s"
  by (simp add: contains_iff_sublist)

lemma prefix_replace_all:
  assumes "set p \<inter> set old = {}" "prefix p s"
  shows "prefix p (replace_all s old new)"
  using assms
proof (induction p arbitrary: s)
  case (Cons c p)
  then obtain t where s: "s = c # t" and "prefix p t" by (auto simp: prefix_Cons prefix_def)
  moreover have "\<not> (old \<noteq> [] \<and> has_prefix (c # t) old)"
    using Cons.prems(1) by (cases old) auto
  ultimately show ?case using Cons by auto
qed simp

lemma contains_drop:
  assumes "set p \<inter> set old = {}" "contains (old @ r) p"
  shows "contains r p"
proof (cases p)
  case (Cons c q)
  from assms(2) obtain a b where ab: "old @ r = a @ p @ b" by (auto simp: contains_def')
  have "length old \<le> length a"
  proof (rule ccontr)
    assume "\<not> length old \<le> length a"
    then have "(old @ r) ! length a = old ! length a" and "old ! length a \<in> set old"
      by (auto simp: nth_append)
    moreover have "(old @ r) ! length a = c" by (simp add: ab Cons)
    ultimately show False using assms(1) Cons by auto
  qed
  then have "drop (length old) (a @ p @ b) = drop (length old) a @ p @ b" by simp
  then have "r = drop (length old) a @ p @ b" by (metis ab append_eq_conv_conj)
  then show ?thesis unfolding contains_def' by blast
qed (cases r; simp)

lemma contains_replace_all:
  assumes "set p \<inter> set old = {}" "contains s p"
  shows "contains (replace_all s old new) p"
  using assms
proof (induction s old new rule: replace_all.induct)
  case (1 old new)
  then show ?case by simp
next
  case (2 c s old new)
  note rest = "2.IH"(2) and disjoint = "2.prems"(1)
  show ?case
  proof (cases "old \<noteq> [] \<and> has_prefix (c # s) old")
    case True
    then obtain r where r: "c # s = old @ r" by (auto simp: prefix_def)
    have "contains (replace_all (drop (length old) (c # s)) old new) p"
      using 2 True contains_drop [of p old r] r by simp
    with True show ?thesis by (simp add: contains_append_right)
  next
    case False
    from 2(4) consider "prefix p (c # s)" | "contains s p" by auto
    then show ?thesis
    proof cases
      case 1
      from prefix_replace_all [OF 2(3) 1, of new] show ?thesis
        by (auto simp: contains_iff_sublist intro: prefix_imp_sublist)
    next
      case 2
      with rest [OF False disjoint] have "contains (replace_all s old new) p" by simp
      with False show ?thesis by auto
    qed
  qed
qed

text \<open>A text cut at a character that a phrase does not have.\<close>

lemma contains_split:
  assumes "d \<notin> set p"
  shows "contains (a @ d # b) p \<longleftrightarrow> contains a p \<or> contains b p"
proof
  assume "contains (a @ d # b) p"
  then obtain u v where uv: "a @ d # b = u @ p @ v" by (auto simp: contains_def')
  have d: "(u @ p @ v) ! length a = d" by (simp flip: uv)
  consider "length a < length u" | "length u \<le> length a" "length a < length u + length p"
    | "length u + length p \<le> length a" by linarith
  then show "contains a p \<or> contains b p"
  proof cases
    case 1
    have "b = drop (Suc (length a)) (u @ p @ v)" by (simp flip: uv)
    also have "\<dots> = drop (Suc (length a)) u @ p @ v" using 1 by simp
    finally show ?thesis unfolding contains_def' by blast
  next
    case 2
    then have "length a - length u < length p" by linarith
    with 2 have "(u @ p @ v) ! length a \<in> set p" by (simp add: nth_append)
    with d assms show ?thesis by simp
  next
    case 3
    have "a = take (length a) (u @ p @ v)" by (simp flip: uv)
    also have "\<dots> = u @ p @ take (length a - (length u + length p)) v" using 3 by simp
    finally show ?thesis unfolding contains_def' by blast
  qed
qed auto

lemma contains_split_all:
  assumes "set ds \<inter> set p = {}" "ds \<noteq> []" "p \<noteq> []"
  shows "contains (a @ ds @ b) p \<longleftrightarrow> contains a p \<or> contains b p"
  using assms
proof (induction ds arbitrary: a)
  case (Cons d ds)
  show ?case
  proof (cases "ds = []")
    case True
    with Cons.prems contains_split [of d p a b] show ?thesis by simp
  next
    case False
    have "contains (a @ (d # ds) @ b) p \<longleftrightarrow> contains a p \<or> contains ([] @ ds @ b) p"
      using Cons.prems contains_split [of d p a "ds @ b"] by simp
    also have "contains ([] @ ds @ b) p \<longleftrightarrow> contains b p"
      using Cons False by (subst Cons.IH) (auto simp: neq_Nil_conv)
    finally show ?thesis .
  qed
qed simp

lemma lower_char_idem [simp]: "lower_char (lower_char c) = lower_char c"
  by (auto simp: lower_char_def byte_of_def)

lemma to_lower_idem [simp]: "to_lower (to_lower s) = to_lower s"
  by (simp add: to_lower_def)

lemma to_lower_append [simp]: "to_lower (a @ b) = to_lower a @ to_lower b"
  by (simp add: to_lower_def)

lemma to_lower_Nil [simp]: "to_lower [] = []" and to_lower_Cons: "to_lower (c # s) = lower_char c # to_lower s"
  by (simp_all add: to_lower_def)

lemma to_lower_eq_Nil [simp]: "to_lower s = [] \<longleftrightarrow> s = []"
  by (simp add: to_lower_def)

lemma length_to_lower [simp]: "length (to_lower s) = length s"
  by (simp add: to_lower_def)

lemma contains_to_lower: "contains s p \<Longrightarrow> contains (to_lower s) (to_lower p)"
  by (metis contains_def' to_lower_append)

lemma equal_fold_refl [simp]: "equal_fold s s"
  and equal_fold_sym: "equal_fold a b \<longleftrightarrow> equal_fold b a"
  and equal_fold_trans: "equal_fold a b \<Longrightarrow> equal_fold b c \<Longrightarrow> equal_fold a c"
  by (auto simp: equal_fold_def)

lemma equal_fold_to_lower [simp]: "equal_fold (to_lower a) b = equal_fold a b"
  by (simp add: equal_fold_def)

lemma trim_space_idem [simp]: "trim_space (trim_space s) = trim_space s"
proof -
  have drop_idem: "dropWhile is_space (dropWhile is_space xs) = dropWhile is_space xs" for xs :: string
    by (induction xs) auto
  have keep: "dropWhile is_space (rev (dropWhile is_space (rev t))) = rev (dropWhile is_space (rev t))"
    if "dropWhile is_space t = t" for t :: string
  proof (cases "rev (dropWhile is_space (rev t))")
    case Nil
    then show ?thesis by (simp only: dropWhile.simps)
  next
    case (Cons c u)
    have "prefix (rev (dropWhile is_space (rev t))) t"
      by (metis suffix_dropWhile suffix_to_prefix rev_rev_ident)
    with Cons obtain v where "t = c # v" by (auto simp: prefix_def)
    with that have "\<not> is_space c" by (metis dropWhile.simps(2) dropWhile_eq_Cons_conv)
    with Cons show ?thesis by simp
  qed
  show ?thesis
    unfolding trim_space_def
    using keep [of "dropWhile is_space s"] by (simp add: drop_idem)
qed

lemma trim_space_Nil [simp]: "trim_space [] = []"
  by (simp add: trim_space_def)

lemmas go_string_defs [go_string] =
  to_lower_def lower_char_def byte_of_def equal_fold_def trim_space_def is_space_def has_suffix_def
  contains_any_def

text \<open>Evaluation works on the bits of a character.\<close>

lemma lower_char_code [code]:
  "lower_char (Char b0 b1 b2 b3 b4 b5 b6 b7) =
     (if \<not> b7 \<and> b6 \<and> \<not> b5 \<and> (b0 \<or> b1 \<or> b2 \<or> b3 \<or> b4) \<and> \<not> (b4 \<and> b3 \<and> (b2 \<or> b1 \<and> b0))
      then Char b0 b1 b2 b3 b4 True b6 b7 else Char b0 b1 b2 b3 b4 b5 b6 b7)"
  by (cases b0; cases b1; cases b2; cases b3; cases b4; cases b5; cases b6; cases b7)
    (simp_all add: lower_char_def byte_of_def char_of_def bit_0)

lemma is_space_code [code]:
  "is_space (Char b0 b1 b2 b3 b4 b5 b6 b7) =
     (\<not> b7 \<and> \<not> b6 \<and> \<not> b4 \<and>
      (if b5 then \<not> b3 \<and> \<not> b2 \<and> \<not> b1 \<and> \<not> b0
       else b3 \<and> (if b2 then \<not> b1 else b1 \<or> b0)))"
  by (cases b0; cases b1; cases b2; cases b3; cases b4; cases b5; cases b6; cases b7)
    (simp_all add: is_space_def byte_of_def)

section \<open>Decision chains\<close>

text \<open>The classifiers are long chains of conditionals: membership of the result in a set is shown
  branch by branch, with the conditions passed on the way as facts.\<close>

lemma if_memI: "(b \<Longrightarrow> x \<in> A) \<Longrightarrow> (\<not> b \<Longrightarrow> y \<in> A) \<Longrightarrow> (if b then x else y) \<in> A"
  by simp

section \<open>Lists\<close>

lemma length_filter_update:
  "i < length xs \<Longrightarrow>
     length (filter P (xs[i := y])) + of_bool (P (xs ! i)) = length (filter P xs) + of_bool (P y)"
proof (induction xs arbitrary: i)
  case (Cons x xs)
  then show ?case by (cases i) auto
qed simp

section \<open>Time\<close>

type_synonym time = int
type_synonym duration = int

definition is_zero :: "time \<Rightarrow> bool" where
  "is_zero t = (t = 0)"

definition min_int64 :: int where "min_int64 = - (2 ^ 63)"
definition max_int64 :: int where "max_int64 = 2 ^ 63 - 1"

definition saturate64 :: "int \<Rightarrow> int" where
  "saturate64 x = max min_int64 (min max_int64 x)"

definition time_sub :: "time \<Rightarrow> time \<Rightarrow> duration" where
  "time_sub a b = saturate64 (a - b)"

definition nanosecond :: duration where "nanosecond = 1"
definition millisecond :: duration where "millisecond = 1000000"
definition second :: duration where "second = 1000000000"
definition minute :: duration where "minute = 60000000000"
definition hour :: duration where "hour = 3600000000000"

text \<open>The Unix clock counts from 1970, a whole number of seconds after the zero time.\<close>

definition unix_epoch :: time where "unix_epoch = 62135596800 * second"

definition unix_milli :: "time \<Rightarrow> int" where
  "unix_milli t = (t - unix_epoch) div millisecond"

definition unix_second :: "time \<Rightarrow> int" where
  "unix_second t = (t - unix_epoch) div second"

definition time_unix :: "int \<Rightarrow> time" where
  "time_unix seconds = unix_epoch + seconds * second"

lemma unix_second_time_unix [simp]: "unix_second (time_unix n) = n"
  and unix_milli_time_unix: "unix_milli (time_unix n) = n * 1000"
  by (simp_all add: unix_second_def time_unix_def unix_milli_def second_def millisecond_def)

lemma unix_second_bounds: "time_unix (unix_second t) \<le> t" "t < time_unix (unix_second t) + second"
proof -
  define d where "d = t - unix_epoch"
  have "d div second * second \<le> d" "d < d div second * second + second"
    by (simp_all add: second_def minus_mod_eq_div_mult [symmetric])
  then show "time_unix (unix_second t) \<le> t" "t < time_unix (unix_second t) + second"
    by (simp_all add: time_unix_def unix_second_def d_def)
qed

lemma unix_milli_mono: "a \<le> b \<Longrightarrow> unix_milli a \<le> unix_milli b"
  by (simp add: unix_milli_def millisecond_def zdiv_mono1)

lemma unix_milli_add: "unix_milli (a + n * millisecond) = unix_milli a + n"
  by (simp add: unix_milli_def millisecond_def algebra_simps flip: div_mult_self1)

lemmas duration_units [go_time] =
  nanosecond_def millisecond_def second_def minute_def hour_def

lemma time_sub_ge_iff: "0 < d \<Longrightarrow> d \<le> max_int64 \<Longrightarrow> d \<le> time_sub a b \<longleftrightarrow> b + d \<le> a"
  by (auto simp: time_sub_def saturate64_def min_int64_def max_int64_def)

lemma time_sub_pos_iff: "0 < time_sub a b \<longleftrightarrow> b < a"
  by (auto simp: time_sub_def saturate64_def min_int64_def max_int64_def)

lemma saturate64_bounds: "min_int64 \<le> saturate64 x" "saturate64 x \<le> max_int64"
  by (auto simp: saturate64_def min_int64_def max_int64_def)

section \<open>Machine integers\<close>

definition wrap64 :: "int \<Rightarrow> int" where
  "wrap64 x = (x + 2 ^ 63) mod 2 ^ 64 - 2 ^ 63"

lemma wrap64_id: "min_int64 \<le> x \<Longrightarrow> x \<le> max_int64 \<Longrightarrow> wrap64 x = x"
  by (simp add: wrap64_def min_int64_def max_int64_def)

lemma wrap64_bounds: "min_int64 \<le> wrap64 x" "wrap64 x \<le> max_int64"
  by (auto simp: wrap64_def min_int64_def max_int64_def)

section \<open>Decimal numbers\<close>

text \<open>\<open>strconv.ParseInt(s, 10, 64)\<close>.\<close>

definition is_digit :: "char \<Rightarrow> bool" where
  "is_digit c = (48 \<le> byte_of c \<and> byte_of c \<le> 57)"

definition digits_value :: "string \<Rightarrow> int" where
  "digits_value s = foldl (\<lambda>n c. 10 * n + (int (byte_of c) - 48)) 0 s"

definition parse_int64 :: "string \<Rightarrow> int option" where
  "parse_int64 s =
     (let (neg, ds) = (case s of
            c # rest \<Rightarrow> if c = CHR ''-'' then (True, rest) else if c = CHR ''+'' then (False, rest) else (False, s)
          | [] \<Rightarrow> (False, []));
          v = (if neg then - digits_value ds else digits_value ds)
      in if ds = [] \<or> \<not> list_all is_digit ds \<or> v < min_int64 \<or> max_int64 < v then None else Some v)"

lemma byte_of_digit: "k < 10 \<Longrightarrow> byte_of (char_of (48 + k)) = 48 + k"
  by (simp add: byte_of_def)

lemma nat_digits_value: "digits_value (nat_digits n) = int n \<and> list_all is_digit (nat_digits n) \<and> nat_digits n \<noteq> []"
proof (induction n rule: nat_digits.induct)
  case (1 n)
  show ?case
  proof (cases "n < 10")
    case True
    then show ?thesis
      by (subst (1 2 3) nat_digits.simps) (simp add: digits_value_def is_digit_def byte_of_digit)
  next
    case False
    have "byte_of (char_of (48 + n mod 10)) = 48 + n mod 10" by (rule byte_of_digit) simp
    moreover from this have "is_digit (char_of (48 + n mod 10))" by (simp add: is_digit_def)
    moreover have "10 * int (n div 10) + int (n mod 10) = int n"
      using mult_div_mod_eq [of 10 n] by (metis of_nat_add of_nat_mult of_nat_numeral)
    ultimately show ?thesis
      using False 1 [OF False] by (subst (1 2 3) nat_digits.simps) (simp add: digits_value_def)
  qed
qed

lemma digit_not_sign: "is_digit c \<Longrightarrow> c \<noteq> CHR ''-'' \<and> c \<noteq> CHR ''+''"
proof -
  have "\<not> is_digit CHR ''-'' \<and> \<not> is_digit CHR ''+''" by code_simp
  then show "is_digit c \<Longrightarrow> c \<noteq> CHR ''-'' \<and> c \<noteq> CHR ''+''" by blast
qed

lemma parse_itoa:
  assumes "min_int64 \<le> n" "n \<le> max_int64"
  shows "parse_int64 (itoa n) = Some n"
proof (cases "n < 0")
  case True
  with assms nat_digits_value [of "nat (- n)"] show ?thesis by (simp add: parse_int64_def itoa_def Let_def)
next
  case False
  obtain c cs where c: "nat_digits (nat n) = c # cs" using nat_digits_value [of "nat n"] by (cases "nat_digits (nat n)") auto
  with nat_digits_value [of "nat n"] digit_not_sign [of c] False assms show ?thesis
    by (simp add: parse_int64_def itoa_def Let_def)
qed

text \<open>A literal of the JSON number grammar.\<close>

definition drop_digits :: "string \<Rightarrow> string" where "drop_digits s = dropWhile is_digit s"

definition json_exponent :: "string \<Rightarrow> bool" where
  "json_exponent s =
     (case s of
        [] \<Rightarrow> True
      | c # rest \<Rightarrow>
          (c = CHR ''e'' \<or> c = CHR ''E'') \<and>
          (let ds = (case rest of d # more \<Rightarrow> if d = CHR ''+'' \<or> d = CHR ''-'' then more else rest | [] \<Rightarrow> [])
           in ds \<noteq> [] \<and> list_all is_digit ds))"

definition json_fraction :: "string \<Rightarrow> bool" where
  "json_fraction s =
     (case s of
        c # d # rest \<Rightarrow> if c = CHR ''.'' then is_digit d \<and> json_exponent (drop_digits rest) else json_exponent s
      | _ \<Rightarrow> json_exponent s)"

definition is_json_number :: "string \<Rightarrow> bool" where
  "is_json_number s0 =
     (let s = (case s0 of c # rest \<Rightarrow> if c = CHR ''-'' then rest else s0 | [] \<Rightarrow> [])
      in case s of
           [] \<Rightarrow> False
         | c # rest \<Rightarrow>
             if c = CHR ''0'' then json_fraction rest
             else is_digit c \<and> json_fraction (drop_digits rest))"

end
