(* ===== verification/Errors.thy ===== *)
theory Errors
  imports Go_Prelude
begin

text \<open>
  \<^verbatim>\<open>internal/errors\<close>: the classifiers that turn an upstream error text into an account status
  (\<open>ClassifyAccountStatus\<close>), into a retry class (\<open>ClassifyUpstreamError\<close>) and an empty account
  pool into the client's answer (\<open>ClassifyPoolExhaustion\<close>), the public status and text of each
  category, and the \<open>AppError\<close> envelope.
\<close>

section \<open>Status codes in error texts\<close>

definition explicit_status_patterns :: "string \<Rightarrow> string list" where
  "explicit_status_patterns code =
     [''http '' @ code, ''http/1.1 '' @ code, ''http/2 '' @ code, ''status '' @ code,
      ''status='' @ code, ''status:'' @ code, ''statuscode '' @ code, ''statuscode='' @ code,
      ''status code '' @ code, ''code '' @ code, ''code='' @ code, ''code:'' @ code,
      ''response status '' @ code, ''response code '' @ code]"

definition HasExplicitHTTPStatus :: "string \<Rightarrow> string \<Rightarrow> bool" where
  "HasExplicitHTTPStatus lower code0 =
     (let code = trim_space code0
      in if code = [] \<or> lower = [] then False
         else list_ex (contains lower) (explicit_status_patterns code))"

definition statusCodePrefixes :: "string list" where
  "statusCodePrefixes = [''401'', ''402'', ''403'', ''404'', ''429'']"

definition delimiter_follows :: "string \<Rightarrow> bool" where
  "delimiter_follows rest = (rest = [] \<or> has_prefix rest '':'' \<or> has_prefix rest '' '')"

fun first_code :: "string list \<Rightarrow> string \<Rightarrow> string option" where
  "first_code [] s = None"
| "first_code (code # codes) s =
     (if has_prefix s code \<and> delimiter_follows (drop (length code) s) then Some code
      else first_code codes s)"

text \<open>\<open>codeAtDelimiter(lower, start)\<close>; the option is the returned pair.\<close>

definition codeAtDelimiter :: "string \<Rightarrow> int \<Rightarrow> string option" where
  "codeAtDelimiter lower start =
     (if start < 0 \<or> int (length lower) \<le> start then None
      else first_code statusCodePrefixes (drop (nat start) lower))"

text \<open>The loop of \<open>scanStatusCode\<close> from the suffix that starts at \<open>offset\<close>: skip to the next colon,
  skip blanks, read a code there, else continue behind the colon.\<close>

fun scan_from :: "string \<Rightarrow> string" where
  "scan_from [] = []"
| "scan_from (c # rest) =
     (if c = CHR '':'' then
        (case codeAtDelimiter (dropWhile (\<lambda>b. b = CHR '' '') rest) 0 of
           Some code \<Rightarrow> code
         | None \<Rightarrow> scan_from rest)
      else scan_from rest)"

definition scanStatusCode :: "string \<Rightarrow> string" where
  "scanStatusCode lower = scan_from lower"

definition LeadingStatusCode :: "string \<Rightarrow> string" where
  "LeadingStatusCode errStr =
     (case codeAtDelimiter (trim_space (to_lower errStr)) 0 of None \<Rightarrow> [] | Some code \<Rightarrow> code)"

section \<open>Provider phrases\<close>

definition IsContentPolicyRefusal :: "string \<Rightarrow> bool" where
  "IsContentPolicyRefusal text0 =
     (let text = replace_all (to_lower text0) (bytes [226, 128, 153]) (bytes [39])
      in list_ex (contains text)
           [''content policy rejected'', ''content_policy_violation'', ''datainspectionfailed'',
            ''input text data may contain'', ''i can'' @ bytes [39] @ ''t help with that request'',
            ''i cannot help with that request''])"

definition IsClineInferenceCap :: "string \<Rightarrow> bool" where
  "IsClineInferenceCap lower = contains lower ''cline inference cap reached''"

definition IsClineProductSurface :: "string \<Rightarrow> bool" where
  "IsClineProductSurface lower = contains lower ''only available via cline product surfaces''"

definition IsUpstreamModelRefusal :: "string \<Rightarrow> bool" where
  "IsUpstreamModelRefusal lower =
     (if \<not> contains lower ''failed to invoke model'' \<and> \<not> contains lower ''failed to generate stream from''
      then False
      else HasExplicitHTTPStatus lower ''401'' \<or> HasExplicitHTTPStatus lower ''403'' \<or>
           HasExplicitHTTPStatus lower ''404'')"

text \<open>The regular expression \<open>(?:^|[ ,(])code=11140(?:$|[ ,)])\<close>: the flag says whether the position
  is the start of the text or stands behind one of the opening characters.\<close>

fun restricted_code_from :: "bool \<Rightarrow> string \<Rightarrow> bool" where
  "restricted_code_from opened [] = False"
| "restricted_code_from opened (c # s) =
     ((opened \<and> has_prefix (c # s) ''code=11140'' \<and>
       (case drop 10 (c # s) of [] \<Rightarrow> True | d # _ \<Rightarrow> List.member '' ,)'' d)) \<or>
      restricted_code_from (List.member '' ,('' c) s)"

definition workBuddyRestrictedCode :: "string \<Rightarrow> bool" where
  "workBuddyRestrictedCode s = restricted_code_from True s"

definition IsWorkBuddyRestricted :: "string \<Rightarrow> bool" where
  "IsWorkBuddyRestricted message =
     (let lower = to_lower message
      in contains lower ''workbuddy'' \<and> HasExplicitHTTPStatus lower ''403'' \<and> workBuddyRestrictedCode lower)"

definition isSharedUpstreamQueueRefusal :: "string \<Rightarrow> bool" where
  "isSharedUpstreamQueueRefusal text0 =
     (let text = to_lower text0
      in contains text ''available upstream accounts are rate-limited'' \<or>
         contains text ''available upstream accounts are rate limited'')"

definition isClineModelEntitlement :: "string \<Rightarrow> bool" where
  "isClineModelEntitlement lower =
     (if \<not> HasExplicitHTTPStatus lower ''403'' then False
      else contains lower ''entitlement'' \<or>
           contains lower ''not subscribed to required model plan'' \<or> IsClineProductSurface lower)"

definition IsCreditExhaustion :: "string \<Rightarrow> bool" where
  "IsCreditExhaustion errStr =
     list_ex (contains (to_lower errStr))
       [''no ai credits remaining'', ''insufficient_funds'', ''insufficient funding'',
        ''available funding is insufficient'', ''out of credits'', ''credits exhausted'',
        ''run out of credits'']"

section \<open>The account-status classifier\<close>

definition ClassifyAccountStatus :: "string \<Rightarrow> string" where
  "ClassifyAccountStatus errStr =
     (let lower = to_lower errStr in
      if contains lower ''model is not found'' \<or> contains lower ''model not found'' then []
      else if isClineModelEntitlement lower then []
      else if IsUpstreamModelRefusal lower then []
      else if LeadingStatusCode lower \<noteq> [] then LeadingStatusCode lower
      else if scanStatusCode lower \<noteq> [] then scanStatusCode lower
      else if HasExplicitHTTPStatus lower ''401'' \<or> contains lower ''refresh token is expired'' \<or>
              contains lower ''new browser login is required'' \<or> contains lower ''sign in again'' \<or>
              contains lower ''signed out'' \<or> contains lower ''signed_out'' \<or>
              contains lower ''unauthenticated'' \<or> contains lower ''no active sessions found''
           then ''401''
      else if HasExplicitHTTPStatus lower ''403'' \<or> contains lower ''forbidden'' then ''403''
      else if HasExplicitHTTPStatus lower ''404'' then ''404''
      else if HasExplicitHTTPStatus lower ''402'' \<or> IsCreditExhaustion lower \<or>
              contains lower ''quota_limit''
           then ''402''
      else if HasExplicitHTTPStatus lower ''429'' \<or> contains lower ''too many requests'' \<or>
              contains lower ''rate limit'' \<or> contains lower ''rate_limit'' \<or>
              contains lower ''no remaining quota'' \<or> contains lower ''quota exceeded''
           then ''429''
      else [])"

section \<open>The retry classifier\<close>

record UpstreamErrorClass =
  Category :: string
  Retryable :: bool
  SwitchAccount :: bool

abbreviation stay_class :: "string \<Rightarrow> UpstreamErrorClass" where
  "stay_class cat \<equiv> \<lparr>Category = cat, Retryable = False, SwitchAccount = False\<rparr>"

abbreviation switch_class :: "string \<Rightarrow> UpstreamErrorClass" where
  "switch_class cat \<equiv> \<lparr>Category = cat, Retryable = True, SwitchAccount = True\<rparr>"

definition ClassifyUpstreamError :: "string \<Rightarrow> UpstreamErrorClass" where
  "ClassifyUpstreamError errStr =
     (let lower = to_lower errStr in
      if contains lower ''context canceled'' \<or> contains lower ''canceled'' then stay_class ''canceled''
      else if contains lower '' is not configured'' \<or> contains lower ''configuration error'' \<or>
              contains lower ''client is nil''
           then stay_class ''configuration''
      else if HasExplicitHTTPStatus lower ''426'' then stay_class ''upstream_upgrade_required''
      else if IsContentPolicyRefusal lower then stay_class ''client''
      else if contains lower ''empty upstream stream'' then stay_class ''protocol''
      else if contains lower ''rejected the request parameters'' then stay_class ''client''
      else if contains lower ''protocol error'' \<or> contains lower ''no usable stream events''
           then stay_class ''protocol''
      else if contains lower ''pacing registry capacity reached''
           then \<lparr>Category = ''local_overload'', Retryable = True, SwitchAccount = False\<rparr>
      else if contains lower ''model is not found'' \<or> contains lower ''model not found'' \<or>
              contains lower ''model is not supported'' \<or> contains lower ''model is not allowed'' \<or>
              contains lower ''no_implementation_available'' \<or>
              contains lower ''context_window_exceeded'' \<or> contains lower ''max_token_limit'' \<or>
              contains lower ''duplicate request''
           then stay_class ''client''
      else if isSharedUpstreamQueueRefusal lower then stay_class ''rate_limit''
      else if HasExplicitHTTPStatus lower ''401'' \<or> contains lower ''refresh token is expired'' \<or>
              contains lower ''new browser login is required'' \<or> contains lower ''sign in again'' \<or>
              contains lower ''signed out'' \<or> contains lower ''signed_out'' \<or>
              contains lower ''invalid_api_key''
           then switch_class ''auth''
      else if IsUpstreamModelRefusal lower then stay_class ''model_unavailable''
      else if isClineModelEntitlement lower then switch_class ''model_unavailable''
      else if HasExplicitHTTPStatus lower ''403''
           then (if IsWorkBuddyRestricted lower then switch_class ''account_restricted''
                 else switch_class ''auth_blocked'')
      else if HasExplicitHTTPStatus lower ''404'' then stay_class ''auth_blocked''
      else if contains lower ''input is too long'' \<or> HasExplicitHTTPStatus lower ''400''
           then stay_class ''client''
      else if HasExplicitHTTPStatus lower ''402'' \<or> IsCreditExhaustion lower \<or>
              contains lower ''quota_limit''
           then switch_class ''quota_exhausted''
      else if contains lower ''code=6004'' then switch_class ''rate_limit''
      else if HasExplicitHTTPStatus lower ''429'' \<or> IsClineInferenceCap lower \<or>
              contains lower ''available upstream accounts are rate-limited'' \<or>
              contains lower ''too many requests'' \<or> contains lower ''rate limit'' \<or>
              contains lower ''rate_limit'' \<or> contains lower ''no remaining quota'' \<or>
              contains lower ''quota exceeded''
           then switch_class ''rate_limit''
      else if contains lower ''timeout'' \<or> contains lower ''deadline exceeded'' \<or>
              contains lower ''context deadline''
           then switch_class ''timeout''
      else if contains lower ''connection reset'' \<or> contains lower ''connection refused'' \<or>
              contains lower ''unexpected eof'' \<or> contains lower ''use of closed'' \<or>
              contains lower ''broken pipe'' \<or> has_suffix lower '': eof'' \<or> lower = ''eof''
           then switch_class ''network''
      else if HasExplicitHTTPStatus lower ''500'' \<or> HasExplicitHTTPStatus lower ''502'' \<or>
              HasExplicitHTTPStatus lower ''503'' \<or> HasExplicitHTTPStatus lower ''504'' \<or>
              contains lower ''llm_unavailable'' \<or> contains lower ''internal_error''
           then switch_class ''server''
      else switch_class ''unknown'')"

section \<open>Public status and text\<close>

definition publicStatusForCategory :: "string \<rightharpoonup> int" where
  "publicStatusForCategory = map_of
     [(''quota_exhausted'', 429), (''rate_limit'', 429), (''auth'', 401), (''auth_blocked'', 401),
      (''account_restricted'', 403), (''client'', 400), (''client_closed'', 499),
      (''model_unavailable'', 404), (''configuration'', 503), (''upstream_upgrade_required'', 503),
      (''timeout'', 504), (''network'', 502), (''server'', 502), (''protocol'', 502),
      (''local_overload'', 502), (''schema_mismatch'', 502)]"

definition StatusForCategory :: "string \<Rightarrow> int" where
  "StatusForCategory category =
     (case publicStatusForCategory (trim_space category) of Some status \<Rightarrow> status | None \<Rightarrow> 502)"

definition messageForCategoryTable :: "string \<rightharpoonup> string" where
  "messageForCategoryTable = map_of
     [(''configuration'', ''This provider is not configured correctly. Contact the gateway administrator.''),
      (''upstream_upgrade_required'', ''The upstream requires a newer Build client version. Contact the gateway administrator to update the Build client identity.''),
      (''auth'', ''The upstream account session has expired. Re-authenticate the account and retry.''),
      (''auth_blocked'', ''The upstream account is not allowed to use this feature. Check its plan and permissions.''),
      (''account_restricted'', ''The upstream account is restricted due to unusual activity. Requests are skipped during its restriction window; check the account in the official client or submit an appeal.''),
      (''quota_exhausted'', ''The available upstream accounts have exhausted their quota. Retry after the quota resets or add capacity.''),
      (''rate_limit'', ''The available upstream accounts are rate-limited. Retry after the cooldown.''),
      (''model_unavailable'', ''The requested model is unavailable for the selected upstream accounts.''),
      (''client'', ''The upstream rejected the request parameters or model. Check the request and model selection.''),
      (''client_closed'', ''The client closed the request before the upstream answered.''),
      (''timeout'', ''The upstream stream timed out while waiting for generated output.''),
      (''network'', ''The gateway lost its connection to the upstream service. Retry later.''),
      (''server'', ''The upstream service is temporarily unavailable. Retry later.''),
      (''protocol'', ''The upstream returned an unsupported stream format. Use the request ID to inspect diagnostics.''),
      (''local_overload'', ''The gateway is temporarily overloaded. Retry later.''),
      (''schema_mismatch'', ''The model'' @ bytes [39] @ ''s answer did not match the schema this strict request declared. Relax the schema or retry.''),
      (''canceled'', ''The request was canceled.'')]"

definition messageForCategory :: "string \<Rightarrow> string" where
  "messageForCategory category =
     (case messageForCategoryTable (trim_space category) of
        Some message \<Rightarrow> message
      | None \<Rightarrow>
          if trim_space category = [] then ''The upstream request failed.''
          else ''The upstream request failed. Use the request ID to inspect diagnostics.'')"

definition CategoryMessage :: "string \<Rightarrow> string" where
  "CategoryMessage category = messageForCategory category"

definition PublicMessage :: "string \<Rightarrow> string" where
  "PublicMessage errText = messageForCategory (Category (ClassifyUpstreamError errText))"

section \<open>An empty pool\<close>

definition PoolAllowanceMessage :: string where
  "PoolAllowanceMessage = ''Request failed: every account for this channel has exhausted its allowance. Add credits or accounts, or wait for the quota reset.''"

definition PoolModelCooldownMessage :: string where
  "PoolModelCooldownMessage = ''Request failed: the requested model is cooling down on this channel. Please retry after its cooldown or choose another model.''"

definition PoolClineInferenceCapMessage :: string where
  "PoolClineInferenceCapMessage = ''Request failed: this Cline account reached its inference cap and is cooling down. Please wait for the cap window to pass or add another Cline account.''"

definition PoolRateLimitedMessage :: string where
  "PoolRateLimitedMessage = ''Request failed: all available accounts for this channel are currently rate-limited. Please wait for cooldown or add another valid account.''"

definition PoolBusyMessage :: string where
  "PoolBusyMessage = ''Request failed: every account for this channel is busy with other requests. Please retry shortly.''"

definition PoolModelUnavailableMessage :: string where
  "PoolModelUnavailableMessage = ''Request failed: the requested model is not available on this channel'' @ bytes [39] @ ''s accounts. Choose another model or add an account that supports it.''"

record PoolExhaustion =
  pe_Category :: string
  pe_Message :: string

definition pool_answer :: "string \<Rightarrow> string \<Rightarrow> PoolExhaustion" where
  "pool_answer cat msg = \<lparr>pe_Category = cat, pe_Message = msg\<rparr>"

definition Empty :: "PoolExhaustion \<Rightarrow> bool" where
  "Empty p = (trim_space (pe_Category p) = [])"

text \<open>\<open>selectErr\<close> is the text of the pool's error, \<open>None\<close> for a nil error.\<close>

definition ClassifyPoolExhaustion :: "string option \<Rightarrow> string \<Rightarrow> PoolExhaustion" where
  "ClassifyPoolExhaustion selectErr lastErr =
     (let lowerLastErr = to_lower (trim_space lastErr);
          lowerSelect = (case selectErr of None \<Rightarrow> [] | Some e \<Rightarrow> to_lower e) in
      if IsWorkBuddyRestricted lowerLastErr \<or> IsWorkBuddyRestricted lowerSelect
        then pool_answer ''account_restricted'' (CategoryMessage ''account_restricted'')
      else if IsCreditExhaustion lowerLastErr \<or> contains lowerSelect ''exhausted their allowance''
        then pool_answer ''quota_exhausted'' PoolAllowanceMessage
      else if contains lowerLastErr ''not subscribed to required model plan''
        then pool_answer ''model_unavailable'' PoolModelUnavailableMessage
      else if IsClineInferenceCap lowerLastErr
        then pool_answer ''rate_limit'' PoolClineInferenceCapMessage
      else if contains lowerLastErr ''model cooldown'' \<or>
              contains lowerSelect ''cooling down for the requested model''
        then pool_answer ''rate_limit'' PoolModelCooldownMessage
      else if contains lowerSelect (''not covered by any matching account'' @ bytes [39] @ ''s plan'')
        then pool_answer ''model_unavailable'' PoolModelUnavailableMessage
      else if contains lowerSelect ''cooling down on some matching accounts''
        then pool_answer ''rate_limit'' PoolModelCooldownMessage
      else if contains lowerSelect ''rate-limited or cooling down''
        then pool_answer ''rate_limit'' PoolRateLimitedMessage
      else if contains lowerSelect ''concurrency limit''
        then pool_answer ''rate_limit'' PoolBusyMessage
      else if contains lowerSelect ''is not available in the current'' \<and>
              contains lowerSelect ''account pool''
        then pool_answer ''model_unavailable'' PoolModelUnavailableMessage
      else if Category (ClassifyUpstreamError lastErr) = ''rate_limit''
        then pool_answer ''rate_limit'' PoolRateLimitedMessage
      else pool_answer [] [])"

section \<open>The error envelope\<close>

text \<open>A value of \<open>Details\<close> is opaque here: \<open>'v\<close> with an injection of strings for the two reserved
  fields.\<close>

record 'v AppError =
  ae_Code :: string
  ae_Message :: string
  ae_HTTPStatus :: int
  ae_RetryAfter :: duration
  ae_Details :: "string \<rightharpoonup> 'v"

definition New :: "string \<Rightarrow> string \<Rightarrow> int \<Rightarrow> 'v AppError" where
  "New code message httpStatus =
     \<lparr>ae_Code = code, ae_Message = message, ae_HTTPStatus = httpStatus, ae_RetryAfter = 0,
      ae_Details = Map.empty\<rparr>"

definition NewWithRetryAfter :: "string \<Rightarrow> string \<Rightarrow> int \<Rightarrow> duration \<Rightarrow> 'v AppError" where
  "NewWithRetryAfter code message httpStatus retryAfter =
     (let err = New code message httpStatus
      in if 0 < retryAfter then err\<lparr>ae_RetryAfter := retryAfter\<rparr> else err)"

definition WithDetails :: "'v AppError \<Rightarrow> (string \<rightharpoonup> 'v) \<Rightarrow> 'v AppError" where
  "WithDetails e details = e\<lparr>ae_Details := ae_Details e ++ details\<rparr>"

text \<open>The error object of \<open>ToJSON\<close>, as the map that is marshalled.\<close>

definition ToJSON :: "(string \<Rightarrow> 'v) \<Rightarrow> 'v AppError \<Rightarrow> (string \<rightharpoonup> 'v)" where
  "ToJSON str e =
     (\<lambda>key. if key = ''type'' then Some (str (ae_Code e))
            else if key = ''message'' then Some (str (ae_Message e))
            else ae_Details e key)"

definition ceil_seconds :: "duration \<Rightarrow> int" where
  "ceil_seconds d = - ((- d) div second)"

text \<open>The response of \<open>WriteResponse\<close>: the \<open>Retry-After\<close> value when the header is set, the status
  line and the body.\<close>

definition WriteResponse :: "(string \<Rightarrow> 'v) \<Rightarrow> 'v AppError \<Rightarrow> (int option \<times> int \<times> (string \<rightharpoonup> 'v))" where
  "WriteResponse str e =
     (if 0 < ae_RetryAfter e then Some (max (ceil_seconds (ae_RetryAfter e)) 1) else None,
      ae_HTTPStatus e, ToJSON str e)"

section \<open>Status codes: what the scanners find\<close>

lemma first_code_Some_iff:
  "first_code codes s = Some code \<Longrightarrow>
     code \<in> set codes \<and> (\<exists>rest. s = code @ rest \<and> delimiter_follows rest)"
  by (induction codes) (auto simp: prefix_def split: if_splits)

lemma first_code_None_iff:
  "first_code codes s = None \<longleftrightarrow>
     \<not> (\<exists>code \<in> set codes. \<exists>rest. s = code @ rest \<and> delimiter_follows rest)"
  by (induction codes) (auto simp: prefix_def split: if_splits)

lemma status_code_length: "code \<in> set statusCodePrefixes \<Longrightarrow> length code = 3"
  by (auto simp: statusCodePrefixes_def)

lemma status_code_nonempty: "code \<in> set statusCodePrefixes \<Longrightarrow> code \<noteq> []"
  using status_code_length by fastforce

lemma codeAtDelimiter_Some_iff:
  "codeAtDelimiter lower (int i) = Some code \<longleftrightarrow>
     code \<in> set statusCodePrefixes \<and> (\<exists>rest. drop i lower = code @ rest \<and> delimiter_follows rest)"
    (is "?L \<longleftrightarrow> ?R")
proof
  assume ?L
  then have "first_code statusCodePrefixes (drop i lower) = Some code"
    by (auto simp: codeAtDelimiter_def split: if_splits)
  then show ?R by (rule first_code_Some_iff)
next
  assume R: ?R
  then obtain rest where rest: "drop i lower = code @ rest" "delimiter_follows rest"
    and code: "code \<in> set statusCodePrefixes" by blast
  have "first_code statusCodePrefixes (drop i lower) \<noteq> None"
    using rest code by (auto simp: first_code_None_iff)
  then obtain code' where c': "first_code statusCodePrefixes (drop i lower) = Some code'" by auto
  then obtain rest' where "code' @ rest' = code @ rest" "code' \<in> set statusCodePrefixes"
    using first_code_Some_iff [OF c'] rest(1) by auto
  then have "code' = code"
    using status_code_length code by (metis append_eq_append_conv)
  moreover have "i < length lower"
    using rest(1) status_code_nonempty [OF code] by (cases "i < length lower") auto
  ultimately show ?L using c' by (simp add: codeAtDelimiter_def)
qed

text \<open>What stands behind a colon: blanks, then a code and its delimiter.\<close>

definition code_behind :: "string \<Rightarrow> string option" where
  "code_behind t = codeAtDelimiter (dropWhile (\<lambda>b. b = CHR '' '') t) 0"

lemma code_behind_nonempty: "code_behind t = Some code \<Longrightarrow> code \<in> set statusCodePrefixes"
  using codeAtDelimiter_Some_iff [of _ 0] by (auto simp: code_behind_def)

lemma scan_from_code: "scan_from s \<in> insert [] (set statusCodePrefixes)"
  by (induction s) (auto dest: code_behind_nonempty simp: code_behind_def [symmetric] split: option.splits)

lemma scan_from_Nil_iff:
  "scan_from s = [] \<longleftrightarrow> (\<forall>a t. s = a @ CHR '':'' # t \<longrightarrow> code_behind t = None)"
proof (induction s)
  case Nil
  show ?case by simp
next
  case (Cons c s)
  show ?case
    by (auto simp: Cons_eq_append_conv code_behind_def [symmetric] Cons.IH
        dest: code_behind_nonempty status_code_nonempty split: option.splits)
qed

lemma scan_from_leftmost:
  assumes "scan_from s \<noteq> []"
  shows "\<exists>a t. s = a @ CHR '':'' # t \<and> code_behind t = Some (scan_from s) \<and>
     (\<forall>a' t'. s = a' @ CHR '':'' # t' \<and> length a' < length a \<longrightarrow> code_behind t' = None)"
  using assms
proof (induction s)
  case Nil
  then show ?case by simp
next
  case (Cons c s)
  show ?case
  proof (cases "c = CHR '':'' \<and> code_behind s \<noteq> None")
    case True
    then show ?thesis
      by (intro exI [of _ "[]"] exI [of _ s]) (auto simp: code_behind_def)
  next
    case False
    then have scan: "scan_from (c # s) = scan_from s" by (auto simp: code_behind_def)
    with Cons obtain a t where at: "s = a @ CHR '':'' # t" "code_behind t = Some (scan_from s)"
      and least: "\<And>a' t'. s = a' @ CHR '':'' # t' \<Longrightarrow> length a' < length a \<Longrightarrow> code_behind t' = None"
      by auto
    have "code_behind t' = None" if "c # s = a' @ CHR '':'' # t'" "length a' < length (c # a)" for a' t'
      using that False least by (cases a') (auto simp del: scan_from.simps)
    with at scan show ?thesis by (intro exI [of _ "c # a"] exI [of _ t]) simp
  qed
qed


text \<open>\<open>scanStatusCode\<close> is empty exactly when no colon of the text is followed, after blanks, by an
  account-level code with its delimiter; otherwise it is the code behind the leftmost such colon,
  so a code wrapped in a chain of contexts is found and longer numbers are never mistaken for one.\<close>

lemma scanStatusCode_leftmost:
  "(scanStatusCode s = [] \<longleftrightarrow> (\<forall>a t. s = a @ CHR '':'' # t \<longrightarrow> code_behind t = None)) \<and>
   (scanStatusCode s \<noteq> [] \<longrightarrow>
      (\<exists>a t. s = a @ CHR '':'' # t \<and> code_behind t = Some (scanStatusCode s) \<and>
        (\<forall>a' t'. s = a' @ CHR '':'' # t' \<and> length a' < length a \<longrightarrow> code_behind t' = None)))"
  unfolding scanStatusCode_def using scan_from_Nil_iff scan_from_leftmost by blast

section \<open>The classifiers\<close>

lemma IsContentPolicyRefusal_lower [simp]:
  "IsContentPolicyRefusal (to_lower s) = IsContentPolicyRefusal s"
  by (simp add: IsContentPolicyRefusal_def)

lemma ClassifyAccountStatus_codes: "ClassifyAccountStatus s \<in> insert [] (set statusCodePrefixes)"
proof -
  have lead: "LeadingStatusCode t \<in> insert [] (set statusCodePrefixes)" for t
    using codeAtDelimiter_Some_iff [of "trim_space (to_lower t)" 0]
    by (auto simp: LeadingStatusCode_def split: option.splits)
  have scan: "scanStatusCode t \<in> insert [] (set statusCodePrefixes)" for t
    by (simp only: scanStatusCode_def scan_from_code)
  show ?thesis
    unfolding ClassifyAccountStatus_def Let_def
    by (intro if_memI) (rule lead scan | simp add: statusCodePrefixes_def)+
qed

lemma ClassifyAccountStatus_lower [simp]:
  "ClassifyAccountStatus (to_lower s) = ClassifyAccountStatus s"
  by (simp only: ClassifyAccountStatus_def to_lower_idem)

lemma ClassifyUpstreamError_lower [simp]:
  "ClassifyUpstreamError (to_lower s) = ClassifyUpstreamError s"
  by (simp only: ClassifyUpstreamError_def to_lower_idem)

definition upstream_classes :: "UpstreamErrorClass set" where
  "upstream_classes =
     stay_class ` {''canceled'', ''configuration'', ''upstream_upgrade_required'', ''client'',
       ''protocol'', ''rate_limit'', ''model_unavailable'', ''auth_blocked''} \<union>
     {\<lparr>Category = ''local_overload'', Retryable = True, SwitchAccount = False\<rparr>} \<union>
     switch_class ` {''auth'', ''model_unavailable'', ''account_restricted'', ''auth_blocked'',
       ''quota_exhausted'', ''rate_limit'', ''timeout'', ''network'', ''server'', ''unknown''}"

lemma ClassifyUpstreamError_classes: "ClassifyUpstreamError s \<in> upstream_classes"
  unfolding ClassifyUpstreamError_def Let_def
  by (intro if_memI) (simp_all add: upstream_classes_def)

text \<open>The retry flags are coherent on every error text: another account is tried only when a retry is
  allowed at all, and the only error retried on the same account is the gateway's own overload.\<close>

lemma ClassifyUpstreamError_flags:
  "(SwitchAccount (ClassifyUpstreamError s) \<longrightarrow> Retryable (ClassifyUpstreamError s)) \<and>
   (Retryable (ClassifyUpstreamError s) \<and> \<not> SwitchAccount (ClassifyUpstreamError s) \<longleftrightarrow>
      Category (ClassifyUpstreamError s) = ''local_overload'')"
  using ClassifyUpstreamError_classes [of s] by (auto simp: upstream_classes_def)

lemma refusal_class:
  assumes "IsContentPolicyRefusal s \<or> contains (to_lower s) ''empty upstream stream'' \<or>
           contains (to_lower s) ''rejected the request parameters''"
  shows "ClassifyUpstreamError s \<in> range stay_class"
  using assms unfolding ClassifyUpstreamError_def Let_def
  by (intro if_memI) simp_all

text \<open>A refusal of the request itself (a safety review, an empty stream, rejected parameters) is never
  retried and never moves to another account, whatever else the text says.\<close>

lemma request_refusal_stays:
  assumes "IsContentPolicyRefusal s \<or> contains (to_lower s) ''empty upstream stream'' \<or>
           contains (to_lower s) ''rejected the request parameters''"
  shows "\<not> Retryable (ClassifyUpstreamError s) \<and> \<not> SwitchAccount (ClassifyUpstreamError s)"
  using refusal_class [OF assms] by auto

text \<open>What a client reads about an upstream failure is one of the fixed texts: nothing of the error
  text itself (a response body, a credential) reaches it.\<close>

lemma PublicMessage_fixed:
  "PublicMessage s \<in> ran messageForCategoryTable \<union>
     {''The upstream request failed. Use the request ID to inspect diagnostics.''}"
proof -
  have *: "messageForCategory c \<in> ran messageForCategoryTable \<union>
      {''The upstream request failed. Use the request ID to inspect diagnostics.''}"
    if "trim_space c \<noteq> []" for c
    using that by (auto simp: messageForCategory_def ran_def split: option.splits)
  have "trim_space (Category c) \<noteq> []" if "c \<in> upstream_classes" for c
    using that by (auto simp: upstream_classes_def go_string)
  then show ?thesis
    unfolding PublicMessage_def using * ClassifyUpstreamError_classes [of s] by blast
qed

section \<open>An empty pool\<close>

definition pool_answers :: "PoolExhaustion set" where
  "pool_answers =
     {pool_answer ''account_restricted'' (CategoryMessage ''account_restricted''),
      pool_answer ''quota_exhausted'' PoolAllowanceMessage,
      pool_answer ''model_unavailable'' PoolModelUnavailableMessage,
      pool_answer ''rate_limit'' PoolClineInferenceCapMessage,
      pool_answer ''rate_limit'' PoolModelCooldownMessage,
      pool_answer ''rate_limit'' PoolRateLimitedMessage,
      pool_answer ''rate_limit'' PoolBusyMessage}"

lemma ClassifyPoolExhaustion_answers:
  "ClassifyPoolExhaustion e l \<in> insert (pool_answer [] []) pool_answers"
  unfolding ClassifyPoolExhaustion_def Let_def
  by (intro if_memI) (simp_all add: pool_answers_def)

lemma pool_answers_status:
  "p \<in> pool_answers \<Longrightarrow>
     \<not> Empty p \<and> StatusForCategory (pe_Category p) \<in> {403, 404, 429} \<and> pe_Message p \<noteq> []"
proof -
  have "StatusForCategory ''account_restricted'' = 403" "StatusForCategory ''quota_exhausted'' = 429"
    "StatusForCategory ''model_unavailable'' = 404" "StatusForCategory ''rate_limit'' = 429"
    "CategoryMessage ''account_restricted'' \<noteq> []"
    by code_simp+
  then show "p \<in> pool_answers \<Longrightarrow> ?thesis"
    by (auto simp: pool_answers_def pool_answer_def Empty_def go_string PoolAllowanceMessage_def
        PoolModelUnavailableMessage_def PoolClineInferenceCapMessage_def PoolModelCooldownMessage_def
        PoolRateLimitedMessage_def PoolBusyMessage_def)
qed

text \<open>An exhausted pool is never reported as a server fault once its cause is recognised: the status of
  a recognised answer is 403, 404 or 429 and it carries a text; the only other answer is the empty
  one, for which the caller supplies its default.\<close>

lemma ClassifyPoolExhaustion_status:
  "(ClassifyPoolExhaustion e l = pool_answer [] [] \<and> Empty (ClassifyPoolExhaustion e l)) \<or>
   (Empty (ClassifyPoolExhaustion e l) = False \<and>
    StatusForCategory (pe_Category (ClassifyPoolExhaustion e l)) \<in> {403, 404, 429} \<and>
    pe_Message (ClassifyPoolExhaustion e l) \<noteq> [])"
  using ClassifyPoolExhaustion_answers [of e l] pool_answers_status
  by (auto simp: Empty_def pool_answer_def)

section \<open>The error envelope\<close>

text \<open>\<open>WriteResponse\<close> publishes a \<open>Retry-After\<close> exactly for a positive hint, rounded up to whole seconds
  and never below one, and the body's \<open>type\<close> and \<open>message\<close> are the error's own whatever details are
  attached.\<close>

lemma WriteResponse_retry_after:
  assumes "WriteResponse str (WithDetails e d) = (hdr, status, body)"
  shows "(hdr = None \<longleftrightarrow> ae_RetryAfter e \<le> 0) \<and>
    (\<forall>n. hdr = Some n \<longrightarrow> 1 \<le> n \<and> (n - 1) * second < ae_RetryAfter e \<and> ae_RetryAfter e \<le> n * second) \<and>
    body ''type'' = Some (str (ae_Code e)) \<and> body ''message'' = Some (str (ae_Message e))"
  using assms
  by (auto simp: WriteResponse_def WithDetails_def ToJSON_def ceil_seconds_def second_def max_def
      split: if_splits)

end
