(* ===== verification/Store_Account.thy ===== *)
theory Store_Account
  imports Errors "HOL-Library.AList"
begin

text \<open>
  The account row of \<^verbatim>\<open>internal/store\<close>: the fields that routing and the account policy read and
  write, the credential-state and WorkBuddy-restriction readers, the Grok billing snapshot with its
  probe claim, the per-model cooldowns and the quality verdict. A pointer that may be nil is an
  \<open>option\<close>; a Go map whose entries are enumerated is an association list, read with \<open>map_of\<close>;
  \<open>float64\<close> meters are rationals. A clock reading is the argument \<open>now\<close>.
\<close>

section \<open>Quota snapshots\<close>

record GrokQuotaWindow =
  gw_Limit :: rat
  gw_Remaining :: rat
  gw_UsagePercent :: rat
  gw_HasLimit :: bool
  gw_HasRemaining :: bool
  gw_HasUsage :: bool
  gw_ResetAt :: time
  gw_WindowSeconds :: int

record GrokBillingSnapshot =
  Weekly :: GrokQuotaWindow
  Monthly :: GrokQuotaWindow
  gb_SyncedAt :: time
  gb_Source :: string
  ProfileKnown :: bool
  MonthlyUsed :: rat
  OnDemandCap :: rat
  OnDemandUsed :: rat
  PrepaidBalance :: rat
  NextProbeAt :: time
  LastProbeAt :: time

definition GrokPaidQuotaProbeInterval :: duration where
  "GrokPaidQuotaProbeInterval = 15 * minute"

definition HasPaidEntitlement :: "GrokBillingSnapshot \<Rightarrow> bool" where
  "HasPaidEntitlement b =
     (gw_Limit (Monthly b) > 0 \<or> OnDemandCap b > 0 \<or> OnDemandUsed b > 0 \<or> PrepaidBalance b > 0)"

definition HasZeroProfile :: "GrokBillingSnapshot \<Rightarrow> bool" where
  "HasZeroProfile b =
     (ProfileKnown b \<and> \<not> is_zero (gb_SyncedAt b) \<and> \<not> HasPaidEntitlement b \<and>
      MonthlyUsed b = 0 \<and> gw_UsagePercent (Weekly b) = 0)"

definition IsExhausted :: "GrokBillingSnapshot \<Rightarrow> bool" where
  "IsExhausted b =
     (if gw_HasLimit (Monthly b) \<and> gw_Limit (Monthly b) > 0 \<and> gw_HasRemaining (Monthly b) \<and>
         gw_Remaining (Monthly b) \<le> 0 then True
      else gw_HasUsage (Weekly b) \<and> gw_UsagePercent (Weekly b) \<ge> 100 \<and> \<not> is_zero (gw_ResetAt (Weekly b)))"

definition PeriodEnd :: "GrokBillingSnapshot \<Rightarrow> time" where
  "PeriodEnd b =
     (if gw_ResetAt (Monthly b) > gw_ResetAt (Weekly b) then gw_ResetAt (Monthly b)
      else gw_ResetAt (Weekly b))"

section \<open>The account row\<close>

definition ModelCooldownThrottled :: string where
  "ModelCooldownThrottled = ''throttled''"

definition ModelCooldownUnavailable :: string where
  "ModelCooldownUnavailable = ''unavailable''"

definition ModelCooldownEntitlementFloor :: duration where
  "ModelCooldownEntitlementFloor = hour"

record Account =
  ID :: int
  Name :: string
  AccountType :: string
  AgentMode :: string
  Weight :: int
  MaxConcurrent :: int
  Enabled :: bool
  Subscription :: string
  UsageCurrent :: rat
  StatusCode :: string
  WorkBuddyRestrictedUntil :: time
  AuthStatus :: string
  RateLimitFailures :: int
  QualityFailures :: int
  QualityRevision :: "64 word"
  QualityCooldownUntil :: time
  QualityReason :: string
  StatusMessage :: string
  LastAttempt :: time
  VerifiedAt :: time
  QuotaResetAt :: time
  GrokBilling :: GrokBillingSnapshot
  ModelCooldowns :: "(string \<times> time) list"
  ModelCooldownReasons :: "(string \<times> string) list"

definition AccountStatusWorkBuddyQuotaExhausted :: string where
  "AccountStatusWorkBuddyQuotaExhausted = ''workbuddy_quota_exhausted''"

definition AccountAuthStatusActive :: string where
  "AccountAuthStatusActive = ''active''"

definition AccountAuthStatusReauthRequired :: string where
  "AccountAuthStatusReauthRequired = ''reauthRequired''"

definition AccountAuthActive :: "Account option \<Rightarrow> bool" where
  "AccountAuthActive acc =
     (case acc of None \<Rightarrow> False
      | Some a \<Rightarrow> (let status = trim_space (AuthStatus a)
                   in status = [] \<or> equal_fold status AccountAuthStatusActive))"

section \<open>The WorkBuddy restriction\<close>

definition WorkBuddyRestrictionCooldown :: duration where
  "WorkBuddyRestrictionCooldown = 24 * hour"

definition WorkBuddyRestrictionMessage :: string where
  "WorkBuddyRestrictionMessage = ''workbuddy API error: status=403, code=11140, message=account restricted due to unusual activity''"

definition WorkBuddyRestrictionUntil :: "Account option \<Rightarrow> time" where
  "WorkBuddyRestrictionUntil acc =
     (case acc of None \<Rightarrow> 0
      | Some a \<Rightarrow>
          if \<not> equal_fold (AccountType a) ''workbuddy'' then 0
          else if \<not> is_zero (WorkBuddyRestrictedUntil a) then WorkBuddyRestrictedUntil a
          else if StatusCode a = ''403'' \<and> IsWorkBuddyRestricted (StatusMessage a) \<and> \<not> is_zero (LastAttempt a)
               then LastAttempt a + WorkBuddyRestrictionCooldown
          else 0)"

text \<open>\<open>accountPatch.mergeWorkBuddyRestriction\<close>: \<open>u\<close> is the row being built, \<open>acc\<close> the caller's
  snapshot, \<open>existing\<close> the stored row.\<close>

definition mergeWorkBuddyRestriction :: "time \<Rightarrow> Account \<Rightarrow> Account \<Rightarrow> Account \<Rightarrow> Account" where
  "mergeWorkBuddyRestriction now u acc existing =
     (if \<not> equal_fold (AccountType u) ''workbuddy'' then u
      else
        let until0 = WorkBuddyRestrictionUntil (Some existing);
            until = (if \<not> until0 > now
                     then (let next = WorkBuddyRestrictionUntil (Some acc)
                           in if next > until0 then next else until0)
                     else until0);
            u' = u\<lparr>WorkBuddyRestrictedUntil := until\<rparr>
        in if until > now
           then u'\<lparr>StatusCode := ''403'', StatusMessage := WorkBuddyRestrictionMessage,
                   LastAttempt := until - WorkBuddyRestrictionCooldown\<rparr>
           else u')"

section \<open>Per-model cooldowns\<close>

definition knownModelCooldownReason :: "string \<Rightarrow> string" where
  "knownModelCooldownReason reason =
     (if reason = ModelCooldownThrottled \<or> reason = ModelCooldownUnavailable then reason else [])"

definition merge_cooldown_entry :: "time \<Rightarrow> (string \<times> time) \<Rightarrow> (string \<times> time) list \<Rightarrow> (string \<times> time) list" where
  "merge_cooldown_entry now entry merged =
     (let name = trim_space (fst entry); until = snd entry in
      if name = [] \<or> is_zero until \<or> \<not> until > now then merged
      else (case map_of merged name of
              None \<Rightarrow> AList.update name until merged
            | Some current \<Rightarrow> if until > current then AList.update name until merged else merged))"

definition mergeModelCooldowns ::
  "time \<Rightarrow> (string \<times> time) list \<Rightarrow> (string \<times> time) list \<Rightarrow> (string \<times> time) list" where
  "mergeModelCooldowns now existing incoming =
     fold (merge_cooldown_entry now) incoming (fold (merge_cooldown_entry now) existing [])"

definition deadline_of :: "(string \<times> time) list \<Rightarrow> string \<Rightarrow> time" where
  "deadline_of m name = (case map_of m name of None \<Rightarrow> 0 | Some t \<Rightarrow> t)"

definition merge_existing_reason ::
  "time \<Rightarrow> (string \<times> time) list \<Rightarrow> (string \<times> string) \<Rightarrow> (string \<times> string) list \<Rightarrow> (string \<times> string) list" where
  "merge_existing_reason now existingUntil entry merged =
     (let name = trim_space (fst entry); until = deadline_of existingUntil name in
      if name = [] \<or> is_zero until \<or> \<not> until > now then merged
      else if knownModelCooldownReason (snd entry) \<noteq> []
           then AList.update name (knownModelCooldownReason (snd entry)) merged else merged)"

definition merge_incoming_reason ::
  "time \<Rightarrow> (string \<times> time) list \<Rightarrow> (string \<times> time) list \<Rightarrow> (string \<times> string) \<Rightarrow>
     (string \<times> string) list \<Rightarrow> (string \<times> string) list" where
  "merge_incoming_reason now existingUntil incomingUntil entry merged =
     (let name = trim_space (fst entry) in
      case map_of incomingUntil name of
        None \<Rightarrow> merged
      | Some until \<Rightarrow>
          if name = [] \<or> is_zero until \<or> \<not> until > now then merged
          else if (case map_of existingUntil name of None \<Rightarrow> False | Some stored \<Rightarrow> stored > until) then merged
          else if knownModelCooldownReason (snd entry) \<noteq> []
               then AList.update name (knownModelCooldownReason (snd entry)) merged else merged)"

definition mergeModelCooldownReasons ::
  "time \<Rightarrow> (string \<times> string) list \<Rightarrow> (string \<times> string) list \<Rightarrow> (string \<times> time) list \<Rightarrow>
     (string \<times> time) list \<Rightarrow> (string \<times> string) list" where
  "mergeModelCooldownReasons now existing incoming existingUntil incomingUntil =
     fold (merge_incoming_reason now existingUntil incomingUntil) incoming
       (fold (merge_existing_reason now existingUntil) existing [])"

definition RecordModelCooldownWithReason ::
  "time \<Rightarrow> Account option \<Rightarrow> string \<Rightarrow> time \<Rightarrow> string \<Rightarrow> Account option" where
  "RecordModelCooldownWithReason now acc model until reason =
     (case acc of None \<Rightarrow> None
      | Some a \<Rightarrow>
          if is_zero until \<or> \<not> until > now then Some a
          else
            let name = trim_space model in
            if name = [] then Some a
            else if (case map_of (ModelCooldowns a) name of None \<Rightarrow> False | Some current \<Rightarrow> \<not> until > current)
                 then Some a
            else
              Some (a\<lparr>ModelCooldowns := AList.update name until (ModelCooldowns a),
                      ModelCooldownReasons :=
                        AList.update name
                          (if knownModelCooldownReason reason \<noteq> [] then knownModelCooldownReason reason
                           else ModelCooldownThrottled)
                          (ModelCooldownReasons a)\<rparr>))"

definition RecordModelCooldown :: "time \<Rightarrow> Account option \<Rightarrow> string \<Rightarrow> time \<Rightarrow> Account option" where
  "RecordModelCooldown now acc model until =
     RecordModelCooldownWithReason now acc model until ModelCooldownThrottled"

definition ModelCooldownRemaining :: "Account option \<Rightarrow> string \<Rightarrow> time \<Rightarrow> duration" where
  "ModelCooldownRemaining acc model now =
     (case acc of None \<Rightarrow> 0
      | Some a \<Rightarrow>
          (case map_of (ModelCooldowns a) (trim_space model) of
             None \<Rightarrow> 0
           | Some until \<Rightarrow> if is_zero until \<or> \<not> until > now then 0 else time_sub until now))"

definition ModelCooldownKind :: "Account option \<Rightarrow> string \<Rightarrow> time \<Rightarrow> string" where
  "ModelCooldownKind acc model now =
     (case acc of None \<Rightarrow> []
      | Some a \<Rightarrow>
          (let name = trim_space model; remaining = ModelCooldownRemaining (Some a) name now in
           if remaining \<le> 0 then []
           else
             let reason = (case map_of (ModelCooldownReasons a) name of None \<Rightarrow> [] | Some r \<Rightarrow> r);
                 known = knownModelCooldownReason reason
             in if known \<noteq> [] then known
                else if remaining > ModelCooldownEntitlementFloor then ModelCooldownUnavailable
                else ModelCooldownThrottled))"

section \<open>The quality verdict\<close>

record AccountQualityUpdate =
  ExpectedRevision :: "64 word"
  Reason :: string
  CooldownUntil :: time
  DisableThreshold :: int

record AccountQualityResult =
  Applied :: bool
  PreviousFailures :: int
  Failures :: int
  Revision :: "64 word"
  qr_CooldownUntil :: time
  qr_Reason :: string
  qr_Enabled :: bool
  qr_StatusMessage :: string

definition quality_result :: "bool \<Rightarrow> int \<Rightarrow> Account \<Rightarrow> AccountQualityResult" where
  "quality_result applied previous a =
     \<lparr>Applied = applied, PreviousFailures = previous, Failures = QualityFailures a,
      Revision = QualityRevision a, qr_CooldownUntil = QualityCooldownUntil a,
      qr_Reason = QualityReason a, qr_Enabled = Enabled a, qr_StatusMessage = StatusMessage a\<rparr>"

text \<open>The mutation \<open>ApplyAccountQuality\<close> runs on the stored row inside \<open>updateAccountAtomic\<close>.\<close>

definition ApplyAccountQuality :: "AccountQualityUpdate \<Rightarrow> Account \<Rightarrow> Account \<times> AccountQualityResult" where
  "ApplyAccountQuality update existing =
     (let previous = QualityFailures existing;
          reason = trim_space (Reason update) in
      if reason \<noteq> [] then
        let failures = wrap64 (QualityFailures existing + 1);
            e1 = existing\<lparr>QualityFailures := failures, QualityReason := reason,
                   QualityCooldownUntil :=
                     (if CooldownUntil update > QualityCooldownUntil existing
                      then CooldownUntil update else QualityCooldownUntil existing),
                   QualityRevision := QualityRevision existing + 1\<rparr>;
            e2 = (if DisableThreshold update > 0 \<and> failures \<ge> DisableThreshold update
                  then e1\<lparr>Enabled := False,
                          StatusMessage := ''disabled after repeated degraded responses ('' @ reason @ '')''\<rparr>
                  else if StatusCode e1 = []
                       then e1\<lparr>StatusMessage := ''parked after a degraded response ('' @ reason @ '')''\<rparr>
                  else e1)
        in (e2, quality_result True previous e2)
      else if QualityRevision existing = ExpectedRevision update \<and> QualityFailures existing > 0 then
        let e1 = existing\<lparr>QualityFailures := 0, QualityCooldownUntil := 0, QualityReason := [],
                          QualityRevision := QualityRevision existing + 1\<rparr>;
            e2 = (if StatusCode e1 = [] then e1\<lparr>StatusMessage := []\<rparr> else e1)
        in (e2, quality_result True previous e2)
      else (existing, quality_result False previous existing))"

section \<open>The paid-quota probe claim\<close>

text \<open>The mutation of \<open>ClaimGrokPaidQuotaProbe\<close> on the stored row; the flag is \<open>claimed\<close>.\<close>

definition ClaimGrokPaidQuotaProbe :: "time \<Rightarrow> Account \<Rightarrow> Account \<times> bool" where
  "ClaimGrokPaidQuotaProbe now acc =
     (let billing = GrokBilling acc in
      if \<not> IsExhausted billing then (acc, False)
      else
        let due = (if is_zero (NextProbeAt billing) then PeriodEnd billing else NextProbeAt billing) in
        if is_zero due \<or> now < due then (acc, False)
        else (acc\<lparr>GrokBilling := billing\<lparr>LastProbeAt := now, NextProbeAt := now + GrokPaidQuotaProbeInterval\<rparr>\<rparr>,
              True))"

section \<open>A row to instantiate the properties at\<close>

definition sample_account :: Account where
  "sample_account = \<lparr>ID = 1, Name = ''a'', AccountType = ''workbuddy'', AgentMode = [], Weight = 1,
     MaxConcurrent = 0, Enabled = True, Subscription = [], UsageCurrent = 0, StatusCode = [],
     WorkBuddyRestrictedUntil = 0, AuthStatus = [], RateLimitFailures = 0, QualityFailures = 0,
     QualityRevision = 0, QualityCooldownUntil = 0, QualityReason = [], StatusMessage = [],
     LastAttempt = 0, VerifiedAt = 0, QuotaResetAt = 0,
     GrokBilling = \<lparr>Weekly = \<lparr>gw_Limit = 0, gw_Remaining = 0, gw_UsagePercent = 0, gw_HasLimit = False,
        gw_HasRemaining = False, gw_HasUsage = False, gw_ResetAt = 0, gw_WindowSeconds = 0\<rparr>,
        Monthly = \<lparr>gw_Limit = 0, gw_Remaining = 0, gw_UsagePercent = 0, gw_HasLimit = False,
        gw_HasRemaining = False, gw_HasUsage = False, gw_ResetAt = 0, gw_WindowSeconds = 0\<rparr>,
        gb_SyncedAt = 0, gb_Source = [], ProfileKnown = False, MonthlyUsed = 0, OnDemandCap = 0,
        OnDemandUsed = 0, PrepaidBalance = 0, NextProbeAt = 0, LastProbeAt = 0\<rparr>,
     ModelCooldowns = [], ModelCooldownReasons = []\<rparr>"

section \<open>What the operations guarantee\<close>

definition live_deadlines :: "time \<Rightarrow> string \<Rightarrow> (string \<times> time) list \<Rightarrow> time set" where
  "live_deadlines now name xs = {u. \<exists>k. (k, u) \<in> set xs \<and> trim_space k = name \<and> u \<noteq> 0 \<and> now < u}"

lemma live_deadlines_simps [simp]:
  "live_deadlines now name [] = {}"
  "live_deadlines now name (xs @ ys) = live_deadlines now name xs \<union> live_deadlines now name ys"
  by (auto simp: live_deadlines_def)

lemma live_deadlines_Cons:
  "live_deadlines now name (e # xs) =
     (if trim_space (fst e) = name \<and> snd e \<noteq> 0 \<and> now < snd e then {snd e} else {}) \<union>
     live_deadlines now name xs"
  by (cases e) (auto simp: live_deadlines_def)

lemma finite_live_deadlines [simp]: "finite (live_deadlines now name xs)"
  by (rule finite_subset [of _ "snd ` set xs"]) (force simp: live_deadlines_def)+

definition latest :: "time set \<Rightarrow> time option" where
  "latest T = (if T = {} then None else Some (Max T))"

lemma map_of_merge_cooldown_entry:
  "map_of (merge_cooldown_entry now e merged) name =
     (if name \<noteq> [] \<and> trim_space (fst e) = name \<and> snd e \<noteq> 0 \<and> now < snd e
      then Some (case map_of merged name of None \<Rightarrow> snd e | Some u \<Rightarrow> max u (snd e))
      else map_of merged name)"
  by (auto simp: merge_cooldown_entry_def Let_def is_zero_def update_conv max_def split: option.splits)

lemma latest_insert:
  "finite T \<Longrightarrow> latest (insert u T) = Some (case latest T of None \<Rightarrow> u | Some v \<Rightarrow> max v u)"
  by (auto simp: latest_def max.commute)

lemma map_of_fold_merge:
  assumes "name \<noteq> []" and "map_of merged name = latest T" and "finite T"
  shows "map_of (fold (merge_cooldown_entry now) xs merged) name = latest (T \<union> live_deadlines now name xs)"
  using assms(2,3)
proof (induction xs arbitrary: merged T)
  case Nil
  then show ?case by simp
next
  case (Cons e xs)
  define hit where "hit \<longleftrightarrow> trim_space (fst e) = name \<and> snd e \<noteq> 0 \<and> now < snd e"
  have "map_of (merge_cooldown_entry now e merged) name = latest (if hit then insert (snd e) T else T)"
    using Cons.prems assms(1) by (simp add: map_of_merge_cooldown_entry hit_def latest_insert)
  from Cons.IH [OF this] Cons.prems(2)
  have "map_of (fold (merge_cooldown_entry now) (e # xs) merged) name =
      latest ((if hit then insert (snd e) T else T) \<union> live_deadlines now name xs)" by simp
  moreover have "live_deadlines now name (e # xs) = (if hit then {snd e} else {}) \<union> live_deadlines now name xs"
    by (simp add: live_deadlines_Cons hit_def)
  ultimately show ?case by (cases hit) simp_all
qed

lemma merged_name_nonempty: "map_of (fold (merge_cooldown_entry now) xs merged) [] = map_of merged []"
  by (induction xs arbitrary: merged) (simp_all add: map_of_merge_cooldown_entry)

text \<open>Merging the stored and the incoming per-model cooldowns keeps, for every model name, exactly the
  latest deadline that is still running in either map under that name up to surrounding blanks, and
  no entry for expired or nameless ones.\<close>

lemma mergeModelCooldowns_latest:
  "map_of (mergeModelCooldowns now existing incoming) name =
     (if name = [] then None else latest (live_deadlines now name (existing @ incoming)))"
proof (cases "name = []")
  case True
  then show ?thesis by (simp add: mergeModelCooldowns_def merged_name_nonempty)
next
  case False
  have "map_of ([] :: (string \<times> time) list) name = latest {}" by (simp add: latest_def)
  from map_of_fold_merge [OF False this, of now existing]
  have "map_of (fold (merge_cooldown_entry now) existing []) name = latest (live_deadlines now name existing)"
    by simp
  from map_of_fold_merge [OF False this, of now incoming] False show ?thesis
    by (simp add: mergeModelCooldowns_def)
qed

lemma merge_existing_reason_dom:
  "map_of (merge_existing_reason now eu e m) name = Some r \<Longrightarrow>
     map_of m name = Some r \<or>
     (name \<noteq> [] \<and> r \<in> {ModelCooldownThrottled, ModelCooldownUnavailable} \<and>
      (\<exists>u. map_of eu name = Some u \<and> u \<noteq> 0 \<and> now < u \<and> trim_space name = name))"
  by (auto simp: merge_existing_reason_def Let_def deadline_of_def is_zero_def update_conv
      knownModelCooldownReason_def split: if_splits option.splits)

lemma merge_incoming_reason_dom:
  "map_of (merge_incoming_reason now eu iu e m) name = Some r \<Longrightarrow>
     map_of m name = Some r \<or>
     (name \<noteq> [] \<and> r \<in> {ModelCooldownThrottled, ModelCooldownUnavailable} \<and>
      (\<exists>u. map_of iu name = Some u \<and> u \<noteq> 0 \<and> now < u \<and> trim_space name = name))"
  by (auto simp: merge_incoming_reason_def Let_def is_zero_def update_conv
      knownModelCooldownReason_def split: if_splits option.splits)

definition reason_alive :: "time \<Rightarrow> (string \<times> time) list \<Rightarrow> string \<Rightarrow> string \<Rightarrow> bool" where
  "reason_alive now us name r \<longleftrightarrow>
     name \<noteq> [] \<and> r \<in> {ModelCooldownThrottled, ModelCooldownUnavailable} \<and> live_deadlines now name us \<noteq> {}"

lemma live_of_lookup:
  "map_of us name = Some u \<Longrightarrow> u \<noteq> 0 \<Longrightarrow> now < u \<Longrightarrow> trim_space name = name \<Longrightarrow>
     live_deadlines now name us \<noteq> {}"
  by (auto simp: live_deadlines_def dest!: map_of_SomeD)

lemma fold_existing_reasons:
  assumes "\<And>n r. map_of m n = Some r \<Longrightarrow> reason_alive now (eu @ iu) n r"
  shows "map_of (fold (merge_existing_reason now eu) xs m) name = Some r \<Longrightarrow> reason_alive now (eu @ iu) name r"
  using assms
proof (induction xs arbitrary: m)
  case Nil
  then show ?case by simp
next
  case (Cons e xs)
  have "reason_alive now (eu @ iu) n r'" if "map_of (merge_existing_reason now eu e m) n = Some r'" for n r'
    using merge_existing_reason_dom [OF that] Cons.prems(2) live_of_lookup
    by (fastforce simp: reason_alive_def)
  from Cons.IH [OF _ this] Cons.prems(1) show ?case by simp
qed

lemma fold_incoming_reasons:
  assumes "\<And>n r. map_of m n = Some r \<Longrightarrow> reason_alive now (eu @ iu) n r"
  shows "map_of (fold (merge_incoming_reason now eu iu) xs m) name = Some r \<Longrightarrow> reason_alive now (eu @ iu) name r"
  using assms
proof (induction xs arbitrary: m)
  case Nil
  then show ?case by simp
next
  case (Cons e xs)
  have "reason_alive now (eu @ iu) n r'" if "map_of (merge_incoming_reason now eu iu e m) n = Some r'" for n r'
    using merge_incoming_reason_dom [OF that] Cons.prems(2) live_of_lookup
    by (fastforce simp: reason_alive_def)
  from Cons.IH [OF _ this] Cons.prems(1) show ?case by simp
qed

lemma mergeModelCooldownReasons_alive:
  assumes "map_of (mergeModelCooldownReasons now existing incoming eu iu) name = Some r"
  shows "reason_alive now (eu @ iu) name r"
proof -
  have "reason_alive now (eu @ iu) n r'"
    if "map_of (fold (merge_existing_reason now eu) existing []) n = Some r'" for n r'
    using fold_existing_reasons [OF _ that, of iu] by simp
  from fold_incoming_reasons [OF this] assms show ?thesis
    unfolding mergeModelCooldownReasons_def by blast
qed


text \<open>A merged label never outlives its cooldown: every model that carries a reason after the merge
  still has a running deadline in the merged map, and the reason is one of the two known ones.\<close>

lemma mergeModelCooldownReasons_never_outlive:
  assumes "map_of (mergeModelCooldownReasons now existing incoming eu iu) name = Some r"
  shows "r \<in> {ModelCooldownThrottled, ModelCooldownUnavailable} \<and>
    (\<exists>u > now. map_of (mergeModelCooldowns now eu iu) name = Some u)"
proof -
  have alive: "reason_alive now (eu @ iu) name r" using assms by (rule mergeModelCooldownReasons_alive)
  then have "Max (live_deadlines now name (eu @ iu)) \<in> live_deadlines now name (eu @ iu)"
    by (intro Max_in) (simp_all add: reason_alive_def)
  then have "now < Max (live_deadlines now name (eu @ iu))" by (auto simp: live_deadlines_def)
  then show ?thesis
    using alive by (simp add: mergeModelCooldowns_latest latest_def reason_alive_def)
qed

text \<open>Recording a cooldown for one model never shortens a deadline, sets it to the later of the two, and
  leaves the deadlines of every other model alone.\<close>

lemma RecordModelCooldown_deadline:
  assumes "trim_space model \<noteq> []" "until \<noteq> 0" "now < until"
    and "RecordModelCooldownWithReason now (Some a) model until reason = Some a'"
  shows "map_of (ModelCooldowns a') n =
     (if n = trim_space model then
        Some (case map_of (ModelCooldowns a) n of None \<Rightarrow> until | Some u \<Rightarrow> max u until)
      else map_of (ModelCooldowns a) n)"
  using assms
  by (auto simp: RecordModelCooldownWithReason_def Let_def is_zero_def update_conv max_def
      split: if_splits option.splits)

text \<open>A healthy quality result never erases a newer failure: after a failure verdict, the healthy result
  of a request that saw the revision before it changes nothing.\<close>

lemma ApplyAccountQuality_stale_healthy:
  assumes "trim_space (Reason bad) \<noteq> []" "trim_space (Reason ok) = []"
    and "ExpectedRevision ok = QualityRevision a"
  shows "fst (ApplyAccountQuality ok (fst (ApplyAccountQuality bad a))) = fst (ApplyAccountQuality bad a)"
  using assms by (simp add: ApplyAccountQuality_def Let_def)

fun claim_run :: "time list \<Rightarrow> Account \<Rightarrow> time list" where
  "claim_run [] acc = []"
| "claim_run (now # nows) acc =
     (let (acc', claimed) = ClaimGrokPaidQuotaProbe now acc
      in if claimed then now # claim_run nows acc' else claim_run nows acc')"

lemma claim_next:
  "ClaimGrokPaidQuotaProbe now acc = (acc', True) \<Longrightarrow>
     NextProbeAt (GrokBilling acc') = now + GrokPaidQuotaProbeInterval"
  by (auto simp: ClaimGrokPaidQuotaProbe_def Let_def split: if_splits)

lemma claim_refused: "ClaimGrokPaidQuotaProbe now acc = (acc', False) \<Longrightarrow> acc' = acc"
  by (auto simp: ClaimGrokPaidQuotaProbe_def Let_def split: if_splits)

lemma claim_due:
  "ClaimGrokPaidQuotaProbe now acc = (acc', True) \<Longrightarrow> NextProbeAt (GrokBilling acc) \<noteq> 0 \<Longrightarrow>
     NextProbeAt (GrokBilling acc) \<le> now"
  by (auto simp: ClaimGrokPaidQuotaProbe_def Let_def is_zero_def split: if_splits)

lemma claim_run_after:
  assumes "0 < due" "NextProbeAt (GrokBilling acc) = due" "t \<in> set (claim_run nows acc)"
  shows "due \<le> t"
  using assms
proof (induction nows arbitrary: acc due)
  case Nil
  then show ?case by simp
next
  case (Cons now nows)
  obtain acc' claimed where c: "ClaimGrokPaidQuotaProbe now acc = (acc', claimed)" by fastforce
  show ?case
  proof (cases claimed)
    case True
    with c Cons.prems have "due \<le> now" using claim_due by fastforce
    moreover have "now + GrokPaidQuotaProbeInterval \<le> t" if "t \<in> set (claim_run nows acc')"
      using c True claim_next calculation Cons.prems(1) that
      by (intro Cons.IH [of _ acc']) (auto simp: GrokPaidQuotaProbeInterval_def minute_def)
    ultimately show ?thesis
      using Cons.prems(3) c True by (auto simp: GrokPaidQuotaProbeInterval_def minute_def)
  next
    case False
    with c have "acc' = acc" by (auto dest: claim_refused)
    with Cons.IH [OF Cons.prems(1,2)] Cons.prems(3) c False show ?thesis by simp
  qed
qed

text \<open>Whatever the clock readings of the competing selectors, the probes of an exhausted paid account
  that are granted lie at least the probe interval apart.\<close>

lemma claim_run_spaced:
  assumes "\<And>t. t \<in> set nows \<Longrightarrow> 0 < t"
  shows "sorted_wrt (\<lambda>s t. s + GrokPaidQuotaProbeInterval \<le> t) (claim_run nows acc)"
  using assms
proof (induction nows arbitrary: acc)
  case Nil
  show ?case by simp
next
  case (Cons now nows)
  obtain acc' claimed where c: "ClaimGrokPaidQuotaProbe now acc = (acc', claimed)" by fastforce
  have "now + GrokPaidQuotaProbeInterval \<le> t" if claimed "t \<in> set (claim_run nows acc')" for t
    using that c claim_next Cons.prems [of now]
    by (intro claim_run_after [of _ acc' t nows]) (auto simp: GrokPaidQuotaProbeInterval_def minute_def)
  with Cons c show ?case by simp
qed

lemma merge_restriction_in_force:
  assumes "equal_fold (AccountType u) ''workbuddy''" "WorkBuddyRestrictionUntil (Some existing) = until" "now < until"
  shows "mergeWorkBuddyRestriction now u acc existing =
    u\<lparr>WorkBuddyRestrictedUntil := until, StatusCode := ''403'', StatusMessage := WorkBuddyRestrictionMessage,
       LastAttempt := until - WorkBuddyRestrictionCooldown\<rparr>"
  using assms by (simp add: mergeWorkBuddyRestriction_def Let_def)



end
