(* ===== verification/Channel.thy ===== *)
theory Channel
  imports Go_Prelude
begin

text \<open>
  \<^verbatim>\<open>internal/channel\<close>: the registry of the three providers, parsing of a channel name and of an
  inference path. Both base paths of a provider, \<open>/{provider}/v1\<close> and \<open>/{provider}\<close>, serve the same
  endpoints. A lookup that can fail returns an \<open>option\<close>.
\<close>

type_synonym channel_id = string

record Definition =
  d_ID :: channel_id
  d_Label :: string
  d_APIPrefix :: string
  d_Generic :: bool
  d_Default :: bool
  d_Theme :: string
  d_AccountCreate :: string

definition WorkBuddy :: channel_id where "WorkBuddy = ''workbuddy''"
definition Cline :: channel_id where "Cline = ''cline''"
definition Grok :: channel_id where "Grok = ''grok''"

definition definitions :: "Definition list" where
  "definitions =
     [\<lparr>d_ID = WorkBuddy, d_Label = ''WorkBuddy'', d_APIPrefix = ''/workbuddy/v1'', d_Generic = True,
       d_Default = True, d_Theme = ''orange'', d_AccountCreate = ''browser''\<rparr>,
      \<lparr>d_ID = Cline, d_Label = ''Cline'', d_APIPrefix = ''/cline/v1'', d_Generic = True,
       d_Default = False, d_Theme = ''blue'', d_AccountCreate = ''browser''\<rparr>,
      \<lparr>d_ID = Grok, d_Label = ''Grok'', d_APIPrefix = ''/grok/v1'', d_Generic = False,
       d_Default = False, d_Theme = ''red'', d_AccountCreate = ''browser''\<rparr>]"

definition All :: "Definition list" where
  "All = definitions"

definition Parse :: "string \<Rightarrow> channel_id option" where
  "Parse value0 =
     (let value = to_lower (trim_space value0)
      in map_option d_ID (find (\<lambda>d. value = d_ID d \<or> equal_fold value (d_Label d)) definitions))"

definition IsSupported :: "string \<Rightarrow> bool" where
  "IsSupported value = (Parse value \<noteq> None)"

definition DefinitionFor :: "channel_id \<Rightarrow> Definition option" where
  "DefinitionFor cid = find (\<lambda>d. d_ID d = cid) definitions"

definition Default :: Definition where
  "Default = (case find d_Default definitions of Some d \<Rightarrow> d | None \<Rightarrow> hd definitions)"

definition PrefixesFor :: "channel_id \<Rightarrow> string list" where
  "PrefixesFor cid =
     (case DefinitionFor cid of None \<Rightarrow> []
      | Some d \<Rightarrow> [d_APIPrefix d, trim_suffix (d_APIPrefix d) ''/v1''])"

definition GenericPrefixes :: "string list" where
  "GenericPrefixes = concat (map (\<lambda>d. if d_Generic d then PrefixesFor (d_ID d) else []) definitions)"

definition AllPrefixes :: "string list" where
  "AllPrefixes = concat (map (\<lambda>d. PrefixesFor (d_ID d)) definitions)"

text \<open>The two nested loops of \<open>EndpointFromPath\<close>, over the prefixes with their provider.\<close>

fun endpoint_in :: "(channel_id \<times> string) list \<Rightarrow> string \<Rightarrow> (channel_id \<times> string) option" where
  "endpoint_in [] path = None"
| "endpoint_in ((cid, pre) # ps) path =
     (if path = pre then Some (cid, [])
      else case cut_prefix path (pre @ ''/'') of
             (endpoint, True) \<Rightarrow> Some (cid, endpoint)
           | (_, False) \<Rightarrow> endpoint_in ps path)"

definition provider_prefixes :: "(channel_id \<times> string) list" where
  "provider_prefixes = concat (map (\<lambda>d. map (\<lambda>p. (d_ID d, p)) (PrefixesFor (d_ID d))) definitions)"

definition EndpointFromPath :: "string \<Rightarrow> (channel_id \<times> string) option" where
  "EndpointFromPath path = endpoint_in provider_prefixes path"

definition FromPath :: "string \<Rightarrow> channel_id option" where
  "FromPath path = map_option fst (EndpointFromPath path)"

definition TrimModelPath :: "string \<Rightarrow> (channel_id \<times> string) option" where
  "TrimModelPath path =
     (case EndpointFromPath path of
        None \<Rightarrow> None
      | Some (cid, endpoint) \<Rightarrow>
          (case cut_prefix endpoint ''models/'' of
             (model, True) \<Rightarrow> Some (cid, model)
           | (_, False) \<Rightarrow> None))"

section \<open>Paths\<close>

lemma provider_prefixes_eq:
  "provider_prefixes =
     [(''workbuddy'', ''/workbuddy/v1''), (''workbuddy'', ''/workbuddy''), (''cline'', ''/cline/v1''),
      (''cline'', ''/cline''), (''grok'', ''/grok/v1''), (''grok'', ''/grok'')]"
  by code_simp

lemma cut_prefix_append: "cut_prefix (p @ s) p = (s, True)"
  by (simp add: cut_prefix_def)

lemma endpoint_in_sound:
  "endpoint_in ps path = Some (cid, ep) \<Longrightarrow>
     \<exists>p. (cid, p) \<in> set ps \<and> (path = p \<and> ep = [] \<or> path = p @ ''/'' @ ep)"
proof (induction ps)
  case Nil
  then show ?case by simp
next
  case (Cons a ps)
  obtain i p where a: "a = (i, p)" by force
  show ?case
    using Cons unfolding a
    by (fastforce simp: cut_prefix_def prefix_def split: if_splits)
qed

lemmas endpoint_eval = EndpointFromPath_def provider_prefixes_eq cut_prefix_def

lemma EndpointFromPath_unversioned:
  assumes "\<not> prefix ''v1/'' ep" "ep \<noteq> ''v1''"
  shows "EndpointFromPath (''/workbuddy/'' @ ep) = Some (''workbuddy'', ep)"
    "EndpointFromPath (''/cline/'' @ ep) = Some (''cline'', ep)"
    "EndpointFromPath (''/grok/'' @ ep) = Some (''grok'', ep)"
  using assms by (simp_all add: endpoint_eval)

lemma EndpointFromPath_versioned:
  "EndpointFromPath (''/workbuddy/v1/'' @ ep) = Some (''workbuddy'', ep)"
  "EndpointFromPath (''/cline/v1/'' @ ep) = Some (''cline'', ep)"
  "EndpointFromPath (''/grok/v1/'' @ ep) = Some (''grok'', ep)"
  by (simp_all add: endpoint_eval)

text \<open>\<open>EndpointFromPath\<close> recognises a path exactly when it is a provider's base path or continues one
  after a slash, and the endpoint is what follows; both bases of a provider give the same endpoint,
  so a client may use either.\<close>

lemma EndpointFromPath_both_bases:
  assumes "cid \<in> {WorkBuddy, Cline, Grok}"
  shows "EndpointFromPath (''/'' @ cid @ ''/v1/'' @ ep) = Some (cid, ep) \<and>
    (\<not> prefix ''v1/'' ep \<and> ep \<noteq> ''v1'' \<longrightarrow> EndpointFromPath (''/'' @ cid @ ''/'' @ ep) = Some (cid, ep)) \<and>
    (\<forall>path cid' ep'. EndpointFromPath path = Some (cid', ep') \<longrightarrow>
       (\<exists>base \<in> {''/'' @ cid', ''/'' @ cid' @ ''/v1''}. path = base \<and> ep' = [] \<or> path = base @ ''/'' @ ep'))"
proof (intro conjI impI allI)
  show "EndpointFromPath (''/'' @ cid @ ''/v1/'' @ ep) = Some (cid, ep)"
    using assms EndpointFromPath_versioned [of ep] by (auto simp: WorkBuddy_def Cline_def Grok_def)
  show "EndpointFromPath (''/'' @ cid @ ''/'' @ ep) = Some (cid, ep)"
    if "\<not> prefix ''v1/'' ep \<and> ep \<noteq> ''v1''"
    using assms EndpointFromPath_unversioned [of ep] that by (auto simp: WorkBuddy_def Cline_def Grok_def)
next
  fix path cid' ep'
  assume "EndpointFromPath path = Some (cid', ep')"
  then obtain p where "(cid', p) \<in> set provider_prefixes"
    and path: "path = p \<and> ep' = [] \<or> path = p @ ''/'' @ ep'"
    unfolding EndpointFromPath_def using endpoint_in_sound by blast
  then have "p \<in> {''/'' @ cid', ''/'' @ cid' @ ''/v1''}"
    by (auto simp: provider_prefixes_eq)
  with path show "\<exists>base \<in> {''/'' @ cid', ''/'' @ cid' @ ''/v1''}. path = base \<and> ep' = [] \<or> path = base @ ''/'' @ ep'"
    by blast
qed

lemma Parse_labels: "d \<in> set definitions \<Longrightarrow> Parse (d_Label d) = Some (d_ID d)"
proof -
  have "list_all (\<lambda>d. Parse (d_Label d) = Some (d_ID d)) definitions" by code_simp
  then show "d \<in> set definitions \<Longrightarrow> ?thesis" by (auto simp: list_all_iff)
qed

lemma Parse_supported: "IsSupported ''workbuddy''" "IsSupported ''cline''" "IsSupported ''grok''"
  by code_simp+

end
