(* ===== verification/Account_Policy.thy ===== *)
theory Account_Policy
  imports Store_Account
begin

text \<open>
  \<^verbatim>\<open>internal/accountpolicy\<close>: how one upstream result becomes an account state change
  (\<open>Classify\<close>, \<open>Verdict.Apply\<close>), how long the account is then withheld (\<open>AccountHeld\<close>,
  \<open>CooldownFor\<close>, \<open>RateLimitCooldown\<close>), and the Grok plan names. An error value is its text with the
  hint of its \<open>RetryAfter\<close> method, when it has one. The clock reading of \<open>Classify\<close> and of
  \<open>Verdict.Apply\<close> is the argument \<open>now\<close>.
\<close>

datatype Scope = ScopeNone | ScopeModel | ScopeAccount | ScopeCredential

definition CooldownAuth :: duration where "CooldownAuth = 5 * minute"
definition CooldownRateLimitBase :: duration where "CooldownRateLimitBase = 30 * second"
definition CooldownRateLimitMax :: duration where "CooldownRateLimitMax = 30 * minute"
definition CooldownRateLimit :: duration where "CooldownRateLimit = CooldownRateLimitBase"
definition CooldownPayment :: duration where "CooldownPayment = 24 * hour"
definition CooldownBlocked :: duration where "CooldownBlocked = 24 * hour"
definition CooldownBlockedGro :: duration where "CooldownBlockedGro = 10 * minute"
definition CooldownTransient :: duration where "CooldownTransient = 5 * minute"
definition CredentialReverify :: duration where "CredentialReverify = 30 * minute"

lemmas cooldown_consts [go_time] =
  CooldownAuth_def CooldownRateLimitBase_def CooldownRateLimitMax_def CooldownRateLimit_def
  CooldownPayment_def CooldownBlocked_def CooldownBlockedGro_def CooldownTransient_def
  CredentialReverify_def WorkBuddyRestrictionCooldown_def

record Verdict =
  v_Status :: string
  v_Message :: string
  v_Scope :: Scope
  v_Retryable :: bool
  v_SwitchAccount :: bool
  v_NeedsLogin :: bool
  v_Cooldown :: duration
  v_Model :: string
  v_ModelCooldownKind :: string
  v_At :: time

definition zero_verdict :: Verdict where
  "zero_verdict = \<lparr>v_Status = [], v_Message = [], v_Scope = ScopeNone, v_Retryable = False,
     v_SwitchAccount = False, v_NeedsLogin = False, v_Cooldown = 0, v_Model = [],
     v_ModelCooldownKind = [], v_At = 0\<rparr>"

record go_error =
  err_Error :: string
  err_RetryAfter :: "duration option"

definition Success :: "time \<Rightarrow> Verdict" where
  "Success when = zero_verdict\<lparr>v_Scope := ScopeNone, v_At := when\<rparr>"

section \<open>Applying a verdict\<close>

definition Apply :: "time \<Rightarrow> Verdict \<Rightarrow> Account \<Rightarrow> Account" where
  "Apply now v acc =
     (let when = (if is_zero (v_At v) then now else v_At v);
          stored = WorkBuddyRestrictionUntil (Some acc);
          restrictedUntil =
            (if equal_fold (AccountType acc) ''workbuddy'' \<and> IsWorkBuddyRestricted (v_Message v) \<and> \<not> stored > when
             then when + WorkBuddyRestrictionCooldown else stored);
          a1 = acc\<lparr>WorkBuddyRestrictedUntil := restrictedUntil, StatusCode := trim_space (v_Status v)\<rparr>;
          a2 = (if v_NeedsLogin v then a1\<lparr>AuthStatus := AccountAuthStatusReauthRequired\<rparr>
                else if StatusCode a1 = [] then a1\<lparr>AuthStatus := AccountAuthStatusActive\<rparr>
                else a1);
          a3 = (if StatusCode a2 = []
                then a2\<lparr>StatusMessage := [], LastAttempt := 0, RateLimitFailures := 0\<rparr>
                else
                  let b = a2\<lparr>StatusMessage := trim_space (v_Message v), LastAttempt := when\<rparr> in
                  if StatusCode b = ''429''
                  then (let c = b\<lparr>RateLimitFailures := wrap64 (RateLimitFailures b + 1)\<rparr> in
                        if v_Cooldown v > 0 \<and> when + v_Cooldown v > QuotaResetAt c
                        then c\<lparr>QuotaResetAt := when + v_Cooldown v\<rparr> else c)
                  else b);
          a4 = a3\<lparr>VerifiedAt := when\<rparr>
      in if restrictedUntil > when
         then a4\<lparr>StatusCode := ''403'', StatusMessage := WorkBuddyRestrictionMessage,
                 LastAttempt := restrictedUntil - WorkBuddyRestrictionCooldown\<rparr>
         else a4)"

definition ScopeForStatus :: "string \<Rightarrow> Scope" where
  "ScopeForStatus status0 =
     (let status = trim_space status0 in
      if status = ''401'' then ScopeCredential
      else if status \<in> {''402'', ''403'', ''404'', ''429'', AccountStatusWorkBuddyQuotaExhausted} then ScopeAccount
      else if status = [] then ScopeNone
      else ScopeAccount)"

section \<open>Grok plans and account kinds\<close>

definition IsGrokAccount :: "Account option \<Rightarrow> bool" where
  "IsGrokAccount acc =
     (case acc of None \<Rightarrow> False | Some a \<Rightarrow> equal_fold (trim_space (AccountType a)) ''grok'')"

definition accountType :: "Account option \<Rightarrow> string" where
  "accountType acc = (case acc of None \<Rightarrow> [] | Some a \<Rightarrow> AccountType a)"

definition plan_char :: "char \<Rightarrow> string" where
  "plan_char c = (if c = CHR '' '' \<or> c = CHR ''_'' \<or> c = CHR ''-'' then []
                  else if c = CHR ''+'' then ''plus'' else [c])"

definition NormalizeGrokPlan :: "string \<Rightarrow> string" where
  "NormalizeGrokPlan subscription = concat (map plan_char (to_lower (trim_space subscription)))"

definition GrokBuildPlanIsFree :: "string \<Rightarrow> bool" where
  "GrokBuildPlanIsFree subscription =
     List.member [''free'', ''grokfree'', ''freetier'', ''basic'', ''grokbasic'', ''xbasic''] (NormalizeGrokPlan subscription)"

definition GrokBuildPlanIsPaid :: "string \<Rightarrow> bool" where
  "GrokBuildPlanIsPaid subscription =
     (let plan = NormalizeGrokPlan subscription in
      if List.member [''super'', ''pro'', ''grokpro'', ''heavy'', ''lite'', ''xpremium'', ''xpremiumplus'',
           ''paid'', ''team'', ''enterprise'', ''apikey''] plan then True
      else has_prefix plan ''supergrok'' \<or> has_prefix plan ''enterprise'' \<or> has_prefix plan ''team'')"

definition GrokBuildAccountIsPaid :: "Account option \<Rightarrow> bool" where
  "GrokBuildAccountIsPaid acc =
     (case acc of None \<Rightarrow> False
      | Some a \<Rightarrow> if \<not> IsGrokAccount (Some a) then False
                  else GrokBuildPlanIsPaid (Subscription a) \<or> HasPaidEntitlement (GrokBilling a))"

section \<open>Classifying an error\<close>

definition Retryable :: "go_error option \<Rightarrow> bool" where
  "Retryable err =
     (case err of None \<Rightarrow> False
      | Some e \<Rightarrow> UpstreamErrorClass.Retryable (ClassifyUpstreamError (err_Error e)))"

definition BoundRateLimitCooldown :: "duration \<Rightarrow> duration" where
  "BoundRateLimitCooldown retryAfter =
     (if retryAfter \<le> 0 then retryAfter
      else if retryAfter > CooldownRateLimitMax then CooldownRateLimitMax
      else retryAfter)"

definition rateLimitHint :: "go_error \<Rightarrow> duration \<Rightarrow> duration" where
  "rateLimitHint err fallback =
     (case err_RetryAfter err of
        Some hint \<Rightarrow> if hint > 0 then BoundRateLimitCooldown hint else fallback
      | None \<Rightarrow> fallback)"

definition creditExhaustionVerdict :: "Account option \<Rightarrow> string \<Rightarrow> go_error \<Rightarrow> time \<Rightarrow> Verdict option" where
  "creditExhaustionVerdict acc message err when =
     (if equal_fold (trim_space (accountType acc)) ''workbuddy''
      then Some (zero_verdict\<lparr>v_Status := AccountStatusWorkBuddyQuotaExhausted, v_Message := message,
                   v_Scope := ScopeAccount, v_Retryable := Retryable (Some err), v_SwitchAccount := True, v_At := when\<rparr>)
      else None)"

definition isClientRefusal :: "string \<Rightarrow> bool" where
  "isClientRefusal lower =
     (contains lower ''content policy rejected'' \<or> contains lower ''datainspectionfailed'' \<or>
      contains lower ''input text data may contain'' \<or> contains lower ''rejected the request parameters'')"

definition isGlobalUpstreamRefusal :: "string \<Rightarrow> bool" where
  "isGlobalUpstreamRefusal text0 =
     (let text = replace_all (to_lower text0) (bytes [92]) []
      in contains text ''available upstream accounts are rate-limited'' \<or>
         contains text ''available upstream accounts are rate limited'')"

definition isEntitlementRefusal :: "string \<Rightarrow> bool" where
  "isEntitlementRefusal lower =
     (contains lower ''not subscribed to required model plan'' \<or> IsClineProductSurface lower \<or>
      (contains lower ''http 403'' \<and> contains lower ''entitlement''))"

definition modelCooldownKindFor :: "string \<Rightarrow> string" where
  "modelCooldownKindFor lower =
     (if isEntitlementRefusal lower then ModelCooldownUnavailable else ModelCooldownThrottled)"

definition isModelScopedFailure :: "string \<Rightarrow> bool" where
  "isModelScopedFailure lower =
     (contains lower ''code=6004'' \<or> contains lower ''available upstream accounts are rate-limited'' \<or>
      contains lower ''model is not found'' \<or> contains lower ''model not found'' \<or>
      contains lower ''no_implementation_available'' \<or> contains lower ''context_window_exceeded'' \<or>
      contains lower ''max_token_limit'' \<or> contains lower ''model unavailable'' \<or>
      contains lower ''not subscribed to required model plan'' \<or> IsClineProductSurface lower \<or>
      (contains lower ''http 403'' \<and> contains lower ''entitlement'') \<or>
      contains lower ''requested base model'')"

definition credentialMessage :: "Account option \<Rightarrow> string" where
  "credentialMessage acc =
     (if IsGrokAccount acc then
        bytes [228, 184, 138, 230, 184, 184, 230, 139, 146, 231, 187, 157, 232, 175, 165, 32, 71, 114,
        111, 107, 32, 66, 117, 105, 108, 100, 32, 79, 65, 117, 116, 104, 32, 230, 142, 136, 230,
        157, 131, 239, 188, 140, 232, 175, 183, 229, 156, 168, 232, 180, 166, 229, 143, 183,
        231, 174, 161, 231, 144, 134, 228, 184, 173, 233, 135, 141, 230, 150, 176, 229, 174,
        140, 230, 136, 144, 229, 174, 152, 230, 150, 185, 231, 153, 187, 229, 189, 149]
      else if acc \<noteq> None \<and> equal_fold (trim_space (accountType acc)) ''workbuddy'' then
        bytes [228, 184, 138, 230, 184, 184, 230, 139, 146, 231, 187, 157, 232, 175, 165, 32, 87, 111,
        114, 107, 66, 117, 100, 100, 121, 32, 230, 142, 136, 230, 157, 131, 239, 188, 140, 232,
        175, 183, 229, 156, 168, 232, 180, 166, 229, 143, 183, 231, 174, 161, 231, 144, 134,
        228, 184, 173, 233, 135, 141, 230, 150, 176, 229, 174, 140, 230, 136, 144, 32, 79, 65,
        117, 116, 104, 32, 231, 153, 187, 229, 189, 149]
      else if acc \<noteq> None \<and> equal_fold (trim_space (accountType acc)) ''cline'' then
        bytes [228, 184, 138, 230, 184, 184, 230, 139, 146, 231, 187, 157, 232, 175, 165, 32, 67, 108,
        105, 110, 101, 32, 230, 142, 136, 230, 157, 131, 239, 188, 140, 232, 175, 183, 229, 156,
        168, 232, 180, 166, 229, 143, 183, 231, 174, 161, 231, 144, 134, 228, 184, 173, 233,
        135, 141, 230, 150, 176, 229, 174, 140, 230, 136, 144, 32, 79, 65, 117, 116, 104, 32,
        231, 153, 187, 229, 189, 149]
      else
        bytes [228, 184, 138, 230, 184, 184, 230, 139, 146, 231, 187, 157, 232, 175, 165, 229, 135, 173,
        230, 141, 174, 239, 188, 140, 233, 156, 128, 232, 166, 129, 233, 135, 141, 230, 150,
        176, 231, 153, 187, 229, 189, 149, 229, 144, 142, 233, 135, 141, 232, 175, 149])"

definition Classify :: "time \<Rightarrow> Account option \<Rightarrow> go_error option \<Rightarrow> string \<Rightarrow> Verdict" where
  "Classify now acc err model =
     (case err of None \<Rightarrow> Success now
      | Some e \<Rightarrow>
     (let message = trim_space (err_Error e);
          lower = to_lower message;
          retry = Retryable (Some e);
          base = zero_verdict\<lparr>v_Message := message, v_At := now\<rparr> in
      if equal_fold (accountType acc) ''workbuddy'' \<and> IsWorkBuddyRestricted message then
        base\<lparr>v_Status := ''403'', v_Scope := ScopeAccount, v_Retryable := True, v_SwitchAccount := True,
             v_Cooldown := WorkBuddyRestrictionCooldown\<rparr>
      else if IsClineInferenceCap lower then
        base\<lparr>v_Status := ''429'', v_Scope := ScopeAccount, v_Retryable := True, v_SwitchAccount := True,
             v_Cooldown := (case err_RetryAfter e of
                              Some hint \<Rightarrow> if hint > 0 then hint else CooldownRateLimit
                            | None \<Rightarrow> CooldownRateLimit)\<rparr>
      else if isGlobalUpstreamRefusal lower then
        base\<lparr>v_Scope := ScopeModel, v_Model := model, v_Retryable := True, v_SwitchAccount := False\<rparr>
      else if isClientRefusal lower then
        base\<lparr>v_Scope := ScopeNone, v_Retryable := False, v_SwitchAccount := False\<rparr>
      else if contains lower ''empty upstream stream'' then
        base\<lparr>v_Scope := ScopeNone, v_Retryable := False, v_SwitchAccount := False\<rparr>
      else if IsCreditExhaustion lower \<and> creditExhaustionVerdict acc message e now \<noteq> None then
        the (creditExhaustionVerdict acc message e now)
      else if IsUpstreamModelRefusal lower then
        base\<lparr>v_Scope := ScopeNone, v_Retryable := False, v_SwitchAccount := False\<rparr>
      else if isModelScopedFailure lower then
        base\<lparr>v_Scope := ScopeModel, v_Model := model, v_Retryable := retry, v_SwitchAccount := True,
             v_Cooldown := rateLimitHint e CooldownRateLimit, v_ModelCooldownKind := modelCooldownKindFor lower\<rparr>
      else if ClassifyAccountStatus message = ''401'' then
        base\<lparr>v_Status := ''401'', v_Message := credentialMessage acc, v_Scope := ScopeCredential,
             v_Retryable := retry, v_SwitchAccount := True, v_NeedsLogin := True, v_Cooldown := CredentialReverify\<rparr>
      else if ClassifyAccountStatus message \<in> {''403'', ''404''} then
        base\<lparr>v_Status := ClassifyAccountStatus message, v_Scope := ScopeAccount, v_Retryable := retry,
             v_SwitchAccount := True,
             v_Cooldown := (if IsGrokAccount acc then CooldownBlockedGro else CooldownBlocked)\<rparr>
      else if ClassifyAccountStatus message = ''402'' then
        base\<lparr>v_Status := ''402'', v_Scope := ScopeAccount, v_Retryable := retry, v_SwitchAccount := True,
             v_Cooldown := CooldownPayment\<rparr>
      else if ClassifyAccountStatus message = ''429'' then
        base\<lparr>v_Status := ''429'', v_Scope := ScopeAccount, v_Retryable := retry, v_SwitchAccount := True,
             v_Cooldown := rateLimitHint e CooldownRateLimit\<rparr>
      else
        base\<lparr>v_Status := [], v_Message := [], v_Scope := ScopeNone, v_Retryable := retry, v_SwitchAccount := True\<rparr>))"

section \<open>How long an account is withheld\<close>

text \<open>The loop of \<open>RateLimitCooldown\<close>; the first argument counts the iterations \<open>failures - i\<close> left.\<close>

fun rate_limit_loop :: "nat \<Rightarrow> duration \<Rightarrow> duration" where
  "rate_limit_loop 0 cooldown = cooldown"
| "rate_limit_loop (Suc n) cooldown =
     (if cooldown < CooldownRateLimitMax then rate_limit_loop n (cooldown * 2) else cooldown)"

definition RateLimitCooldown :: "int \<Rightarrow> duration" where
  "RateLimitCooldown failures0 =
     (let failures = (if failures0 < 1 then 1 else failures0);
          cooldown = rate_limit_loop (nat (failures - 1)) CooldownRateLimitBase
      in if cooldown > CooldownRateLimitMax then CooldownRateLimitMax else cooldown)"

definition CooldownFor :: "Account option \<Rightarrow> duration" where
  "CooldownFor acc =
     (case acc of None \<Rightarrow> CooldownTransient
      | Some a \<Rightarrow>
          (let status = trim_space (StatusCode a) in
           if status = ''401'' then CredentialReverify
           else if status = ''429'' then RateLimitCooldown (RateLimitFailures a)
           else if status = ''402'' then CooldownPayment
           else if status \<in> {''403'', ''404''}
                then (if IsGrokAccount (Some a) then CooldownBlockedGro else CooldownBlocked)
           else CooldownTransient))"

definition billingResetInQuotaField :: "Account option \<Rightarrow> bool" where
  "billingResetInQuotaField acc = (to_lower (trim_space (accountType acc)) = ''workbuddy'')"

definition held_until :: "Account \<Rightarrow> string \<Rightarrow> time" where
  "held_until a status =
     (let until = LastAttempt a + CooldownFor (Some a) in
      if QuotaResetAt a > until then
        (if status = ''429'' then
           (if IsClineInferenceCap (to_lower (StatusMessage a)) then QuotaResetAt a
            else if LastAttempt a + CooldownRateLimitMax < QuotaResetAt a then
              (if \<not> billingResetInQuotaField (Some a) then LastAttempt a + CooldownRateLimitMax else until)
            else QuotaResetAt a)
         else if status = ''402'' \<or> \<not> has_prefix status ''4'' then QuotaResetAt a
         else until)
      else until)"

definition AccountHeld :: "Account option \<Rightarrow> time \<Rightarrow> bool" where
  "AccountHeld acc now =
     (case acc of None \<Rightarrow> False
      | Some a \<Rightarrow>
          if \<not> AccountAuthActive (Some a) then True
          else
            let restricted = WorkBuddyRestrictionUntil (Some a) in
            if \<not> is_zero restricted \<and>
               (restricted > now \<or> (StatusCode a = ''403'' \<and> IsWorkBuddyRestricted (StatusMessage a)))
            then now < restricted
            else
              let status = trim_space (StatusCode a) in
              if status = [] \<or> status = AccountStatusWorkBuddyQuotaExhausted then False
              else if is_zero (LastAttempt a) then True
              else now < held_until a status)"

definition NeedsReverify :: "Account option \<Rightarrow> time \<Rightarrow> bool" where
  "NeedsReverify acc now =
     (case acc of None \<Rightarrow> False
      | Some a \<Rightarrow>
          if trim_space (StatusCode a) \<noteq> ''401'' then False
          else if is_zero (VerifiedAt a) then True
          else time_sub now (VerifiedAt a) \<ge> CredentialReverify)"

section \<open>Cooldown lengths\<close>

lemma rate_limit_loop_eq:
  assumes "0 < c"
  shows "min CooldownRateLimitMax (rate_limit_loop n c) = min CooldownRateLimitMax (c * 2 ^ n)"
  using assms
proof (induction n arbitrary: c)
  case 0
  show ?case by simp
next
  case (Suc n)
  show ?case
  proof (cases "c < CooldownRateLimitMax")
    case True
    with Suc.IH [of "c * 2"] Suc.prems show ?thesis by (simp add: mult.assoc)
  next
    case False
    have "1 \<le> (2 :: int) ^ Suc n" by (rule one_le_power) simp
    then have "c * 1 \<le> c * 2 ^ Suc n" using Suc.prems by (intro mult_left_mono) auto
    with False show ?thesis by simp
  qed
qed

lemma RateLimitCooldown_closed:
  "RateLimitCooldown failures = min (30 * minute) (30 * second * 2 ^ nat (failures - 1))"
proof -
  have *: "(if c > CooldownRateLimitMax then CooldownRateLimitMax else c) = min CooldownRateLimitMax c" for c
    by simp
  have "nat ((if failures < 1 then 1 else failures) - 1) = nat (failures - 1)" by auto
  then show ?thesis
    unfolding RateLimitCooldown_def Let_def *
    using rate_limit_loop_eq [of CooldownRateLimitBase "nat (failures - 1)"]
    by (simp add: go_time)
qed

lemma RateLimitCooldown_bounds:
  "30 * second \<le> RateLimitCooldown failures" "RateLimitCooldown failures \<le> 30 * minute"
proof -
  have "(1::int) \<le> 2 ^ nat (failures - 1)" by simp
  then have "30 * second * 1 \<le> 30 * second * 2 ^ nat (failures - 1)"
    by (intro mult_left_mono) (auto simp: second_def)
  then show "30 * second \<le> RateLimitCooldown failures"
    by (simp add: RateLimitCooldown_closed second_def minute_def)
  show "RateLimitCooldown failures \<le> 30 * minute" by (simp add: RateLimitCooldown_closed)
qed

text \<open>The doubling loop of the throttle cooldown computes \<open>min(30 min, 30 s * 2^(failures-1))\<close> for every
  failure count, a count below one standing for one.\<close>

lemma RateLimitCooldown_doubles:
  "RateLimitCooldown failures = min (30 * minute) (30 * second * 2 ^ nat (failures - 1))"
  by (rule RateLimitCooldown_closed)

section \<open>Verdicts\<close>

definition coherent :: "Verdict \<Rightarrow> bool" where
  "coherent v \<longleftrightarrow>
     (v_Status v \<in> insert AccountStatusWorkBuddyQuotaExhausted (insert [] (set statusCodePrefixes))) \<and>
     (v_SwitchAccount v \<or> v_Status v = []) \<and>
     (v_NeedsLogin v \<longleftrightarrow> v_Status v = ''401'') \<and>
     (v_Scope v = ScopeCredential \<longleftrightarrow> v_Status v = ''401'') \<and>
     (v_Scope v = ScopeAccount \<longleftrightarrow> v_Status v \<notin> {[], ''401''}) \<and>
     0 \<le> v_Cooldown v"

lemma rateLimitHint_pos: "0 < fallback \<Longrightarrow> 0 < rateLimitHint e fallback"
  by (auto simp: rateLimitHint_def BoundRateLimitCooldown_def go_time split: option.splits)

lemma Classify_coherent: "coherent (Classify now acc err model)"
proof (cases err)
  case None
  then show ?thesis by (simp add: Classify_def Success_def zero_verdict_def coherent_def)
next
  case (Some e)
  have hint: "0 \<le> rateLimitHint e CooldownRateLimit"
    using rateLimitHint_pos [of CooldownRateLimit e] by (simp add: go_time)
  have "Classify now acc (Some e) model \<in> Collect coherent"
    unfolding Classify_def Let_def option.case
    by (intro if_memI)
      (use hint in \<open>auto simp: coherent_def zero_verdict_def statusCodePrefixes_def go_time
         creditExhaustionVerdict_def AccountStatusWorkBuddyQuotaExhausted_def split: option.splits if_splits\<close>)
  with Some show ?thesis by simp
qed

text \<open>Every verdict is coherent: the state it records is a known account code; only a refused credential
  asks for a login and has the credential's scope; a recorded state always goes with a switch to
  another account; a verdict that blames nothing records nothing; no cooldown is negative.\<close>

lemma Classify_verdict_coherent:
  fixes now acc err model
  defines "v \<equiv> Classify now acc err model"
  shows "v_Status v \<in> insert AccountStatusWorkBuddyQuotaExhausted (insert [] (set statusCodePrefixes)) \<and>
     (v_SwitchAccount v \<or> v_Status v = []) \<and>
     (v_NeedsLogin v \<longleftrightarrow> v_Status v = ''401'') \<and>
     (v_Scope v = ScopeCredential \<longleftrightarrow> v_Status v = ''401'') \<and>
     (v_Scope v = ScopeAccount \<longleftrightarrow> v_Status v \<notin> {[], ''401''}) \<and>
     0 \<le> v_Cooldown v"
  using Classify_coherent [of now acc err model] unfolding coherent_def v_def .

section \<open>The state after a verdict\<close>

definition verdict_time :: "time \<Rightarrow> Verdict \<Rightarrow> time" where
  "verdict_time now v = (if v_At v = 0 then now else v_At v)"

definition restriction_after :: "time \<Rightarrow> Verdict \<Rightarrow> Account \<Rightarrow> time" where
  "restriction_after now v a =
     (if equal_fold (AccountType a) ''workbuddy'' \<and> IsWorkBuddyRestricted (v_Message v) \<and>
         WorkBuddyRestrictionUntil (Some a) \<le> verdict_time now v
      then verdict_time now v + WorkBuddyRestrictionCooldown else WorkBuddyRestrictionUntil (Some a))"

lemma Apply_unfold:
  "Apply now v acc =
     (let a2 = acc\<lparr>WorkBuddyRestrictedUntil := restriction_after now v acc, StatusCode := trim_space (v_Status v),
                  AuthStatus := (if v_NeedsLogin v then AccountAuthStatusReauthRequired
                    else if trim_space (v_Status v) = [] then AccountAuthStatusActive else AuthStatus acc)\<rparr>;
          a3 = (if trim_space (v_Status v) = []
                then a2\<lparr>StatusMessage := [], LastAttempt := 0, RateLimitFailures := 0\<rparr>
                else a2\<lparr>StatusMessage := trim_space (v_Message v), LastAttempt := verdict_time now v,
                   RateLimitFailures := (if trim_space (v_Status v) = ''429'' then wrap64 (RateLimitFailures acc + 1)
                     else RateLimitFailures acc),
                   QuotaResetAt := (if trim_space (v_Status v) = ''429'' \<and> 0 < v_Cooldown v
                     then max (QuotaResetAt acc) (verdict_time now v + v_Cooldown v) else QuotaResetAt acc)\<rparr>);
          a4 = a3\<lparr>VerifiedAt := verdict_time now v\<rparr>
      in if verdict_time now v < restriction_after now v acc
         then a4\<lparr>StatusCode := ''403'', StatusMessage := WorkBuddyRestrictionMessage,
                 LastAttempt := restriction_after now v acc - WorkBuddyRestrictionCooldown\<rparr>
         else a4)"
proof -
  obtain t r where t: "verdict_time now v = t" and r: "restriction_after now v acc = r" by simp
  have t': "(if is_zero (v_At v) then now else v_At v) = t"
    using t by (simp add: verdict_time_def is_zero_def)
  have r': "(if equal_fold (AccountType acc) ''workbuddy'' \<and> IsWorkBuddyRestricted (v_Message v) \<and>
      \<not> t < WorkBuddyRestrictionUntil (Some acc) then t + WorkBuddyRestrictionCooldown
      else WorkBuddyRestrictionUntil (Some acc)) = r"
    using r unfolding restriction_after_def t by (simp only: not_less)
  show ?thesis
    unfolding Apply_def t' t r unfolding Let_def r' by (auto simp: max_def)
qed

lemma Apply_common [simp]:
  "AccountType (Apply now v a) = AccountType a"
  "VerifiedAt (Apply now v a) = verdict_time now v"
  "WorkBuddyRestrictedUntil (Apply now v a) = restriction_after now v a"
  "AuthStatus (Apply now v a) =
     (if v_NeedsLogin v then AccountAuthStatusReauthRequired
      else if trim_space (v_Status v) = [] then AccountAuthStatusActive else AuthStatus a)"
  by (simp_all add: Apply_unfold Let_def)

lemma Apply_restricted:
  assumes "verdict_time now v < restriction_after now v a"
  shows "StatusCode (Apply now v a) = ''403''"
    "StatusMessage (Apply now v a) = WorkBuddyRestrictionMessage"
    "LastAttempt (Apply now v a) = restriction_after now v a - WorkBuddyRestrictionCooldown"
  using assms by (simp_all add: Apply_unfold Let_def)

lemma Apply_unrestricted:
  assumes "restriction_after now v a \<le> verdict_time now v"
  shows "StatusCode (Apply now v a) = trim_space (v_Status v)"
    "StatusMessage (Apply now v a) = (if trim_space (v_Status v) = [] then [] else trim_space (v_Message v))"
    "LastAttempt (Apply now v a) = (if trim_space (v_Status v) = [] then 0 else verdict_time now v)"
    "RateLimitFailures (Apply now v a) =
       (if trim_space (v_Status v) = [] then 0
        else if trim_space (v_Status v) = ''429'' then wrap64 (RateLimitFailures a + 1) else RateLimitFailures a)"
    "QuotaResetAt (Apply now v a) =
       (if trim_space (v_Status v) = ''429'' \<and> 0 < v_Cooldown v
        then max (QuotaResetAt a) (verdict_time now v + v_Cooldown v) else QuotaResetAt a)"
  using assms by (simp_all add: Apply_unfold Let_def)

text \<open>Every verdict stamps the account with its time, and an account it leaves without a status keeps no
  reason, no attempt time and no failure count.\<close>

lemma Apply_reason_follows_status:
  "VerifiedAt (Apply now v a) = (if v_At v = 0 then now else v_At v) \<and>
   (StatusCode (Apply now v a) = [] \<longrightarrow>
      StatusMessage (Apply now v a) = [] \<and> LastAttempt (Apply now v a) = 0 \<and>
      RateLimitFailures (Apply now v a) = 0)"
proof (cases "verdict_time now v < restriction_after now v a")
  case True
  then show ?thesis by (simp add: Apply_restricted verdict_time_def)
next
  case False
  then show ?thesis by (simp add: Apply_unrestricted verdict_time_def)
qed

section \<open>Withholding an account\<close>

lemma reauth_inactive: "AuthStatus a = AccountAuthStatusReauthRequired \<Longrightarrow> \<not> AccountAuthActive (Some a)"
proof -
  have "\<not> (trim_space AccountAuthStatusReauthRequired = [] \<or>
           equal_fold (trim_space AccountAuthStatusReauthRequired) AccountAuthStatusActive)"
    by code_simp
  then show "AuthStatus a = AccountAuthStatusReauthRequired \<Longrightarrow> ?thesis"
    by (simp add: AccountAuthActive_def Let_def)
qed

lemma active_active: "AuthStatus a = AccountAuthStatusActive \<Longrightarrow> AccountAuthActive (Some a)"
proof -
  have "equal_fold (trim_space AccountAuthStatusActive) AccountAuthStatusActive" by code_simp
  then show "AuthStatus a = AccountAuthStatusActive \<Longrightarrow> ?thesis"
    by (simp add: AccountAuthActive_def Let_def)
qed

lemma restriction_until_apply:
  assumes "restriction_after now v a = 0" "trim_space (v_Status v) \<noteq> ''403'' \<or> \<not> IsWorkBuddyRestricted (trim_space (v_Message v))"
    "0 \<le> verdict_time now v"
  shows "WorkBuddyRestrictionUntil (Some (Apply now v a)) = 0"
  using assms Apply_unrestricted [of now v a]
  by (auto simp: WorkBuddyRestrictionUntil_def is_zero_def)



lemma held_until_429:
  assumes "trim_space (StatusCode a) = ''429''" "\<not> IsClineInferenceCap (to_lower (StatusMessage a))"
  shows "LastAttempt a + 30 * second \<le> held_until a ''429''"
    "held_until a ''429'' \<le> LastAttempt a + 30 * minute"
  using assms RateLimitCooldown_bounds [of "RateLimitFailures a"]
  by (auto simp: held_until_def Let_def CooldownFor_def go_time)

lemma held_until_reset:
  assumes "trim_space (StatusCode a) = ''429''" "\<not> IsClineInferenceCap (to_lower (StatusMessage a))"
    "QuotaResetAt a \<le> LastAttempt a + 30 * minute"
  shows "QuotaResetAt a \<le> held_until a ''429''"
  using assms by (auto simp: held_until_def Let_def CooldownFor_def go_time)

text \<open>A throttled account whose cap carries no longer window is withheld from 30 seconds up to 30 minutes
  after the refusal, whatever it recorded before and whatever reset the provider announced, and is
  released for good at one instant in that window.\<close>

lemma throttle_window:
  assumes "trim_space (v_Status v) = ''429''" "\<not> v_NeedsLogin v" "0 < v_At v"
    and "WorkBuddyRestrictionUntil (Some a) = 0" "\<not> IsWorkBuddyRestricted (v_Message v)"
    and "AccountAuthActive (Some a)" "\<not> IsClineInferenceCap (to_lower (trim_space (v_Message v)))"
  shows "\<exists>release. v_At v + 30 * second \<le> release \<and> release \<le> v_At v + 30 * minute \<and>
    (\<forall>t. AccountHeld (Some (Apply now v a)) t \<longleftrightarrow> t < release)"
proof -
  let ?b = "Apply now v a"
  have t: "verdict_time now v = v_At v" using assms(3) by (simp add: verdict_time_def)
  have r: "restriction_after now v a = 0" using assms(4,5) by (simp add: restriction_after_def)
  have b: "StatusCode ?b = ''429''" "StatusMessage ?b = trim_space (v_Message v)" "LastAttempt ?b = v_At v"
    using Apply_unrestricted [of now v a] r t assms(1,3) by simp_all
  have trim: "trim_space ''429'' = ''429''" by code_simp
  have until: "WorkBuddyRestrictionUntil (Some ?b) = 0"
    using r b by (simp add: WorkBuddyRestrictionUntil_def is_zero_def)
  have active: "AccountAuthActive (Some ?b)"
    using assms(1,2,6) by (simp add: AccountAuthActive_def)
  have "AccountHeld (Some ?b) u \<longleftrightarrow> u < held_until ?b ''429''" for u
    using until active b assms(3)
    by (simp add: AccountHeld_def Let_def is_zero_def trim AccountStatusWorkBuddyQuotaExhausted_def)
  moreover have "\<not> IsClineInferenceCap (to_lower (StatusMessage ?b))" using b assms(7) by simp
  ultimately show ?thesis
    using held_until_429 [of ?b] b trim by (intro exI [of _ "held_until ?b ''429''"]) simp
qed

lemma IsWorkBuddyRestricted_message: "IsWorkBuddyRestricted WorkBuddyRestrictionMessage"
  by code_simp



text \<open>After a refused credential the account is due for another check from 30 minutes later on, not
  earlier.\<close>

lemma reverify_after_refusal:
  assumes "v_Status (Classify now acc err model) = ''401''" "0 < now" "WorkBuddyRestrictionUntil (Some a) = 0"
    "\<not> equal_fold (AccountType a) ''workbuddy''"
  shows "NeedsReverify (Some (Apply now (Classify now acc err model) a)) t \<longleftrightarrow> now + 30 * minute \<le> t"
proof -
  have at: "v_At (Classify now acc err model) = now"
    by (auto simp: Classify_def Let_def Success_def zero_verdict_def creditExhaustionVerdict_def split: option.splits)
  then have vt: "verdict_time now (Classify now acc err model) = now" by (simp add: verdict_time_def)
  have r: "restriction_after now (Classify now acc err model) a = 0"
    using assms(3,4) by (simp add: restriction_after_def)
  have "trim_space ''401'' = ''401''" by code_simp
  with r vt assms have "StatusCode (Apply now (Classify now acc err model) a) = ''401''"
    using Apply_unrestricted(1) [of now "Classify now acc err model" a] by simp
  then show ?thesis
    using vt assms(2) \<open>trim_space ''401'' = ''401''\<close> time_sub_ge_iff [of CredentialReverify t now]
    by (simp add: NeedsReverify_def is_zero_def go_time max_int64_def)
qed

section \<open>Two classifiers side by side\<close>

lemma apostrophe_free:
  "set ''content policy rejected'' \<inter> set (bytes [226, 128, 153]) = {}"
  "set ''datainspectionfailed'' \<inter> set (bytes [226, 128, 153]) = {}"
  "set ''input text data may contain'' \<inter> set (bytes [226, 128, 153]) = {}"
  by code_simp+

text \<open>C39.
  Every text the account policy treats as the client's own refusal is one the retry classifier
  neither retries nor moves to another account, as the source demands of the two.\<close>

theorem client_refusal_in_step:
  assumes "isClientRefusal (to_lower s)"
  shows "\<not> UpstreamErrorClass.Retryable (ClassifyUpstreamError s) \<and> \<not> SwitchAccount (ClassifyUpstreamError s)"
proof -
  have "IsContentPolicyRefusal s \<or> contains (to_lower s) ''rejected the request parameters''"
    using assms contains_replace_all [OF apostrophe_free(1)] contains_replace_all [OF apostrophe_free(2)]
      contains_replace_all [OF apostrophe_free(3)]
    unfolding isClientRefusal_def IsContentPolicyRefusal_def Let_def list_ex_iff by auto
  then show ?thesis using refusal_class [of s] by auto
qed

theorem client_refusal_in_step_witness:
  "isClientRefusal (to_lower ''DataInspectionFailed'') \<and>
   \<not> SwitchAccount (ClassifyUpstreamError ''DataInspectionFailed'')"
proof -
  have "isClientRefusal (to_lower ''DataInspectionFailed'')" by code_simp
  then show ?thesis using client_refusal_in_step [of "''DataInspectionFailed''"] by blast
qed

text \<open>The converse fails: a policy violation that the retry classifier keeps on the account is, for
  the account policy, a reason to switch.\<close>

lemma content_policy_violation_diverges:
  "\<not> SwitchAccount (ClassifyUpstreamError ''content_policy_violation'') \<and>
   v_SwitchAccount (Classify now None
     (Some \<lparr>err_Error = ''content_policy_violation'', err_RetryAfter = None\<rparr>) model)"
proof -
  have "v_SwitchAccount (Classify now None
     (Some \<lparr>err_Error = ''content_policy_violation'', err_RetryAfter = None\<rparr>) model)
     \<longleftrightarrow> True"
    by code_simp
  moreover have "\<not> SwitchAccount (ClassifyUpstreamError ''content_policy_violation'')" by code_simp
  ultimately show ?thesis by blast
qed

end
