(* ===== verification/Conn_Tracker.thy ===== *)
theory Conn_Tracker
  imports Go_Prelude "HOL-Library.AList"
begin

text \<open>
  \<^verbatim>\<open>internal/loadbalancer/conn_tracker.go\<close> and \<^verbatim>\<open>conn_counts.go\<close>: how many requests each account serves
  at a time.

  \<^item> \<open>MemoryConnTracker\<close>: the counters of \<open>sync.Map\<close> as a map, an absent key being an absent
    entry. Every method is a function of the counters; beside them the relation \<open>mem_step\<close> runs
    any number of clients through the atomic loads and compare-and-swaps of the methods.
  \<^item> \<open>RedisConnTracker\<close>: the scripts as functions of one Redis key, a process with its \<open>held\<close>
    leases, its \<open>closed\<close> flag and its count cache, and a deployment of several processes over the
    same keys. Clock readings, lease identifiers and what becomes of each round trip are arguments.
  The locale \<open>conn_tracker\<close> is what a caller of \<open>TryAcquire\<close> and \<open>Release\<close> relies on; both trackers
  interpret it.
\<close>

section \<open>The memory tracker\<close>

type_synonym mem_conns = "int \<rightharpoonup> int"

definition load_or_store :: "int \<Rightarrow> mem_conns \<Rightarrow> mem_conns" where
  "load_or_store accountID conns =
     (case conns accountID of None \<Rightarrow> conns(accountID \<mapsto> 0) | Some _ \<Rightarrow> conns)"

definition mem_Acquire :: "int \<Rightarrow> mem_conns \<Rightarrow> mem_conns" where
  "mem_Acquire accountID conns0 =
     (let conns = load_or_store accountID conns0
      in conns(accountID \<mapsto> wrap64 (the (conns accountID) + 1)))"

definition mem_TryAcquire :: "int \<Rightarrow> int \<Rightarrow> mem_conns \<Rightarrow> bool \<times> mem_conns" where
  "mem_TryAcquire accountID limit conns0 =
     (let conns = load_or_store accountID conns0;
          current = the (conns accountID)
      in if limit > 0 \<and> current \<ge> limit then (False, conns)
         else (True, conns(accountID \<mapsto> wrap64 (current + 1))))"

definition mem_Release :: "int \<Rightarrow> mem_conns \<Rightarrow> mem_conns" where
  "mem_Release accountID conns =
     (case conns accountID of
        None \<Rightarrow> conns
      | Some current \<Rightarrow> if current \<le> 0 then conns else conns(accountID \<mapsto> current - 1))"

definition mem_GetCount :: "int \<Rightarrow> mem_conns \<Rightarrow> int" where
  "mem_GetCount accountID conns = (case conns accountID of Some n \<Rightarrow> n | None \<Rightarrow> 0)"

definition mem_GetCounts :: "int list \<Rightarrow> mem_conns \<Rightarrow> (int \<rightharpoonup> int)" where
  "mem_GetCounts accountIDs conns =
     fold (\<lambda>i counts. counts(i \<mapsto> mem_GetCount i conns)) accountIDs Map.empty"

definition mem_GetCountsChecked :: "string option \<Rightarrow> int list \<Rightarrow> mem_conns \<Rightarrow> string + (int \<rightharpoonup> int)" where
  "mem_GetCountsChecked ctxErr ids conns =
     (case ctxErr of Some err \<Rightarrow> Inl err | None \<Rightarrow> Inr (mem_GetCounts ids conns))"

section \<open>The memory tracker under interleaving\<close>

text \<open>Where a client of one account stands: before the addition of \<open>Acquire\<close>, before the load of \<open>TryAcquire\<close>, between its load and its
  compare-and-swap, holding a slot, and the same for \<open>Release\<close>.\<close>

datatype client =
    Idle
  | Acq_add int
  | Try_load int int
  | Try_cas int int int
  | Holding int
  | Rel_load int
  | Rel_cas int int

record mem_config =
  counters :: mem_conns
  clients :: "client list"

abbreviation moved :: "mem_config \<Rightarrow> nat \<Rightarrow> client \<Rightarrow> mem_config" where
  "moved c i pc \<equiv> c\<lparr>clients := (clients c)[i := pc]\<rparr>"

inductive mem_step :: "mem_config \<Rightarrow> mem_config \<Rightarrow> bool" where
  acq_start: "i < length (clients c) \<Longrightarrow> clients c ! i = Idle \<Longrightarrow>
    mem_step c ((moved c i (Acq_add a))\<lparr>counters := load_or_store a (counters c)\<rparr>)"
| acq_added: "i < length (clients c) \<Longrightarrow> clients c ! i = Acq_add a \<Longrightarrow> counters c a = Some current \<Longrightarrow>
    mem_step c ((moved c i (Holding a))\<lparr>counters := (counters c)(a \<mapsto> wrap64 (current + 1))\<rparr>)"
| try_start: "i < length (clients c) \<Longrightarrow> clients c ! i = Idle \<Longrightarrow>
    mem_step c ((moved c i (Try_load a limit))\<lparr>counters := load_or_store a (counters c)\<rparr>)"
| try_refused: "i < length (clients c) \<Longrightarrow> clients c ! i = Try_load a limit \<Longrightarrow>
    counters c a = Some current \<Longrightarrow> limit > 0 \<and> current \<ge> limit \<Longrightarrow> mem_step c (moved c i Idle)"
| try_loaded: "i < length (clients c) \<Longrightarrow> clients c ! i = Try_load a limit \<Longrightarrow>
    counters c a = Some current \<Longrightarrow> \<not> (limit > 0 \<and> current \<ge> limit) \<Longrightarrow>
    mem_step c (moved c i (Try_cas a limit current))"
| try_swapped: "i < length (clients c) \<Longrightarrow> clients c ! i = Try_cas a limit current \<Longrightarrow>
    counters c a = Some current \<Longrightarrow>
    mem_step c ((moved c i (Holding a))\<lparr>counters := (counters c)(a \<mapsto> wrap64 (current + 1))\<rparr>)"
| try_again: "i < length (clients c) \<Longrightarrow> clients c ! i = Try_cas a limit current \<Longrightarrow>
    counters c a \<noteq> Some current \<Longrightarrow> mem_step c (moved c i (Try_load a limit))"
| rel_start: "i < length (clients c) \<Longrightarrow> clients c ! i = Holding a \<Longrightarrow> mem_step c (moved c i (Rel_load a))"
| rel_empty: "i < length (clients c) \<Longrightarrow> clients c ! i = Rel_load a \<Longrightarrow>
    counters c a = Some current \<Longrightarrow> current \<le> 0 \<Longrightarrow> mem_step c (moved c i Idle)"
| rel_absent: "i < length (clients c) \<Longrightarrow> clients c ! i = Rel_load a \<Longrightarrow> counters c a = None \<Longrightarrow>
    mem_step c (moved c i Idle)"
| rel_loaded: "i < length (clients c) \<Longrightarrow> clients c ! i = Rel_load a \<Longrightarrow>
    counters c a = Some current \<Longrightarrow> current > 0 \<Longrightarrow> mem_step c (moved c i (Rel_cas a current))"
| rel_swapped: "i < length (clients c) \<Longrightarrow> clients c ! i = Rel_cas a current \<Longrightarrow>
    counters c a = Some current \<Longrightarrow>
    mem_step c ((moved c i Idle)\<lparr>counters := (counters c)(a \<mapsto> current - 1)\<rparr>)"
| rel_again: "i < length (clients c) \<Longrightarrow> clients c ! i = Rel_cas a current \<Longrightarrow>
    counters c a \<noteq> Some current \<Longrightarrow> mem_step c (moved c i (Rel_load a))"

inductive_cases mem_stepE: "mem_step c c'"

definition mem_init :: "nat \<Rightarrow> mem_config" where
  "mem_init n = \<lparr>counters = Map.empty, clients = replicate n Idle\<rparr>"

abbreviation mem_reachable :: "nat \<Rightarrow> mem_config \<Rightarrow> bool" where
  "mem_reachable n \<equiv> mem_step\<^sup>*\<^sup>* (mem_init n)"

text \<open>The clients that occupy a slot of an account: from a successful swap to the swap of the release.\<close>

fun occupies :: "int \<Rightarrow> client \<Rightarrow> bool" where
  "occupies a (Holding b) = (a = b)"
| "occupies a (Rel_load b) = (a = b)"
| "occupies a (Rel_cas b current) = (a = b)"
| "occupies a _ = False"

definition occupancy :: "mem_config \<Rightarrow> int \<Rightarrow> nat" where
  "occupancy c a = length (filter (occupies a) (clients c))"

text \<open>The clients a limit per account allows: \<open>TryAcquire\<close> with that limit, \<open>Acquire\<close> only where there
  is none.\<close>

fun within_limit :: "(int \<Rightarrow> int) \<Rightarrow> client \<Rightarrow> bool" where
  "within_limit lmt (Acq_add a) = (lmt a \<le> 0)"
| "within_limit lmt (Try_load a limit) = (limit = lmt a)"
| "within_limit lmt (Try_cas a limit current) = (limit = lmt a)"
| "within_limit lmt _ = True"

definition mem_step_limited :: "(int \<Rightarrow> int) \<Rightarrow> mem_config \<Rightarrow> mem_config \<Rightarrow> bool" where
  "mem_step_limited lmt c c' \<longleftrightarrow> mem_step c c' \<and> list_all (within_limit lmt) (clients c')"

section \<open>The Redis tracker: the scripts\<close>

text \<open>What a key of the deployment holds: nothing, a sorted set of leases with their deadlines in Unix
  milliseconds, or a value of another kind left by an older release; and the time at which Redis
  drops the key, on the server's clock. A sorted set without members is no key.\<close>

datatype redis_value = RNone | ROther | RZSet "(string \<times> int) list"

record redis_key =
  rk_value :: redis_value
  rk_expire :: "int option"

definition no_key :: redis_key where
  "no_key = \<lparr>rk_value = RNone, rk_expire = None\<rparr>"

definition redis_at :: "int \<Rightarrow> redis_key \<Rightarrow> redis_key" where
  "redis_at clock k =
     (case rk_expire k of Some e \<Rightarrow> if e \<le> clock then no_key else k | None \<Rightarrow> k)"

definition members :: "redis_key \<Rightarrow> (string \<times> int) list" where
  "members k = (case rk_value k of RZSet ms \<Rightarrow> ms | _ \<Rightarrow> [])"

definition is_zset :: "redis_key \<Rightarrow> bool" where
  "is_zset k = (case rk_value k of ROther \<Rightarrow> False | _ \<Rightarrow> True)"

definition with_members :: "redis_key \<Rightarrow> (string \<times> int) list \<Rightarrow> redis_key" where
  "with_members k ms = (if ms = [] then no_key else k\<lparr>rk_value := RZSet ms\<rparr>)"

definition zremrangebyscore :: "redis_key \<Rightarrow> int \<Rightarrow> redis_key" where
  "zremrangebyscore k top_score = with_members k (filter (\<lambda>(_, score). \<not> score \<le> top_score) (members k))"

definition zcard :: "redis_key \<Rightarrow> int" where
  "zcard k = int (length (members k))"

definition zadd :: "redis_key \<Rightarrow> int \<Rightarrow> string \<Rightarrow> redis_key" where
  "zadd k score member = with_members k (AList.update member score (members k))"

definition zrem :: "redis_key \<Rightarrow> string \<Rightarrow> redis_key" where
  "zrem k member = with_members k (AList.delete member (members k))"

definition pexpire :: "int \<Rightarrow> redis_key \<Rightarrow> int \<Rightarrow> redis_key" where
  "pexpire clock k ttl = (if rk_value k = RNone then k else k\<lparr>rk_expire := Some (clock + ttl)\<rparr>)"

text \<open>A script sees the key as it stands at the server's \<open>clock\<close>; \<open>None\<close> is an error reply.\<close>

definition releaseScript :: "int \<Rightarrow> redis_key \<Rightarrow> string \<Rightarrow> int option \<times> redis_key" where
  "releaseScript clock k0 lease =
     (let k = redis_at clock k0 in
      if \<not> is_zset k then (None, k)
      else (Some (if lease \<in> fst ` set (members k) then 1 else 0), zrem k lease))"

definition acquireScript ::
  "int \<Rightarrow> redis_key \<Rightarrow> int \<Rightarrow> int \<Rightarrow> int \<Rightarrow> string \<Rightarrow> int \<Rightarrow> int \<times> redis_key" where
  "acquireScript clock k0 limit now deadline lease ttl =
     (let k1 = redis_at clock k0;
          k2 = (if is_zset k1 then k1 else no_key);
          k3 = zremrangebyscore k2 now;
          current = zcard k3
      in if limit > 0 \<and> current \<ge> limit then (0, k3)
         else (1, pexpire clock (zadd k3 deadline lease) ttl))"

definition refreshScript :: "int \<Rightarrow> redis_key \<Rightarrow> string \<Rightarrow> int \<Rightarrow> int \<Rightarrow> int option \<times> redis_key" where
  "refreshScript clock k0 lease deadline ttl =
     (let k = redis_at clock k0 in
      if \<not> is_zset k then (None, k)
      else if lease \<notin> fst ` set (members k) then (Some 0, k)
      else (Some 1, pexpire clock (zadd k deadline lease) ttl))"

definition countScript :: "int \<Rightarrow> redis_key \<Rightarrow> int \<Rightarrow> int \<times> redis_key" where
  "countScript clock k0 now =
     (let k1 = redis_at clock k0 in
      if \<not> is_zset k1 then (0, no_key)
      else let k2 = zremrangebyscore k1 now in (zcard k2, k2))"

fun renew_members :: "int \<Rightarrow> string list \<Rightarrow> redis_key \<Rightarrow> int \<Rightarrow> int \<times> redis_key" where
  "renew_members deadline [] k renewed = (renewed, k)"
| "renew_members deadline (lease # leases) k renewed =
     (if lease \<in> fst ` set (members k)
      then renew_members deadline leases (zadd k deadline lease) (renewed + 1)
      else renew_members deadline leases k renewed)"

definition renewConnBatchScript :: "int \<Rightarrow> redis_key \<Rightarrow> int \<Rightarrow> int \<Rightarrow> string list \<Rightarrow> int option \<times> redis_key" where
  "renewConnBatchScript clock k0 deadline ttl leases =
     (let k = redis_at clock k0 in
      if leases \<noteq> [] \<and> \<not> is_zset k then (None, k)
      else let (renewed, k') = renew_members deadline leases k 0
           in (Some renewed, if renewed > 0 then pexpire clock k' ttl else k'))"

section \<open>The Redis tracker: processes over shared keys\<close>

definition redisConnLeaseTTL :: duration where "redisConnLeaseTTL = 2 * minute"

definition lease_key_ttl :: int where
  "lease_key_ttl = redisConnLeaseTTL * 2 div millisecond"

record cachedConnCount =
  cc_count :: int
  cc_expires :: time

record RedisConnTracker =
  held :: "int \<Rightarrow> string list"
  closed :: bool
  countCache :: "(int \<times> cachedConnCount) list"

record deployment =
  keys :: "int \<Rightarrow> redis_key"
  procs :: "nat \<Rightarrow> RedisConnTracker"

text \<open>A round trip: answered, or failed with the integer the client library hands back beside the
  error, the script having run at the server or not.\<close>

datatype round_trip = Answered | Failed int bool

record attempt =
  at_now :: time
  at_clock :: int
  at_lease :: string
  at_trip :: round_trip

definition set_key :: "int \<Rightarrow> redis_key \<Rightarrow> deployment \<Rightarrow> deployment" where
  "set_key i k d = d\<lparr>keys := (keys d)(i := k)\<rparr>"

definition set_proc :: "nat \<Rightarrow> RedisConnTracker \<Rightarrow> deployment \<Rightarrow> deployment" where
  "set_proc p t d = d\<lparr>procs := (procs d)(p := t)\<rparr>"

definition adjustCachedCount :: "int \<Rightarrow> int \<Rightarrow> RedisConnTracker \<Rightarrow> RedisConnTracker" where
  "adjustCachedCount i delta t =
     (case map_of (countCache t) i of
        None \<Rightarrow> t
      | Some cached \<Rightarrow>
          t\<lparr>countCache := AList.update i (cached\<lparr>cc_count := max 0 (wrap64 (cc_count cached + delta))\<rparr>) (countCache t)\<rparr>)"

text \<open>The retry loop of \<open>acquire\<close>: the lease, the integer and the error of the last round trip, the key
  and how many round trips were made.\<close>

fun acquire_attempts ::
  "int \<Rightarrow> attempt list \<Rightarrow> redis_key \<Rightarrow> string \<times> int \<times> bool \<times> redis_key \<times> nat" where
  "acquire_attempts limit [] k = ([], 0, False, k, 0)"
| "acquire_attempts limit (a # rest) k =
     (let (r, k') = acquireScript (at_clock a) k limit (unix_milli (at_now a))
                      (unix_milli (at_now a + redisConnLeaseTTL)) (at_lease a) lease_key_ttl
      in case at_trip a of
           Answered \<Rightarrow> (at_lease a, r, False, k', 1)
         | Failed v done \<Rightarrow>
             (let k'' = (if done then k' else k) in
              if v = 0 \<or> rest = [] then (at_lease a, v, True, k'', 1)
              else let (l, r', err, k3, n) = acquire_attempts limit rest k'' in (l, r', err, k3, n + 1)))"

record conn_env =
  ce_proc :: nat
  ce_attempts :: "attempt list"
  ce_clock :: int
  ce_trip :: round_trip

definition release_lease :: "conn_env \<Rightarrow> int \<Rightarrow> string \<Rightarrow> deployment \<Rightarrow> bool \<times> deployment" where
  "release_lease e accountID lease d =
     (let (r, k) = releaseScript (ce_clock e) (keys d accountID) lease
      in case ce_trip e of
           Answered \<Rightarrow> (r \<noteq> None, set_key accountID k d)
         | Failed v done \<Rightarrow> (False, if done then set_key accountID k d else d))"

definition redis_acquire :: "conn_env \<Rightarrow> int \<Rightarrow> int \<Rightarrow> deployment \<Rightarrow> bool \<times> deployment" where
  "redis_acquire e accountID limit d =
     (if accountID = 0 then (False, d)
      else
        let (lease, result, err, k, n) = acquire_attempts limit (take 2 (ce_attempts e)) (keys d accountID);
            d1 = set_key accountID k d;
            t = procs d (ce_proc e)
        in if err \<or> result \<noteq> 1 then (False, d1)
           else if closed t then (False, snd (release_lease e accountID lease d1))
           else (True, set_proc (ce_proc e)
                   (adjustCachedCount accountID 1 (t\<lparr>held := (held t)(accountID := held t accountID @ [lease])\<rparr>)) d1))"

definition redis_Acquire :: "conn_env \<Rightarrow> int \<Rightarrow> deployment \<Rightarrow> deployment" where
  "redis_Acquire e accountID d = snd (redis_acquire e accountID 0 d)"

definition redis_TryAcquire :: "conn_env \<Rightarrow> int \<Rightarrow> int \<Rightarrow> deployment \<Rightarrow> bool \<times> deployment" where
  "redis_TryAcquire e accountID limit d = redis_acquire e accountID limit d"

definition redis_Release :: "conn_env \<Rightarrow> int \<Rightarrow> deployment \<Rightarrow> deployment" where
  "redis_Release e accountID d =
     (let t = procs d (ce_proc e); list = held t accountID in
      if accountID = 0 \<or> list = [] then d
      else
        let t1 = t\<lparr>held := (held t)(accountID := butlast list)\<rparr>;
            (ok, d1) = release_lease e accountID (last list) (set_proc (ce_proc e) t1 d)
        in if ok then set_proc (ce_proc e) (adjustCachedCount accountID (-1) t1) d1 else d1)"

text \<open>\<open>Close\<close>; the accounts in the order in which the map of held leases is walked.\<close>

definition close_leases :: "int \<Rightarrow> int \<Rightarrow> string list \<Rightarrow> deployment \<Rightarrow> deployment" where
  "close_leases clock accountID leases d =
     set_key accountID (fold (\<lambda>lease k. snd (releaseScript clock k lease)) leases (keys d accountID)) d"

definition redis_Close :: "conn_env \<Rightarrow> int list \<Rightarrow> deployment \<Rightarrow> deployment" where
  "redis_Close e accounts d =
     (let t = procs d (ce_proc e) in
      if closed t then d
      else
        let d1 = set_proc (ce_proc e) (t\<lparr>closed := True, held := (\<lambda>_. [])\<rparr>) d
        in case ce_trip e of
             Failed v False \<Rightarrow> d1
           | _ \<Rightarrow> fold (\<lambda>i. close_leases (ce_clock e) i (held t i)) accounts d1)"

section \<open>The Redis tracker: counts and renewal\<close>

definition redis_GetCount :: "conn_env \<Rightarrow> time \<Rightarrow> int \<Rightarrow> deployment \<Rightarrow> int \<times> deployment" where
  "redis_GetCount e now accountID d =
     (let (n, k) = countScript (ce_clock e) (keys d accountID) (unix_milli now)
      in case ce_trip e of
           Answered \<Rightarrow> (n, set_key accountID k d)
         | Failed v done \<Rightarrow> (0, if done then set_key accountID k d else d))"

definition drop_expired :: "int \<Rightarrow> int \<Rightarrow> redis_key \<Rightarrow> redis_key" where
  "drop_expired clock now k0 =
     (let k = redis_at clock k0 in if is_zset k then zremrangebyscore k now else k)"

definition pipeline_expired :: "int \<Rightarrow> int \<Rightarrow> int list \<Rightarrow> deployment \<Rightarrow> deployment" where
  "pipeline_expired clock now ids d = fold (\<lambda>i d. set_key i (drop_expired clock now (keys d i)) d) ids d"

definition fetchCounts :: "conn_env \<Rightarrow> time \<Rightarrow> int list \<Rightarrow> deployment \<Rightarrow> (int \<times> int) list \<times> deployment" where
  "fetchCounts e now ids d =
     (if ids = [] then ([], d)
      else
        let d' = pipeline_expired (ce_clock e) (unix_milli now) ids d
        in case ce_trip e of
             Failed v done \<Rightarrow> (map (\<lambda>i. (i, 0)) ids, if done then d' else d)
           | Answered \<Rightarrow>
               (if list_all (\<lambda>i. is_zset (keys d' i)) ids then map (\<lambda>i. (i, zcard (keys d' i))) ids
                else map (\<lambda>i. (i, 0)) ids, d'))"

definition redis_GetCountsChecked ::
  "conn_env \<Rightarrow> time \<Rightarrow> int list \<Rightarrow> deployment \<Rightarrow> (unit + (int \<times> int) list) \<times> deployment" where
  "redis_GetCountsChecked e now ids d =
     (if ids = [] then (Inr [], d)
      else
        let d' = pipeline_expired (ce_clock e) (unix_milli now) ids d
        in case ce_trip e of
             Failed v done \<Rightarrow> (Inl (), if done then d' else d)
           | Answered \<Rightarrow>
               (if list_all (\<lambda>i. is_zset (keys d' i)) ids then Inr (map (\<lambda>i. (i, zcard (keys d' i))) ids)
                else Inl (), d'))"

definition cached_count :: "RedisConnTracker \<Rightarrow> time \<Rightarrow> int \<Rightarrow> int option" where
  "cached_count t now i =
     (case map_of (countCache t) i of
        Some cached \<Rightarrow> if now < cc_expires cached then Some (cc_count cached) else None
      | None \<Rightarrow> None)"

definition hits :: "RedisConnTracker \<Rightarrow> time \<Rightarrow> int list \<Rightarrow> (int \<times> int) list" where
  "hits t now ids = List.map_filter (\<lambda>i. map_option (\<lambda>n. (i, n)) (cached_count t now i)) ids"

definition misses :: "RedisConnTracker \<Rightarrow> time \<Rightarrow> int list \<Rightarrow> int list" where
  "misses t now ids = filter (\<lambda>i. cached_count t now i = None) ids"

definition store_counts :: "time \<Rightarrow> (int \<times> int) list \<Rightarrow> RedisConnTracker \<Rightarrow> RedisConnTracker" where
  "store_counts now fetched t =
     (let cache = (if length (countCache t) > 65536 then [] else countCache t)
      in t\<lparr>countCache := fold (\<lambda>(i, n). AList.update i \<lparr>cc_count = n, cc_expires = now + 50 * millisecond\<rparr>) fetched cache\<rparr>)"

text \<open>\<open>GetCounts\<close> of a caller that leads its flight; the three readings of the clock are those of the
  first look at the cache, of the second one and of the new entries. The result is a list of bindings,
  the first one of a key being its value.\<close>

definition redis_GetCounts ::
  "conn_env \<Rightarrow> time \<Rightarrow> time \<Rightarrow> time \<Rightarrow> int list \<Rightarrow> deployment \<Rightarrow> (int \<times> int) list \<times> deployment" where
  "redis_GetCounts e now1 now2 now3 ids d =
     (let t = procs d (ce_proc e);
          result = hits t now1 ids;
          missing = remdups (sort (misses t now1 ids))
      in if missing = [] then (result, d)
         else
           let (fetched, d1) = fetchCounts e now2 (misses t now2 missing) d
           in (fetched @ hits t now2 missing @ result,
               set_proc (ce_proc e) (store_counts now3 fetched t) d1))"

function chunks :: "nat \<Rightarrow> 'a list \<Rightarrow> 'a list list" where
  "chunks n xs = (if xs = [] \<or> n = 0 then [] else take n xs # chunks n (drop n xs))"
  by pat_completeness auto
termination
  by (relation "measure (\<lambda>(n, xs). length xs)") auto

declare chunks.simps [simp del]

definition renew_batches :: "int list \<Rightarrow> RedisConnTracker \<Rightarrow> (int \<times> string list) list" where
  "renew_batches accounts t = concat (map (\<lambda>i. map (\<lambda>ids. (i, ids)) (chunks 256 (held t i))) accounts)"

definition renew_one :: "(int \<times> string list) \<times> attempt \<Rightarrow> deployment \<Rightarrow> deployment" where
  "renew_one b d =
     (case b of ((i, ids), a) \<Rightarrow>
        let k = snd (renewConnBatchScript (at_clock a) (keys d i)
                       (unix_milli (at_now a + redisConnLeaseTTL)) lease_key_ttl ids)
        in case at_trip a of Failed v False \<Rightarrow> d | _ \<Rightarrow> set_key i k d)"

text \<open>\<open>renewBatch\<close>; the batches are taken from a snapshot \<open>t\<close> of the process, and a stop request leaves
  the batches without an \<open>attempt\<close> out.\<close>

definition renewBatch :: "int list \<Rightarrow> attempt list \<Rightarrow> RedisConnTracker \<Rightarrow> deployment \<Rightarrow> deployment" where
  "renewBatch accounts attempts t d = fold renew_one (zip (renew_batches accounts t) attempts) d"

section \<open>Every interleaving counts exactly\<close>

lemma occupancy_moved:
  assumes "i < length (clients c)"
  shows "int (occupancy (moved c i pc) a) =
     int (occupancy c a) + of_bool (occupies a pc) - of_bool (occupies a (clients c ! i))"
  using length_filter_update [OF assms, of "occupies a" pc] unfolding occupancy_def by auto

lemma occupancy_counters [simp]: "occupancy (c\<lparr>counters := m\<rparr>) a = occupancy c a"
  by (simp add: occupancy_def)

lemma occupancy_le: "occupancy c a \<le> length (clients c)"
  by (simp add: occupancy_def)

fun client_ok :: "mem_conns \<Rightarrow> client \<Rightarrow> bool" where
  "client_ok m (Acq_add a) = (m a \<noteq> None)"
| "client_ok m (Try_load a limit) = (m a \<noteq> None)"
| "client_ok m (Try_cas a limit current) = (m a \<noteq> None \<and> \<not> (limit > 0 \<and> current \<ge> limit))"
| "client_ok m _ = True"

definition exact :: "mem_config \<Rightarrow> bool" where
  "exact c \<longleftrightarrow> (\<forall>a. mem_GetCount a (counters c) = int (occupancy c a)) \<and>
     (\<forall>pc \<in> set (clients c). client_ok (counters c) pc)"

lemma client_ok_mono: "client_ok m pc \<Longrightarrow> dom m \<subseteq> dom m' \<Longrightarrow> client_ok m' pc"
  by (cases pc) auto

lemma clients_ok_moved:
  assumes "\<forall>pc \<in> set xs. client_ok m pc" "dom m \<subseteq> dom m'" "client_ok m' pc"
  shows "\<forall>pc \<in> set (xs[i := pc]). client_ok m' pc"
  using assms by (auto dest!: subsetD [OF set_update_subset_insert] intro: client_ok_mono)

lemma GetCount_simps [simp]:
  "mem_GetCount a (load_or_store b m) = mem_GetCount a m"
  "mem_GetCount a (m(b \<mapsto> n)) = (if a = b then n else mem_GetCount a m)"
  "dom m \<subseteq> dom (load_or_store b m)" "load_or_store b m b \<noteq> None"
  by (auto simp: mem_GetCount_def load_or_store_def split: option.splits)

lemma GetCount_Some: "m a = Some n \<Longrightarrow> mem_GetCount a m = n"
  by (simp add: mem_GetCount_def)

lemma exact_client_ok: "exact c \<Longrightarrow> i < length (clients c) \<Longrightarrow> client_ok (counters c) (clients c ! i)"
  by (simp add: exact_def)

lemma exact_moved:
  assumes "exact c" "i < length (clients c)" "dom (counters c) \<subseteq> dom m" "client_ok m pc"
    and "\<And>a. mem_GetCount a m =
      mem_GetCount a (counters c) + of_bool (occupies a pc) - of_bool (occupies a (clients c ! i))"
  shows "exact ((moved c i pc)\<lparr>counters := m\<rparr>)"
  using assms clients_ok_moved [of "clients c" "counters c" m pc i]
  by (simp add: exact_def occupancy_moved)

lemma exact_moved_only:
  assumes "exact c" "i < length (clients c)" "client_ok (counters c) pc"
    and "\<And>a. occupies a pc = occupies a (clients c ! i)"
  shows "exact (moved c i pc)"
  using exact_moved [OF assms(1,2) _ assms(3)] assms(4) by simp

lemma exact_no_wrap:
  assumes "exact c" "int (length (clients c)) \<le> max_int64"
    and "counters c a = Some n" "\<not> occupies a (clients c ! i)" "i < length (clients c)"
  shows "wrap64 (n + 1) = n + 1"
proof -
  have "occupancy c a < length (clients c)"
    unfolding occupancy_def using assms(4,5) by (intro length_filter_less) auto
  moreover have "n = int (occupancy c a)"
    using GetCount_Some [of "counters c" a n] assms(1,3) by (simp add: exact_def)
  ultimately show ?thesis using assms(2) by (intro wrap64_id) (auto simp: min_int64_def)
qed

lemma exact_empty_impossible:
  assumes "exact c" "i < length (clients c)" "clients c ! i = Rel_load a"
  shows "mem_GetCount a (counters c) > 0"
proof -
  have "clients c ! i \<in> set (filter (occupies a) (clients c))" using assms nth_mem by fastforce
  then have "occupancy c a > 0" unfolding occupancy_def by (metis length_pos_if_in_set)
  with assms(1) show ?thesis by (simp add: exact_def)
qed

lemma exact_step:
  assumes "mem_step c c'" "exact c" "int (length (clients c)) \<le> max_int64"
  shows "exact c'"
  using assms(1)
proof cases
  case (acq_added i a current)
  then show ?thesis
    using assms exact_no_wrap [of c a current i] GetCount_Some [of "counters c" a current]
    by (auto intro!: exact_moved)
next
  case (try_swapped i a limit current)
  then show ?thesis
    using assms exact_no_wrap [of c a current i] GetCount_Some [of "counters c" a current]
    by (auto intro!: exact_moved)
next
  case (rel_swapped i a current)
  then show ?thesis
    using assms GetCount_Some [of "counters c" a current] by (auto intro!: exact_moved)
next
  case (rel_empty i a current)
  then show ?thesis
    using exact_empty_impossible [of c i a] assms GetCount_Some [of "counters c" a current] by simp
next
  case (rel_absent i a)
  then show ?thesis using exact_empty_impossible [of c i a] assms by (simp add: mem_GetCount_def)
next
  case (acq_start i a)
  then show ?thesis using assms(2) GetCount_simps(3,4) by (simp add: exact_moved)
next
  case (try_start i a limit)
  then show ?thesis using assms(2) GetCount_simps(3,4) by (simp add: exact_moved)
next
  case (try_again i a limit current)
  then show ?thesis using assms(2) exact_client_ok [of c i] by (simp add: exact_moved_only)
qed (use assms(2) in \<open>simp_all add: exact_moved_only\<close>)

lemma mem_step_length: "mem_step c c' \<Longrightarrow> length (clients c') = length (clients c)"
  by (auto elim: mem_stepE)

lemma reachable_exact:
  assumes "mem_reachable n c" "int n \<le> max_int64"
  shows "exact c \<and> length (clients c) = n"
  using assms(1)
proof (induction rule: rtranclp_induct)
  case base
  show ?case by (auto simp: exact_def mem_init_def mem_GetCount_def occupancy_def)
next
  case (step c c')
  then show ?case using exact_step [of c c'] mem_step_length [of c c'] assms(2) by simp
qed

lemma limited_step:
  assumes "mem_step_limited lmt c c'" "exact c" "int (length (clients c)) \<le> max_int64"
    and "list_all (within_limit lmt) (clients c)" "0 < lmt a" "mem_GetCount a (counters c) \<le> lmt a"
  shows "mem_GetCount a (counters c') \<le> lmt a"
proof -
  have within: "within_limit lmt (clients c ! i)" "client_ok (counters c) (clients c ! i)" if "i < length (clients c)" for i
    using that assms(2,4) by (auto simp: list_all_length exact_def)
  from assms(1) have "mem_step c c'" by (simp add: mem_step_limited_def)
  then show ?thesis
  proof cases
    case (acq_added i b current)
    then show ?thesis using assms within [of i] by auto
  next
    case (try_swapped i b limit current)
    then show ?thesis
      using assms within [of i] exact_no_wrap [of c b current i] by auto
  next
    case (rel_swapped i b current)
    then show ?thesis using assms GetCount_Some [of "counters c" b current] by auto
  qed (use assms in auto)
qed

section \<open>What the callers rely on\<close>

datatype ('e, 'k) conn_op = Try 'e int | Rel 'e int | Keep 'k

text \<open>A history of calls: \<open>TryAcquire\<close> with the limit of its account, \<open>Release\<close>, and the tracker's own
  upkeep.\<close>

fun conn_run ::
  "('e \<Rightarrow> int \<Rightarrow> int \<Rightarrow> 's \<Rightarrow> bool \<times> 's) \<Rightarrow> ('e \<Rightarrow> int \<Rightarrow> 's \<Rightarrow> 's) \<Rightarrow> ('k \<Rightarrow> 's \<Rightarrow> 's) \<Rightarrow> (int \<Rightarrow> int) \<Rightarrow>
   ('e, 'k) conn_op list \<Rightarrow> 's \<Rightarrow> 's" where
  "conn_run try rel upkeep lmt [] s = s"
| "conn_run try rel upkeep lmt (Try e i # ops) s = conn_run try rel upkeep lmt ops (snd (try e i (lmt i) s))"
| "conn_run try rel upkeep lmt (Rel e i # ops) s = conn_run try rel upkeep lmt ops (rel e i s)"
| "conn_run try rel upkeep lmt (Keep k # ops) s = conn_run try rel upkeep lmt ops (upkeep k s)"

locale conn_tracker =
  fixes inv :: "'s \<Rightarrow> bool"
    and load :: "'s \<Rightarrow> int \<Rightarrow> int"
    and try_acquire :: "'e \<Rightarrow> int \<Rightarrow> int \<Rightarrow> 's \<Rightarrow> bool \<times> 's"
    and release :: "'e \<Rightarrow> int \<Rightarrow> 's \<Rightarrow> 's"
    and upkeep :: "'k \<Rightarrow> 's \<Rightarrow> 's"
    and healthy :: "'e \<Rightarrow> int \<Rightarrow> 's \<Rightarrow> bool"
    and holds :: "'e \<Rightarrow> int \<Rightarrow> 's \<Rightarrow> bool"
  assumes inv_try: "inv s \<Longrightarrow> 0 < limit \<Longrightarrow> limit \<le> max_int64 \<Longrightarrow> inv (snd (try_acquire e i limit s))"
    and inv_release: "inv s \<Longrightarrow> inv (release e i s)"
    and inv_upkeep: "inv s \<Longrightarrow> inv (upkeep k s)"
    and load_nonneg: "inv s \<Longrightarrow> 0 \<le> load s i"
    and try_bound: "inv s \<Longrightarrow> 0 < limit \<Longrightarrow> limit \<le> max_int64 \<Longrightarrow>
      load (snd (try_acquire e i limit s)) j \<le> (if i = j then max limit (load s i) else load s j)"
    and release_le: "inv s \<Longrightarrow> load (release e i s) j \<le> load s j"
    and upkeep_le: "inv s \<Longrightarrow> load (upkeep k s) j \<le> load s j"
    and try_granted: "inv s \<Longrightarrow> healthy e i s \<Longrightarrow> load s i < limit \<Longrightarrow> fst (try_acquire e i limit s)"
    and release_frees: "inv s \<Longrightarrow> holds e i s \<Longrightarrow> load (release e i s) i < load s i"
begin

lemma run_within:
  assumes "inv s" "\<And>i. 0 < lmt i" "\<And>i. lmt i \<le> max_int64" "load s j \<le> lmt j"
  shows "load (conn_run try_acquire release upkeep lmt ops s) j \<in> {0 .. lmt j} \<and>
    inv (conn_run try_acquire release upkeep lmt ops s)"
  using assms(1,4)
proof (induction ops arbitrary: s)
  case Nil
  then show ?case using load_nonneg by simp
next
  case (Cons op ops)
  show ?case
  proof (cases op)
    case (Try e i)
    have "load (snd (try_acquire e i (lmt i) s)) j \<le> lmt j"
      using try_bound [of s "lmt i" e i j] Cons.prems assms(2,3) by (auto split: if_splits)
    with Cons Try inv_try [of s "lmt i" e i] assms(2,3) show ?thesis by simp
  next
    case (Rel e i)
    with Cons inv_release [of s e i] release_le [of s e i j] show ?thesis by simp
  next
    case (Keep k)
    with Cons inv_upkeep [of s k] upkeep_le [of s k j] show ?thesis by simp
  qed
qed

lemma freed_slot_granted:
  assumes "inv s" "holds e i s" "load s i \<le> limit" "healthy e' i (release e i s)"
  shows "fst (try_acquire e' i limit (release e i s))"
  using assms release_frees [of s e i] inv_release [of s e i] try_granted [of "release e i s" e' i limit]
  by simp

end

definition mem_inv :: "mem_conns \<Rightarrow> bool" where
  "mem_inv m \<longleftrightarrow> (\<forall>n \<in> ran m. 0 \<le> n)"

lemma mem_TryAcquire_count:
  assumes "mem_GetCount i m < limit" "limit \<le> max_int64" "0 \<le> mem_GetCount i m"
  shows "mem_TryAcquire i limit m = (True, (load_or_store i m)(i \<mapsto> mem_GetCount i m + 1))"
proof -
  have *: "the (load_or_store i m i) = mem_GetCount i m"
    by (auto simp: load_or_store_def mem_GetCount_def split: option.splits)
  have "wrap64 (mem_GetCount i m + 1) = mem_GetCount i m + 1"
    using assms by (intro wrap64_id) (auto simp: min_int64_def)
  with assms(1) show ?thesis by (simp add: mem_TryAcquire_def Let_def *)
qed

lemma mem_TryAcquire_full:
  assumes "limit \<le> mem_GetCount i m" "0 < limit"
  shows "mem_TryAcquire i limit m = (False, load_or_store i m)"
proof -
  have "the (load_or_store i m i) = mem_GetCount i m"
    by (auto simp: load_or_store_def mem_GetCount_def split: option.splits)
  with assms show ?thesis by (simp add: mem_TryAcquire_def Let_def)
qed

lemma mem_inv_count: "mem_inv m \<longleftrightarrow> (\<forall>i. 0 \<le> mem_GetCount i m)"
  by (force simp: mem_inv_def mem_GetCount_def ran_def split: option.splits)

lemma mem_Release_count: "0 \<le> mem_GetCount i m \<Longrightarrow>
  mem_GetCount j (mem_Release i m) = (if i = j then max 0 (mem_GetCount i m - 1) else mem_GetCount j m)"
  by (auto simp: mem_Release_def mem_GetCount_def split: option.splits)

lemma mem_try_count:
  assumes "mem_inv m" "0 < limit" "limit \<le> max_int64"
  shows "mem_GetCount j (snd (mem_TryAcquire i limit m)) =
    mem_GetCount j m + of_bool (i = j \<and> mem_GetCount i m < limit)"
  using assms mem_TryAcquire_count [of i m limit] mem_TryAcquire_full [of limit i m]
  by (cases "mem_GetCount i m < limit") (auto simp: mem_inv_count)

interpretation mem: conn_tracker mem_inv "\<lambda>m i. mem_GetCount i m" "\<lambda>_ :: unit. mem_TryAcquire"
  "\<lambda>_. mem_Release" "\<lambda>_ :: unit. \<lambda>m. m" "\<lambda>_ i m. mem_GetCount i m < max_int64" "\<lambda>_ i m. 0 < mem_GetCount i m"
proof (unfold_locales, goal_cases)
  case (1 s limit e i)
  then show ?case using mem_try_count [of s limit _ i] by (simp add: mem_inv_count)
next
  case (5 s limit e i j)
  then show ?case using mem_try_count [of s limit j i] by auto
next
  case (8 s e i limit)
  then show ?case
    using mem_TryAcquire_count [of i s limit]
    by (cases "limit \<le> max_int64") (auto simp: mem_inv_count mem_TryAcquire_def Let_def load_or_store_def mem_GetCount_def split: option.splits)
qed (auto simp: mem_inv_count mem_Release_count)

section \<open>What the scripts do to the number of leases\<close>

lemma length_alist_update:
  "length (AList.update x v al) = (if x \<in> fst ` set al then length al else Suc (length al))"
  by (induction al) auto

definition proper :: "redis_key \<Rightarrow> bool" where
  "proper k \<longleftrightarrow> distinct (map fst (members k))"

lemma members_simps [simp]:
  "members no_key = []" "members (with_members k ms) = ms" "members (pexpire clock k ttl) = members k"
  "members (k\<lparr>rk_expire := x\<rparr>) = members k"
  by (auto simp: no_key_def members_def with_members_def pexpire_def)

lemma members_at: "members (redis_at clock k) = members k \<or> members (redis_at clock k) = []"
  by (auto simp: redis_at_def split: option.splits)

lemma proper_simps [simp]:
  "proper no_key" "proper k \<Longrightarrow> proper (redis_at clock k)" "proper k \<Longrightarrow> proper (zremrangebyscore k n)"
  "proper k \<Longrightarrow> proper (zadd k n x)" "proper k \<Longrightarrow> proper (zrem k x)" "proper (pexpire clock k ttl) = proper k"
  using members_at [of clock k]
  by (auto simp: proper_def zremrangebyscore_def zadd_def zrem_def distinct_update distinct_delete
      distinct_map_filter)

lemma zcard_simps [simp]:
  "zcard no_key = 0" "zcard (pexpire clock k ttl) = zcard k" "0 \<le> zcard k"
  "zcard (zadd k n x) = zcard k + of_bool (x \<notin> fst ` set (members k))"
  by (auto simp: zcard_def zadd_def length_alist_update)

lemma zcard_le:
  "zcard (redis_at clock k) \<le> zcard k" "zcard (zremrangebyscore k n) \<le> zcard k" "zcard (zrem k x) \<le> zcard k"
  using members_at [of clock k]
  by (auto simp: zcard_def zremrangebyscore_def zrem_def length_delete_le)

lemma zcard_zrem_less: "x \<in> fst ` set (members k) \<Longrightarrow> zcard (zrem k x) < zcard k"
  unfolding zcard_def zrem_def by (simp add: AList.delete_eq) (auto intro!: length_filter_less)

abbreviation leases :: "redis_key \<Rightarrow> string set" where
  "leases k \<equiv> fst ` set (members k)"

lemma leases_zadd [simp]: "leases (zadd k n x) = insert x (leases k)"
  by (simp add: zadd_def dom_update)

lemma renew_members_keep:
  "leases (snd (renew_members n ls k r)) = leases k"
  "zcard (snd (renew_members n ls k r)) = zcard k"
  "proper k \<Longrightarrow> proper (snd (renew_members n ls k r))"
  by (induction n ls k r rule: renew_members.induct) (simp_all add: insert_absorb)

lemma renew_script_key:
  "snd (renewConnBatchScript clock k n ttl ls) =
     (let k1 = redis_at clock k; k2 = snd (renew_members n ls k1 0) in
      if ls \<noteq> [] \<and> \<not> is_zset k1 then k1
      else if fst (renew_members n ls k1 0) > 0 then pexpire clock k2 ttl else k2)"
  by (auto simp: renewConnBatchScript_def Let_def split: prod.splits)

lemma script_le:
  "zcard (snd (releaseScript clock k x)) \<le> zcard k"
  "zcard (snd (countScript clock k now)) \<le> zcard k"
  "zcard (snd (renewConnBatchScript clock k n ttl ls)) \<le> zcard k"
  "zcard (drop_expired clock now k) \<le> zcard k"
  unfolding releaseScript_def countScript_def renew_script_key drop_expired_def Let_def
  using zcard_le(1) [of clock k] zcard_le(2,3) [of "redis_at clock k"] renew_members_keep(2)
  by (auto intro: order_trans)

lemma script_proper:
  assumes "proper k"
  shows "proper (snd (releaseScript clock k x))" "proper (snd (countScript clock k now))"
    "proper (snd (renewConnBatchScript clock k n ttl ls))" "proper (drop_expired clock now k)"
    "proper (snd (acquireScript clock k limit now' n x ttl))"
  using assms
  by (auto simp: releaseScript_def countScript_def renew_script_key drop_expired_def acquireScript_def Let_def
      renew_members_keep)

lemma acquireScript_bound:
  assumes "0 < limit"
  shows "zcard (snd (acquireScript clock k limit now n x ttl)) \<le> max limit (zcard k)"
proof -
  let ?k2 = "if is_zset (redis_at clock k) then redis_at clock k else no_key"
  have "zcard ?k2 \<le> zcard k" using zcard_le(1) [of clock k] by simp
  then have "zcard (zremrangebyscore ?k2 now) \<le> zcard k" using zcard_le(2) order_trans by blast
  then show ?thesis using assms by (auto simp: acquireScript_def Let_def)
qed

lemma acquireScript_grants:
  assumes "zcard k < limit"
  shows "fst (acquireScript clock k limit now n x ttl) = 1"
proof -
  let ?k2 = "if is_zset (redis_at clock k) then redis_at clock k else no_key"
  have "zcard ?k2 \<le> zcard k" using zcard_le(1) [of clock k] by simp
  then have "zcard (zremrangebyscore ?k2 now) \<le> zcard k" using zcard_le(2) order_trans by blast
  then show ?thesis using assms by (simp add: acquireScript_def Let_def)
qed

definition key_of :: "string \<times> int \<times> bool \<times> redis_key \<times> nat \<Rightarrow> redis_key" where
  "key_of r = (case r of (_, _, _, k, _) \<Rightarrow> k)"

lemma key_of_simp [simp]: "key_of (l, r, err, k, n) = k"
  by (simp add: key_of_def)

lemma acquire_attempts_key:
  assumes "0 < limit" "proper k"
  shows "zcard (key_of (acquire_attempts limit as k)) \<le> max limit (zcard k) \<and>
    proper (key_of (acquire_attempts limit as k))"
  using assms(2)
proof (induction as arbitrary: k)
  case (Cons a as)
  let ?s = "acquireScript (at_clock a) k limit (unix_milli (at_now a))
      (unix_milli (at_now a + redisConnLeaseTTL)) (at_lease a) lease_key_ttl"
  have s: "zcard (snd ?s) \<le> max limit (zcard k)" "proper (snd ?s)"
    using acquireScript_bound [OF assms(1)] script_proper(5) [OF Cons.prems] by blast+
  have step: "zcard (key_of (acquire_attempts limit as k')) \<le> max limit (zcard k) \<and>
      proper (key_of (acquire_attempts limit as k'))" if "k' \<in> {k, snd ?s}" for k'
    using Cons.IH [of k'] s Cons.prems that by auto
  show ?case
    using s Cons.prems step [of k] step [of "snd ?s"]
    by (auto simp: Let_def split: prod.splits round_trip.splits)
qed simp

definition dep_inv :: "deployment \<Rightarrow> bool" where
  "dep_inv d \<longleftrightarrow> (\<forall>i. proper (keys d i))"

definition dep_load :: "deployment \<Rightarrow> int \<Rightarrow> int" where
  "dep_load d i = zcard (keys d i)"

definition shrinks :: "deployment \<Rightarrow> deployment \<Rightarrow> bool" where
  "shrinks d d' \<longleftrightarrow> (dep_inv d \<longrightarrow> dep_inv d') \<and> (\<forall>i. dep_load d' i \<le> dep_load d i)"

lemma shrinks_refl [simp]: "shrinks d d"
  and shrinks_trans: "shrinks d d' \<Longrightarrow> shrinks d' d'' \<Longrightarrow> shrinks d d''"
  unfolding shrinks_def using order_trans by blast+

lemma shrinks_proc [simp]: "shrinks d (set_proc p t d') = shrinks d d'" "shrinks (set_proc p t d) d' = shrinks d d'"
  by (auto simp: shrinks_def set_proc_def dep_inv_def dep_load_def)

lemma shrinks_key:
  assumes "zcard k \<le> zcard (keys d i)" "proper (keys d i) \<Longrightarrow> proper k"
  shows "shrinks d (set_key i k d)"
  using assms by (auto simp: shrinks_def set_key_def dep_inv_def dep_load_def)

lemma shrinks_fold: "(\<And>x d. x \<in> set xs \<Longrightarrow> shrinks d (f x d)) \<Longrightarrow> shrinks d (fold f xs d)"
proof (induction xs arbitrary: d)
  case (Cons x xs)
  then show ?case using shrinks_trans [of d "f x d"] by simp
qed simp

lemma release_lease_shrinks: "shrinks d (snd (release_lease e i x d))"
  using script_le(1) script_proper(1)
  by (auto simp: release_lease_def Let_def split_def split: round_trip.splits intro!: shrinks_key)

lemma Release_shrinks: "shrinks d (redis_Release e i d)"
  using release_lease_shrinks [of "set_proc (ce_proc e) t d" e i x for t x]
  by (auto simp: redis_Release_def Let_def split_def)

lemma fold_release_shrinks:
  "zcard (fold (\<lambda>x k. snd (releaseScript clock k x)) xs k) \<le> zcard k \<and>
   (proper k \<longrightarrow> proper (fold (\<lambda>x k. snd (releaseScript clock k x)) xs k))"
proof (induction xs arbitrary: k)
  case (Cons x xs)
  then show ?case using script_le(1) [of clock k x] script_proper(1) [of k clock x] by (fastforce intro: order_trans)
qed simp

lemma close_leases_shrinks: "shrinks d (close_leases clock i xs d)"
  unfolding close_leases_def using fold_release_shrinks by (intro shrinks_key) blast+

lemma Close_shrinks: "shrinks d (redis_Close e accounts d)"
proof -
  have "shrinks d (fold (\<lambda>i. close_leases (ce_clock e) i (f i)) accounts (set_proc p t d))" for f p t
    using shrinks_fold [of accounts "\<lambda>i. close_leases (ce_clock e) i (f i)" "set_proc p t d"]
      close_leases_shrinks by simp
  then show ?thesis
    by (auto simp: redis_Close_def Let_def split: round_trip.splits bool.splits)
qed

lemma GetCount_shrinks: "shrinks d (snd (redis_GetCount e now i d))"
  using script_le(2) script_proper(2)
  by (auto simp: redis_GetCount_def Let_def split_def split: round_trip.splits intro!: shrinks_key)

lemma pipeline_shrinks: "shrinks d (pipeline_expired clock now ids d)"
  unfolding pipeline_expired_def by (intro shrinks_fold shrinks_key script_le script_proper)

lemma fetchCounts_shrinks: "shrinks d (snd (fetchCounts e now ids d))"
  using pipeline_shrinks by (auto simp: fetchCounts_def Let_def split: round_trip.splits)

lemma GetCounts_shrinks: "shrinks d (snd (redis_GetCounts e now1 now2 now3 ids d))"
  using fetchCounts_shrinks by (auto simp: redis_GetCounts_def Let_def split_def)

lemma GetCountsChecked_shrinks: "shrinks d (snd (redis_GetCountsChecked e now ids d))"
  using pipeline_shrinks by (auto simp: redis_GetCountsChecked_def Let_def split: round_trip.splits)

lemma renew_one_shrinks: "shrinks d (renew_one b d)"
  using script_le(3) script_proper(3)
  by (auto simp: renew_one_def Let_def split: prod.splits round_trip.splits bool.splits intro!: shrinks_key)

lemma renewBatch_shrinks: "shrinks d (renewBatch accounts attempts t d)"
  unfolding renewBatch_def by (intro shrinks_fold renew_one_shrinks)

datatype upkeep =
    Up_renew "int list" "attempt list" RedisConnTracker
  | Up_close conn_env "int list"
  | Up_count conn_env time int
  | Up_counts conn_env time time time "int list"
  | Up_checked conn_env time "int list"

fun redis_upkeep :: "upkeep \<Rightarrow> deployment \<Rightarrow> deployment" where
  "redis_upkeep (Up_renew accounts attempts t) d = renewBatch accounts attempts t d"
| "redis_upkeep (Up_close e accounts) d = redis_Close e accounts d"
| "redis_upkeep (Up_count e now i) d = snd (redis_GetCount e now i d)"
| "redis_upkeep (Up_counts e now1 now2 now3 ids) d = snd (redis_GetCounts e now1 now2 now3 ids d)"
| "redis_upkeep (Up_checked e now ids) d = snd (redis_GetCountsChecked e now ids d)"

lemma upkeep_shrinks: "shrinks d (redis_upkeep u d)"
  by (cases u) (simp_all add: renewBatch_shrinks Close_shrinks GetCount_shrinks GetCounts_shrinks
      GetCountsChecked_shrinks)

lemma keys_simps [simp]:
  "keys (set_proc p t d) = keys d" "keys (set_key i k d) = (keys d)(i := k)"
  by (simp_all add: set_proc_def set_key_def)

lemma redis_acquire_cases:
  fixes e i limit d
  defines "d1 \<equiv> set_key i (key_of (acquire_attempts limit (take 2 (ce_attempts e)) (keys d i))) d"
  shows "snd (redis_acquire e i limit d) = d \<or> shrinks d1 (snd (redis_acquire e i limit d))"
  using release_lease_shrinks [of d1 e i]
  by (auto simp: redis_acquire_def Let_def d1_def split: prod.splits)

lemma redis_try_bound:
  assumes "dep_inv d" "0 < limit"
  shows "dep_load (snd (redis_acquire e i limit d)) j \<le> (if i = j then max limit (dep_load d i) else dep_load d j) \<and>
    dep_inv (snd (redis_acquire e i limit d))"
proof -
  have key: "zcard (key_of (acquire_attempts limit as (keys d i))) \<le> max limit (dep_load d i)"
    "proper (key_of (acquire_attempts limit as (keys d i)))" for as
    using acquire_attempts_key [OF assms(2)] assms(1) by (auto simp: dep_inv_def dep_load_def)
  let ?d1 = "set_key i (key_of (acquire_attempts limit (take 2 (ce_attempts e)) (keys d i))) d"
  have d1: "dep_inv ?d1" "dep_load ?d1 j \<le> (if i = j then max limit (dep_load d i) else dep_load d j)"
    using key assms(1) by (auto simp: dep_inv_def dep_load_def)
  from redis_acquire_cases [of e i limit d] show ?thesis
  proof
    assume "snd (redis_acquire e i limit d) = d"
    with assms(1) show ?thesis by simp
  next
    assume "shrinks ?d1 (snd (redis_acquire e i limit d))"
    with d1 show ?thesis unfolding shrinks_def using order_trans by blast
  qed
qed

definition redis_healthy :: "conn_env \<Rightarrow> int \<Rightarrow> deployment \<Rightarrow> bool" where
  "redis_healthy e i d \<longleftrightarrow> i \<noteq> 0 \<and> \<not> closed (procs d (ce_proc e)) \<and>
     (case ce_attempts e of a # _ \<Rightarrow> at_trip a = Answered | [] \<Rightarrow> False)"

definition redis_holds :: "conn_env \<Rightarrow> int \<Rightarrow> deployment \<Rightarrow> bool" where
  "redis_holds e i d \<longleftrightarrow> i \<noteq> 0 \<and> held (procs d (ce_proc e)) i \<noteq> [] \<and>
     last (held (procs d (ce_proc e)) i) \<in> leases (keys d i) \<and> ce_trip e = Answered"

lemma releaseScript_frees:
  assumes "x \<in> leases k"
  shows "zcard (snd (releaseScript clock k x)) < zcard k"
proof (cases "members (redis_at clock k) = []")
  case True
  from assms have "0 < zcard k" by (auto simp: zcard_def)
  moreover have "zcard (redis_at clock k) = 0" "zcard (zrem (redis_at clock k) x) = 0"
    using True by (auto simp: zcard_def zrem_def)
  ultimately show ?thesis by (auto simp: releaseScript_def Let_def)
next
  case False
  then have m: "members (redis_at clock k) = members k" using members_at by blast
  then have "is_zset (redis_at clock k)" using False by (auto simp: is_zset_def members_def split: redis_value.splits)
  with m assms zcard_zrem_less [of x "redis_at clock k"] show ?thesis
    by (simp add: releaseScript_def Let_def zcard_def)
qed

interpretation redis: conn_tracker dep_inv dep_load redis_TryAcquire redis_Release redis_upkeep
  redis_healthy redis_holds
proof (unfold_locales, goal_cases)
  case (1 s limit e i)
  then show ?case using redis_try_bound by (simp add: redis_TryAcquire_def)
next
  case (2 s e i)
  then show ?case using Release_shrinks [of s e i] by (simp add: shrinks_def)
next
  case (3 s k)
  then show ?case using upkeep_shrinks [of s k] by (simp add: shrinks_def)
next
  case (4 s i)
  show ?case by (simp add: dep_load_def)
next
  case (5 s limit e i j)
  then show ?case using redis_try_bound [of s limit e i j] by (simp add: redis_TryAcquire_def)
next
  case (6 s e i j)
  then show ?case using Release_shrinks [of s e i] by (simp add: shrinks_def)
next
  case (7 s k j)
  then show ?case using upkeep_shrinks [of s k] by (simp add: shrinks_def)
next
  case (8 s e i limit)
  then show ?case
    using acquireScript_grants [of "keys s i" limit]
    by (auto simp: redis_healthy_def redis_TryAcquire_def redis_acquire_def Let_def dep_load_def
        split: list.splits prod.splits) (metis fst_conv)+
next
  case (9 s e i)
  then show ?case
    using releaseScript_frees [of "last (held (procs s (ce_proc e)) i)" "keys s i" "ce_clock e"]
    by (auto simp: redis_holds_def redis_Release_def release_lease_def Let_def dep_load_def split: prod.splits)
qed

section \<open>The guarantees\<close>


text \<open>Two clients of account 7, whose limit is 1; the first one takes the slot.\<close>

definition first_holds :: mem_config where
  "first_holds = \<lparr>counters = [7 \<mapsto> 1], clients = [Holding 7, Idle]\<rparr>"

lemma first_holds_reachable: "(mem_step_limited (\<lambda>_. 1))\<^sup>*\<^sup>* (mem_init 2) first_holds"
proof -
  let ?c1 = "\<lparr>counters = [7 \<mapsto> 0], clients = [Try_load 7 1, Idle]\<rparr>"
  let ?c2 = "\<lparr>counters = [7 \<mapsto> 0], clients = [Try_cas 7 1 0, Idle]\<rparr>"
  have "mem_step (mem_init 2) ?c1"
    using try_start [of 0 "mem_init 2" 7 1]
    by (simp add: mem_init_def load_or_store_def numeral_2_eq_2)
  moreover have "mem_step ?c1 ?c2" using try_loaded [of 0 ?c1 7 1 0] by simp
  moreover have "mem_step ?c2 first_holds"
    using try_swapped [of 0 ?c2 7 1 0] by (simp add: first_holds_def wrap64_def)
  ultimately have "mem_step_limited (\<lambda>_. 1) (mem_init 2) ?c1" "mem_step_limited (\<lambda>_. 1) ?c1 ?c2"
    "mem_step_limited (\<lambda>_. 1) ?c2 first_holds"
    by (simp_all add: mem_step_limited_def first_holds_def)
  then show ?thesis by (meson rtranclp.rtrancl_refl rtranclp.rtrancl_into_rtrancl)
qed


text \<open>C2.
  Whatever the processes of a deployment do (acquire, release, renew, count, close, in any order,
  with any clocks and any failed round trip), Redis never holds more leases of an account than its
  limit.\<close>

theorem redis_limit_across_processes:
  assumes "\<And>i. distinct (map fst (members (keys d i)))" "\<And>i. 0 < lmt i" "\<And>i. lmt i \<le> max_int64"
    and "zcard (keys d j) \<le> lmt j"
  shows "zcard (keys (conn_run redis_TryAcquire redis_Release redis_upkeep lmt ops d) j) \<le> lmt j"
  using redis.run_within [of d lmt j ops] assms by (simp add: dep_inv_def proper_def dep_load_def)

definition empty_deployment :: deployment where
  "empty_deployment = \<lparr>keys = (\<lambda>_. no_key), procs = (\<lambda>_. \<lparr>held = (\<lambda>_. []), closed = False, countCache = []\<rparr>)\<rparr>"

definition sample_env :: "nat \<Rightarrow> string \<Rightarrow> conn_env" where
  "sample_env p lease = \<lparr>ce_proc = p, ce_attempts = [\<lparr>at_now = unix_epoch, at_clock = 0, at_lease = lease, at_trip = Answered\<rparr>],
     ce_clock = 0, ce_trip = Answered\<rparr>"

theorem redis_limit_across_processes_witness:
  "zcard (keys (conn_run redis_TryAcquire redis_Release redis_upkeep (\<lambda>_. 1)
     [Try (sample_env 0 ''a'') 7, Try (sample_env 1 ''b'') 7] empty_deployment) 7) \<le> 1"
  by (rule redis_limit_across_processes) (simp_all add: empty_deployment_def max_int64_def)

text \<open>When the account is full and a process releases a lease it holds, the next \<open>TryAcquire\<close> of any open
  process that reaches Redis is granted.\<close>

lemma redis_freed_slot_granted:
  assumes "\<And>i. distinct (map fst (members (keys d i)))"
    and "redis_holds e i d" "zcard (keys d i) \<le> limit" "redis_healthy e' i (redis_Release e i d)"
  shows "fst (redis_TryAcquire e' i limit (redis_Release e i d))"
  using redis.freed_slot_granted [of d e i limit e'] assms by (simp add: dep_inv_def proper_def dep_load_def)

definition one_lease :: deployment where
  "one_lease = empty_deployment\<lparr>keys := (\<lambda>_. no_key)(7 := \<lparr>rk_value = RZSet [(''a'', 120000)], rk_expire = Some 240000\<rparr>),
     procs := (procs empty_deployment)(0 := \<lparr>held = (\<lambda>_. [])(7 := [''a'']), closed = False, countCache = []\<rparr>)\<rparr>"

lemma leases_at: "leases (redis_at clock k) \<subseteq> leases k"
  using members_at [of clock k] by auto

lemma renew_script_leases: "leases (snd (renewConnBatchScript clock k n ttl ls)) \<subseteq> leases k"
  using leases_at [of clock k] by (simp add: renew_script_key Let_def renew_members_keep(1))

lemma renew_one_leases: "leases (keys (renew_one b d) i) \<subseteq> leases (keys d i)"
  using renew_script_leases
  by (auto simp: renew_one_def Let_def split: prod.splits round_trip.splits bool.splits)

text \<open>The heartbeat of a process, run from a snapshot of its leases taken at any earlier time, never
  brings back a lease that has been released or has expired meanwhile.\<close>

lemma renewal_never_resurrects:
  "leases (keys (renewBatch accounts attempts t d) i) \<subseteq> leases (keys d i)"
proof -
  have "leases (keys (fold renew_one bs d) i) \<subseteq> leases (keys d i)" for bs
  proof (induction bs arbitrary: d)
    case (Cons b bs)
    then show ?case using renew_one_leases [of b d i] by (simp only: fold_simps) (rule subset_trans)
  qed simp
  then show ?thesis by (simp only: renewBatch_def)
qed

lemma fetchCounts_keys: "fst ` set (fst (fetchCounts e now ids d)) = set ids"
  by (auto simp: fetchCounts_def Let_def image_image split: round_trip.splits)

lemma hits_keys: "fst ` set (hits t now ids) = {i \<in> set ids. cached_count t now i \<noteq> None}"
  by (force simp: hits_def map_filter_def)

lemma sort_empty: "sort xs = [] \<longleftrightarrow> xs = []" for xs :: "int list"
  by (metis set_empty set_sort)

text \<open>The batched count answers for every account it is asked about, from the cache or from Redis, also
  when the round trip fails.\<close>

lemma redis_GetCounts_total:
  "dom (map_of (fst (redis_GetCounts e now1 now2 now3 ids d))) = set ids"
  using fetchCounts_keys [of e now2] hits_keys sort_empty
  by (auto simp: redis_GetCounts_def Let_def dom_map_of_conv_image_fst misses_def split_def image_Un filter_empty_conv)

text \<open>A round trip that fails with a zero beside its error ends the loop: there is no second one.\<close>

lemma acquire_never_retries:
  assumes "at_trip a = Failed 0 done"
  shows "snd (snd (snd (snd (acquire_attempts limit (a # rest) k)))) = 1"
  using assms by (simp add: Let_def split: prod.splits)

end
