(* ===== verification/Load_Balancer.thy ===== *)
theory Load_Balancer
  imports Account_Policy Channel Conn_Tracker
begin

text \<open>
  \<^verbatim>\<open>internal/loadbalancer/loadbalancer.go\<close>: the cached snapshot of the enabled accounts with its channel
  index, the scan that decides which accounts may serve a request, the message of an empty pool, the
  weighted least-connections choice, and the status changes a recovered or failed account goes through.

  \<^item> An account is a value, found again in the snapshot by its \<open>ID\<close>: the snapshot and the caller see the
    same state after every operation, as they do through the shared pointer. Entries are never nil.
  \<^item> Every reading of the clock within one operation is the argument \<open>now\<close>; \<open>ctx k\<close> is the cancellation
    cause seen by the k-th look at the context; \<open>pick n\<close> is the value of \<open>rand.IntN(n)\<close>; what the store
    answers is an argument, and the rows handed to \<open>Store.UpdateAccount\<close> are appended to \<open>lb_writes\<close>.
  \<^item> A score is the rational \<open>conns / weight\<close>; the quotients of the code are \<open>float64\<close>, which order and
    separate these fractions in the same way for counts and weights below \<open>2^26\<close>.
\<close>

definition DefaultAccountConcurrency :: int where
  "DefaultAccountConcurrency = 10"

definition EffectiveAccountConcurrencyLimit :: "Account option \<Rightarrow> int" where
  "EffectiveAccountConcurrencyLimit acc =
     (case acc of None \<Rightarrow> 0
      | Some a \<Rightarrow>
          if MaxConcurrent a > 0 then MaxConcurrent a
          else if IsSupported (AccountType a) then DefaultAccountConcurrency
          else 0)"

section \<open>State\<close>

text \<open>The channel index holds positions of the snapshot.\<close>

record LoadBalancer =
  cachedAccounts :: "Account list"
  cachedByChannel :: "(string \<times> nat list) list option"
  cacheExpires :: time
  cacheTTL :: duration
  scanCursor :: nat
  lastSelected :: "(int \<times> time) list"
  lb_writes :: "Account list"

definition defaultCacheTTL :: duration where "defaultCacheTTL = 5 * second"

definition NewWithCacheTTL :: "duration \<Rightarrow> LoadBalancer" where
  "NewWithCacheTTL ttl =
     \<lparr>cachedAccounts = [], cachedByChannel = None, cacheExpires = 0,
      cacheTTL = (if ttl \<le> 0 then defaultCacheTTL else ttl), scanCursor = 0, lastSelected = [], lb_writes = []\<rparr>"

definition accountScanWindow :: nat where "accountScanWindow = 64"

definition rotateScanCursor :: "nat \<Rightarrow> LoadBalancer \<Rightarrow> nat \<times> LoadBalancer" where
  "rotateScanCursor n lb =
     (if n = 0 then (0, lb)
      else let start = scanCursor lb mod n
           in (start, lb\<lparr>scanCursor := (start + accountScanWindow) mod n\<rparr>))"

section \<open>The snapshot\<close>

definition InvalidateAccounts :: "int list \<Rightarrow> LoadBalancer \<Rightarrow> LoadBalancer" where
  "InvalidateAccounts ids lb =
     (let changed = filter (\<lambda>i. i \<noteq> 0) ids in
      if changed = [] then lb
      else lb\<lparr>cacheExpires := 0, cachedByChannel := None,
              cachedAccounts := filter (\<lambda>a. ID a \<notin> set changed) (cachedAccounts lb)\<rparr>)"

definition AccountChanges :: "int list \<Rightarrow> LoadBalancer \<Rightarrow> LoadBalancer" where
  "AccountChanges ids lb = InvalidateAccounts ids lb"

definition cachedAccountsBefore :: "time \<Rightarrow> LoadBalancer \<Rightarrow> Account list option" where
  "cachedAccountsBefore now lb =
     (if cachedAccounts lb \<noteq> [] \<and> now < cacheExpires lb then Some (cachedAccounts lb) else None)"

definition index_entry :: "string \<Rightarrow> nat \<Rightarrow> (string \<times> nat list) list \<Rightarrow> (string \<times> nat list) list" where
  "index_entry key i index =
     AList.update key ((case map_of index key of Some is \<Rightarrow> is | None \<Rightarrow> []) @ [i]) index"

fun channel_index :: "nat \<Rightarrow> Account list \<Rightarrow> (string \<times> nat list) list \<Rightarrow> (string \<times> nat list) list" where
  "channel_index i [] index = index"
| "channel_index i (acc # rest) index =
     (let typ = to_lower (AccountType acc);
          mode = to_lower (AgentMode acc);
          index1 = (if typ \<noteq> [] then index_entry typ i index else index);
          index2 = (if mode \<noteq> [] \<and> mode \<noteq> typ then index_entry mode i index1 else index1)
      in channel_index (i + 1) rest index2)"

text \<open>\<open>loaded\<close> is the answer of \<open>Store.GetEnabledAccounts\<close>, asked only when the snapshot is not valid.\<close>

definition getEnabledAccounts ::
  "time \<Rightarrow> string + Account list \<Rightarrow> LoadBalancer \<Rightarrow> (string + Account list) \<times> LoadBalancer" where
  "getEnabledAccounts now loaded lb =
     (case cachedAccountsBefore now lb of
        Some accounts \<Rightarrow> (Inr accounts, lb)
      | None \<Rightarrow>
          (case loaded of
             Inl err \<Rightarrow> (Inl err, lb)
           | Inr accounts \<Rightarrow>
               (Inr accounts, lb\<lparr>cachedAccounts := accounts, cachedByChannel := Some (channel_index 0 accounts []),
                                cacheExpires := now + cacheTTL lb\<rparr>)))"

definition indexed_accounts :: "string \<Rightarrow> Account list \<Rightarrow> LoadBalancer \<Rightarrow> Account list" where
  "indexed_accounts channel accounts lb =
     (case cachedByChannel lb of
        None \<Rightarrow> accounts
      | Some index \<Rightarrow>
          (case map_of index (to_lower channel) of
             None \<Rightarrow> []
           | Some is \<Rightarrow> map (\<lambda>i. cachedAccounts lb ! i) is))"

section \<open>Status changes\<close>

definition resetAccountRuntimeState :: "Account \<Rightarrow> Account" where
  "resetAccountRuntimeState acc =
     acc\<lparr>StatusCode := [], StatusMessage := [], LastAttempt := 0, QuotaResetAt := 0, RateLimitFailures := 0\<rparr>"

text \<open>The update of the entry \<open>cachedAccountLocked\<close> finds: the first one with the identifier.\<close>

fun update_cached :: "int \<Rightarrow> (Account \<Rightarrow> Account) \<Rightarrow> Account list \<Rightarrow> Account list" where
  "update_cached i f [] = []"
| "update_cached i f (a # as) = (if ID a = i then f a # as else a # update_cached i f as)"

definition persistAccountStatus :: "Account \<Rightarrow> LoadBalancer \<Rightarrow> LoadBalancer" where
  "persistAccountStatus acc lb = lb\<lparr>lb_writes := lb_writes lb @ [acc]\<rparr>"

definition clearAccountStatus :: "Account \<Rightarrow> LoadBalancer \<Rightarrow> Account \<times> LoadBalancer" where
  "clearAccountStatus acc lb =
     (let acc' = resetAccountRuntimeState acc
      in (acc', persistAccountStatus acc'
                  (lb\<lparr>cachedAccounts := update_cached (ID acc) resetAccountRuntimeState (cachedAccounts lb)\<rparr>)))"

definition PersistAppliedAccountStatus :: "Account \<Rightarrow> LoadBalancer \<Rightarrow> LoadBalancer" where
  "PersistAppliedAccountStatus acc lb =
     persistAccountStatus acc
       (lb\<lparr>cachedAccounts := update_cached (ID acc)
          (\<lambda>cached. cached\<lparr>StatusCode := StatusCode acc, StatusMessage := StatusMessage acc,
             LastAttempt := LastAttempt acc, AuthStatus := AuthStatus acc,
             RateLimitFailures := RateLimitFailures acc, QuotaResetAt := QuotaResetAt acc,
             VerifiedAt := VerifiedAt acc, WorkBuddyRestrictedUntil := WorkBuddyRestrictedUntil acc\<rparr>)
          (cachedAccounts lb)\<rparr>)"

definition MarkAccountStatus :: "time \<Rightarrow> Account \<Rightarrow> string \<Rightarrow> LoadBalancer \<Rightarrow> Account \<times> LoadBalancer" where
  "MarkAccountStatus now acc status lb =
     (if status = [] then (acc, lb)
      else
        let a1 = acc\<lparr>StatusCode := status, LastAttempt := now\<rparr>;
            a2 = (if status \<noteq> ''429'' then a1\<lparr>RateLimitFailures := 0\<rparr> else a1);
            a3 = (if status = ''401'' then a2\<lparr>AuthStatus := AccountAuthStatusReauthRequired\<rparr> else a2);
            a4 = (if status = ''429''
                  then (let failures = wrap64 (RateLimitFailures a3 + 1);
                            cooldown = RateLimitCooldown failures;
                            b = a3\<lparr>RateLimitFailures := failures\<rparr>
                        in if is_zero (QuotaResetAt b) \<or> QuotaResetAt b < now + cooldown
                           then b\<lparr>QuotaResetAt := now + cooldown\<rparr> else b)
                  else a3)
        in (a4, persistAccountStatus a4
                  (lb\<lparr>cachedAccounts := update_cached (ID acc)
                     (\<lambda>cached. cached\<lparr>StatusCode := status, LastAttempt := now, AuthStatus := AuthStatus a4,
                        RateLimitFailures := RateLimitFailures a4, QuotaResetAt := QuotaResetAt a4\<rparr>)
                     (cachedAccounts lb)\<rparr>)))"

section \<open>Availability\<close>

definition retry401Default :: duration where "retry401Default = CooldownAuth"
definition retry402Default :: duration where "retry402Default = CooldownPayment"
definition retry403Default :: duration where "retry403Default = CooldownBlocked"
definition retry403Grok :: duration where "retry403Grok = CooldownBlockedGro"

definition cooldownElapsed :: "time \<Rightarrow> duration \<Rightarrow> time \<Rightarrow> bool" where
  "cooldownElapsed lastAttempt cooldown now =
     (if is_zero lastAttempt then False else time_sub now lastAttempt \<ge> cooldown)"

definition isPaidGrokBuildAccount :: "Account \<Rightarrow> bool" where
  "isPaidGrokBuildAccount acc = GrokBuildAccountIsPaid (Some acc)"

text \<open>The answer of \<open>isAccountAvailable\<close>, and whether it clears the account's status on the way.
  \<open>claimed\<close> is what \<open>Store.ClaimGrokPaidQuotaProbe\<close> answers, an error counting as no.\<close>

definition availability :: "time \<Rightarrow> bool \<Rightarrow> Account \<Rightarrow> bool \<times> bool" where
  "availability now claimed acc =
     (if \<not> AccountAuthActive (Some acc) then (False, False)
      else if WorkBuddyRestrictionUntil (Some acc) > now then (False, False)
      else if isPaidGrokBuildAccount acc \<and> IsExhausted (GrokBilling acc) \<and>
              (is_zero (PeriodEnd (GrokBilling acc)) \<or> now < PeriodEnd (GrokBilling acc) \<or> \<not> claimed)
           then (False, False)
      else
        let status = trim_space (StatusCode acc) in
        if status = [] then (True, False)
        else if status = AccountStatusWorkBuddyQuotaExhausted then
          (if \<not> equal_fold (trim_space (AccountType acc)) ''workbuddy'' then (False, False)
           else (True, UsageCurrent acc > 0))
        else if status = ''401'' then (False, False)
        else if status = ''429'' then
          (if is_zero (LastAttempt acc) then (False, False)
           else if \<not> AccountHeld (Some acc) now then (True, True)
           else (False, False))
        else if status = ''402'' then
          (if isPaidGrokBuildAccount acc \<and> \<not> is_zero (PeriodEnd (GrokBilling acc))
           then (if \<not> now < PeriodEnd (GrokBilling acc) then (True, True) else (False, False))
           else if \<not> is_zero (QuotaResetAt acc)
           then (if \<not> now < QuotaResetAt acc then (True, True) else (False, False))
           else if cooldownElapsed (LastAttempt acc) retry402Default now then (True, True)
           else (False, False))
        else if status = ''403'' \<or> status = ''404'' then
          (let cooldown = (if equal_fold (AccountType acc) ''grok'' then retry403Grok else retry403Default)
           in if cooldownElapsed (LastAttempt acc) cooldown now then (True, True) else (False, False))
        else (if cooldownElapsed (LastAttempt acc) retry401Default now then (True, True) else (False, False)))"

definition isAccountAvailable ::
  "time \<Rightarrow> (int \<Rightarrow> bool) \<Rightarrow> Account \<Rightarrow> LoadBalancer \<Rightarrow> bool \<times> Account \<times> LoadBalancer" where
  "isAccountAvailable now claim acc lb =
     (let (available, clear) = availability now (claim (ID acc)) acc in
      if clear then (let (acc', lb') = clearAccountStatus acc lb in (available, acc', lb'))
      else (available, acc, lb))"

section \<open>The choice among the usable accounts\<close>

definition effective_weight :: "Account \<Rightarrow> int" where
  "effective_weight acc = (if Weight acc \<le> 0 then 1 else Weight acc)"

definition at_limit :: "(int \<Rightarrow> int) \<Rightarrow> Account \<Rightarrow> bool" where
  "at_limit counts acc =
     (let limit = EffectiveAccountConcurrencyLimit (Some acc) in limit > 0 \<and> counts (ID acc) \<ge> limit)"

definition score :: "(int \<Rightarrow> int) \<Rightarrow> Account \<Rightarrow> rat" where
  "score counts acc = of_int (counts (ID acc)) / of_int (effective_weight acc)"

fun best_positions ::
  "(int \<Rightarrow> int) \<Rightarrow> nat \<Rightarrow> Account list \<Rightarrow> nat list \<Rightarrow> rat \<Rightarrow> nat list" where
  "best_positions counts i [] best minScore = best"
| "best_positions counts i (acc # rest) best minScore =
     (if at_limit counts acc then best_positions counts (i + 1) rest best minScore
      else let s = score counts acc in
        if best = [] \<or> s < minScore then best_positions counts (i + 1) rest [i] s
        else if s = minScore then best_positions counts (i + 1) rest (best @ [i]) minScore
        else best_positions counts (i + 1) rest best minScore)"

fun coldest_positions ::
  "Account list \<Rightarrow> (int \<times> time) list \<Rightarrow> nat list \<Rightarrow> nat list \<Rightarrow> nat list \<Rightarrow> time \<Rightarrow> nat list \<times> nat list" where
  "coldest_positions accounts seen [] unseen coldest oldest = (unseen, coldest)"
| "coldest_positions accounts seen (i # best) unseen coldest oldest =
     (case map_of seen (ID (accounts ! i)) of
        None \<Rightarrow> coldest_positions accounts seen best (unseen @ [i]) coldest oldest
      | Some prev \<Rightarrow>
          if coldest = [] \<or> prev < oldest then coldest_positions accounts seen best unseen [i] prev
          else if prev = oldest then coldest_positions accounts seen best unseen (coldest @ [i]) oldest
          else coldest_positions accounts seen best unseen coldest oldest)"

definition select_in_window ::
  "time \<Rightarrow> (nat \<Rightarrow> nat) \<Rightarrow> (int \<Rightarrow> int) \<Rightarrow> Account list \<Rightarrow> LoadBalancer \<Rightarrow> Account option \<times> LoadBalancer" where
  "select_in_window now pick counts accounts lb =
     (let best = best_positions counts 0 accounts [] (-1) in
      if best = [] then (None, lb)
      else
        let (unseen, coldest) = coldest_positions accounts (lastSelected lb) best [] [] 0;
            pool = (if unseen \<noteq> [] then unseen else if coldest \<noteq> [] then coldest else best);
            picked = accounts ! (pool ! pick (length pool))
        in (Some picked, lb\<lparr>lastSelected := AList.update (ID picked) now (lastSelected lb)\<rparr>))"

fun select_windows ::
  "time \<Rightarrow> (nat \<Rightarrow> nat) \<Rightarrow> (nat \<Rightarrow> int \<Rightarrow> int) \<Rightarrow> nat \<Rightarrow> Account list list \<Rightarrow> LoadBalancer \<Rightarrow>
   Account option \<times> LoadBalancer" where
  "select_windows now pick counts k [] lb = (None, lb)"
| "select_windows now pick counts k (w # ws) lb =
     (case select_in_window now pick (counts k) w lb of
        (Some picked, lb') \<Rightarrow> (Some picked, lb')
      | (None, lb') \<Rightarrow> select_windows now pick counts (k + 1) ws lb')"

text \<open>\<open>counts k\<close> is what \<open>GetCounts\<close> answers for the k-th window, an identifier it does not answer for
  counting 0.\<close>

definition selectAccountWithTracker ::
  "time \<Rightarrow> (nat \<Rightarrow> nat) \<Rightarrow> (nat \<Rightarrow> int \<Rightarrow> int) \<Rightarrow> Account list \<Rightarrow> LoadBalancer \<Rightarrow> Account option \<times> LoadBalancer" where
  "selectAccountWithTracker now pick counts accounts lb =
     (if accounts = [] then (None, lb)
      else if length accounts > accountScanWindow then
        (let (start, lb') = rotateScanCursor (length accounts) lb
         in select_windows now pick counts 0
              (chunks accountScanWindow
                 (map (\<lambda>i. accounts ! ((start + i) mod length accounts)) [0..<length accounts])) lb')
      else select_in_window now pick (counts 0) accounts lb)"

section \<open>The scan\<close>

text \<open>What a filter says of a candidate it withholds: \<open>ErrModelThrottled\<close>, \<open>ErrModelUnavailable\<close> or
  another reason.\<close>

datatype reject = ErrModelThrottled | ErrModelUnavailable | ErrAccountNotEligible

record scan_counts =
  channelCandidates :: int
  channelMatched :: int
  rateLimitedUnavailable :: int
  allowanceParked :: int
  filterWithheld :: int
  restrictedUnavailable :: int
  filterThrottled :: int
  filterUnavailable :: int

definition no_counts :: scan_counts where
  "no_counts = \<lparr>channelCandidates = 0, channelMatched = 0, rateLimitedUnavailable = 0, allowanceParked = 0,
     filterWithheld = 0, restrictedUnavailable = 0, filterThrottled = 0, filterUnavailable = 0\<rparr>"

record request =
  rq_now :: time
  rq_ctx :: "nat \<Rightarrow> string option"
  rq_exclude :: "int list"
  rq_channel :: string
  rq_filter :: "(Account \<Rightarrow> reject option) option"
  rq_prepare :: "(Account list \<Rightarrow> string option) option"
  rq_claim :: "int \<Rightarrow> bool"

definition wanted :: "request \<Rightarrow> Account \<Rightarrow> bool" where
  "wanted rq acc =
     (ID acc \<notin> set (rq_exclude rq) \<and>
      (rq_channel rq = [] \<or>
       (trim_space (AccountType acc) \<noteq> [] \<and>
        (equal_fold (AccountType acc) (rq_channel rq) \<or> equal_fold (AgentMode acc) (rq_channel rq)))))"

definition rejected :: "request \<Rightarrow> Account \<Rightarrow> reject option" where
  "rejected rq acc = (case rq_filter rq of None \<Rightarrow> None | Some f \<Rightarrow> f acc)"

definition count_reject :: "reject \<Rightarrow> scan_counts \<Rightarrow> scan_counts" where
  "count_reject r c0 =
     (let c = c0\<lparr>filterWithheld := filterWithheld c0 + 1\<rparr> in
      case r of
        ErrModelUnavailable \<Rightarrow> c\<lparr>filterUnavailable := filterUnavailable c + 1\<rparr>
      | ErrModelThrottled \<Rightarrow> c\<lparr>filterThrottled := filterThrottled c + 1\<rparr>
      | ErrAccountNotEligible \<Rightarrow> c)"

definition count_unavailable :: "time \<Rightarrow> Account \<Rightarrow> scan_counts \<Rightarrow> scan_counts" where
  "count_unavailable now acc c0 =
     (let c = (if WorkBuddyRestrictionUntil (Some acc) > now
               then c0\<lparr>restrictedUnavailable := restrictedUnavailable c0 + 1\<rparr> else c0);
          status = trim_space (StatusCode acc)
      in if status = ''429'' then c\<lparr>rateLimitedUnavailable := rateLimitedUnavailable c + 1\<rparr>
         else if status = ''402'' then c\<lparr>allowanceParked := allowanceParked c + 1\<rparr>
         else c)"

text \<open>The loop of \<open>scan\<close> over the candidates: the result is the cancellation cause or the counters and
  the accounts that passed, with the number of looks at the context and the balancer.\<close>

fun scan_loop ::
  "request \<Rightarrow> Account list \<Rightarrow> scan_counts \<Rightarrow> Account list \<Rightarrow> nat \<Rightarrow> LoadBalancer \<Rightarrow>
   (string + scan_counts \<times> Account list) \<times> nat \<times> LoadBalancer" where
  "scan_loop rq [] c passed k lb = (Inr (c, passed), k, lb)"
| "scan_loop rq (acc # rest) c passed k lb =
     (case rq_ctx rq k of
        Some cause \<Rightarrow> (Inl cause, k + 1, lb)
      | None \<Rightarrow>
          if \<not> wanted rq acc then scan_loop rq rest c passed (k + 1) lb
          else
            let c1 = c\<lparr>channelCandidates := channelCandidates c + 1\<rparr> in
            case rejected rq acc of
              Some r \<Rightarrow> scan_loop rq rest (count_reject r c1) passed (k + 1) lb
            | None \<Rightarrow>
                let c2 = c1\<lparr>channelMatched := channelMatched c1 + 1\<rparr>;
                    (available, acc', lb') = isAccountAvailable (rq_now rq) (rq_claim rq) acc lb
                in if \<not> available
                   then scan_loop rq rest (count_unavailable (rq_now rq) acc' c2) passed (k + 1) lb'
                   else scan_loop rq rest c2 (passed @ [acc']) (k + 1) lb')"

definition scan ::
  "request \<Rightarrow> Account list \<Rightarrow> nat \<Rightarrow> LoadBalancer \<Rightarrow>
   (string + scan_counts \<times> Account list) \<times> nat \<times> LoadBalancer" where
  "scan rq candidates k lb =
     (case rq_ctx rq k of
        Some cause \<Rightarrow> (Inl cause, k + 1, lb)
      | None \<Rightarrow>
          (case (case rq_prepare rq of None \<Rightarrow> None | Some prepare \<Rightarrow> prepare candidates) of
             Some err \<Rightarrow> (Inl err, k + 1, lb)
           | None \<Rightarrow> scan_loop rq candidates no_counts [] (k + 1) lb))"

section \<open>The empty pool\<close>

definition pool_error :: "string \<Rightarrow> string \<Rightarrow> string" where
  "pool_error channel reason = ''no enabled accounts available for channel: '' @ channel @ reason"

definition empty_pool_error :: "string \<Rightarrow> scan_counts \<Rightarrow> string" where
  "empty_pool_error channel c =
     (if channel \<noteq> [] \<and> channelCandidates c > 0 \<and> channelMatched c = 0 then
        (if filterUnavailable c > 0 \<and> filterThrottled c = 0 \<and> filterUnavailable c = filterWithheld c
         then pool_error channel ('' (the requested model is not covered by any matching account'' @ bytes [39] @ ''s plan)'')
         else if filterThrottled c > 0 \<and> filterUnavailable c > 0
         then pool_error channel '' (the requested model is cooling down on some matching accounts and not covered by the plans of the rest)''
         else pool_error channel '' (all matching accounts are cooling down for the requested model)'')
      else if channel = ''workbuddy'' \<and> channelMatched c > 0 \<and> restrictedUnavailable c = channelMatched c
      then pool_error channel '' (workbuddy API error: status=403, code=11140, message=all matching accounts are restricted)''
      else if channel \<noteq> [] \<and> channelMatched c > 0 \<and> rateLimitedUnavailable c = channelMatched c
      then pool_error channel '' (all matching accounts are rate-limited or cooling down)''
      else if channel \<noteq> [] \<and> channelMatched c > 0 \<and> allowanceParked c = channelMatched c
      then pool_error channel '' (all matching accounts have exhausted their allowance)''
      else if channel \<noteq> [] \<and> allowanceParked c > 0 \<and> rateLimitedUnavailable c > 0
      then pool_error channel ('' (all matching accounts are rate-limited or cooling down: '' @
             itoa (rateLimitedUnavailable c) @ '' rate-limited, '' @ itoa (allowanceParked c) @
             '' parked for a spent allowance)'')
      else pool_error channel [])"

section \<open>The next account\<close>

definition scan_window :: "Account list \<Rightarrow> LoadBalancer \<Rightarrow> Account list \<times> LoadBalancer" where
  "scan_window accounts lb =
     (if length accounts > accountScanWindow
      then (let (start, lb') = rotateScanCursor (length accounts) lb
            in (map (\<lambda>offset. accounts ! ((start + offset) mod length accounts)) [0..<accountScanWindow], lb'))
      else (accounts, lb))"

text \<open>The scan of a window and, when it yields nothing, of the whole pool.\<close>

definition scan_with_fallback ::
  "request \<Rightarrow> Account list \<Rightarrow> LoadBalancer \<Rightarrow> (string + scan_counts \<times> Account list) \<times> LoadBalancer" where
  "scan_with_fallback rq accounts lb0 =
     (let (scanned, lb1) = scan_window accounts lb0;
          (first, k, lb2) = scan rq scanned 1 lb1
      in case first of
           Inl err \<Rightarrow> (Inl err, lb2)
         | Inr (c, passed) \<Rightarrow>
             if passed = [] \<and> length scanned \<noteq> length accounts
             then (let (second, k', lb3) = scan rq accounts k lb2 in (second, lb3))
             else (Inr (c, passed), lb2))"

definition getNextAccountWithFilter ::
  "request \<Rightarrow> string + Account list \<Rightarrow> (nat \<Rightarrow> nat) \<Rightarrow> (nat \<Rightarrow> int \<Rightarrow> int) \<Rightarrow> LoadBalancer \<Rightarrow>
   (string + Account) \<times> LoadBalancer" where
  "getNextAccountWithFilter rq loaded pick counts lb0 =
     (case rq_ctx rq 0 of
        Some cause \<Rightarrow> (Inl cause, lb0)
      | None \<Rightarrow>
          (case getEnabledAccounts (rq_now rq) loaded lb0 of
             (Inl err, lb1) \<Rightarrow> (Inl err, lb1)
           | (Inr enabled, lb1) \<Rightarrow>
               let accounts = (if rq_channel rq \<noteq> [] then indexed_accounts (rq_channel rq) enabled lb1 else enabled)
               in (case scan_with_fallback rq accounts lb1 of
                     (Inl err, lb2) \<Rightarrow> (Inl err, lb2)
                   | (Inr (c, passed), lb2) \<Rightarrow>
                       if passed = [] then (Inl (empty_pool_error (rq_channel rq) c), lb2)
                       else (case selectAccountWithTracker (rq_now rq) pick counts passed lb2 of
                               (None, lb3) \<Rightarrow>
                                 (Inl (pool_error (rq_channel rq) '' (all matching accounts are at their concurrency limit)''), lb3)
                             | (Some account, lb3) \<Rightarrow> (Inr account, lb3)))))"

section \<open>The least loaded accounts\<close>

text \<open>The positions below \<open>n\<close> that satisfy \<open>ok\<close> and have a smallest value of \<open>f\<close> among these.\<close>

definition minimal :: "(nat \<Rightarrow> bool) \<Rightarrow> (nat \<Rightarrow> 'a :: linorder) \<Rightarrow> nat \<Rightarrow> nat set" where
  "minimal ok f n = {j. j < n \<and> ok j \<and> (\<forall>j' < n. ok j' \<longrightarrow> f j \<le> f j')}"

lemma minimal_Suc_skip: "\<not> ok n \<Longrightarrow> minimal ok f (Suc n) = minimal ok f n"
  by (auto simp: minimal_def less_Suc_eq)

lemma minimal_Suc_first: "ok n \<Longrightarrow> (\<And>j. j < n \<Longrightarrow> \<not> ok j) \<Longrightarrow> minimal ok f (Suc n) = {n}"
  by (auto simp: minimal_def less_Suc_eq)

lemma minimal_Suc:
  assumes "ok n" "j \<in> minimal ok f n"
  shows "minimal ok f (Suc n) =
    (if f n < f j then {n} else if f n = f j then insert n (minimal ok f n) else minimal ok f n)"
  using assms by (auto simp: minimal_def less_Suc_eq) (metis leD order_trans)+

lemma minimal_empty: "minimal ok f n = {} \<Longrightarrow> j < n \<Longrightarrow> \<not> ok j"
proof (induction n arbitrary: j)
  case (Suc n)
  show ?case
  proof (cases "minimal ok f n = {}")
    case True
    with Suc.IH have none: "\<And>j. j < n \<Longrightarrow> \<not> ok j" by blast
    with Suc.prems(1) have "\<not> ok n" using minimal_Suc_first [of ok n f] by auto
    with none Suc.prems(2) show ?thesis by (auto simp: less_Suc_eq)
  next
    case False
    then obtain i where i: "i \<in> minimal ok f n" by blast
    have "minimal ok f (Suc n) \<noteq> {}"
    proof (cases "ok n")
      case True
      with minimal_Suc [where ok = ok and n = n and f = f, of i] i show ?thesis by auto
    next
      case False
      with minimal_Suc_skip [of ok n f] i show ?thesis by auto
    qed
    with Suc.prems(1) show ?thesis by simp
  qed
qed simp

definition tracks_minimal :: "(nat \<Rightarrow> bool) \<Rightarrow> (nat \<Rightarrow> 'a :: linorder) \<Rightarrow> nat \<Rightarrow> nat list \<Rightarrow> 'a \<Rightarrow> bool" where
  "tracks_minimal ok f n best m \<longleftrightarrow> set best = minimal ok f n \<and> (\<forall>j \<in> set best. f j = m)"

lemma tracks_step:
  assumes "tracks_minimal ok f n best m"
  shows "\<not> ok n \<Longrightarrow> tracks_minimal ok f (Suc n) best m"
    "ok n \<Longrightarrow> best = [] \<or> f n < m \<Longrightarrow> tracks_minimal ok f (Suc n) [n] (f n)"
    "ok n \<Longrightarrow> \<not> (best = [] \<or> f n < m) \<Longrightarrow> f n = m \<Longrightarrow> tracks_minimal ok f (Suc n) (best @ [n]) m"
    "ok n \<Longrightarrow> \<not> (best = [] \<or> f n < m) \<Longrightarrow> f n \<noteq> m \<Longrightarrow> tracks_minimal ok f (Suc n) best m"
proof -
  have best: "set best = minimal ok f n" "\<And>j. j \<in> set best \<Longrightarrow> f j = m"
    using assms by (auto simp: tracks_minimal_def)
  have some: "minimal ok f (Suc n) =
      (if f n < m then {n} else if f n = m then insert n (set best) else set best)" if "ok n" "best \<noteq> []"
  proof -
    from that(2) obtain j where "j \<in> set best" by (cases best) auto
    with best minimal_Suc [where ok = ok and n = n and f = f, of j] that(1) show ?thesis by auto
  qed
  show "\<not> ok n \<Longrightarrow> tracks_minimal ok f (Suc n) best m"
    using best by (simp add: tracks_minimal_def minimal_Suc_skip)
  show "ok n \<Longrightarrow> best = [] \<or> f n < m \<Longrightarrow> tracks_minimal ok f (Suc n) [n] (f n)"
  proof (cases "best = []")
    case True
    assume "ok n"
    with True best minimal_Suc_first [of ok n f] minimal_empty [of ok f n] show ?thesis
      by (simp add: tracks_minimal_def)
  next
    case False
    assume "ok n" "best = [] \<or> f n < m"
    with False some show ?thesis by (simp add: tracks_minimal_def)
  qed
  show "ok n \<Longrightarrow> \<not> (best = [] \<or> f n < m) \<Longrightarrow> f n = m \<Longrightarrow> tracks_minimal ok f (Suc n) (best @ [n]) m"
    "ok n \<Longrightarrow> \<not> (best = [] \<or> f n < m) \<Longrightarrow> f n \<noteq> m \<Longrightarrow> tracks_minimal ok f (Suc n) best m"
    using some best(2) by (auto simp: tracks_minimal_def)
qed

abbreviation usable :: "(int \<Rightarrow> int) \<Rightarrow> Account list \<Rightarrow> nat \<Rightarrow> bool" where
  "usable counts xs j \<equiv> \<not> at_limit counts (xs ! j)"

lemma best_positions_tracks:
  assumes "tracks_minimal (usable counts xs) (\<lambda>j. score counts (xs ! j)) i best m" "i \<le> length xs"
  shows "set (best_positions counts i (drop i xs) best m) =
    minimal (usable counts xs) (\<lambda>j. score counts (xs ! j)) (length xs)"
  using assms
proof (induction "drop i xs" arbitrary: i best m)
  case Nil
  then show ?case by (simp add: tracks_minimal_def)
next
  case (Cons acc rest)
  then have i: "i < length xs" by (metis drop_eq_Nil2 list.distinct(1) not_le)
  with Cons.hyps(2) have rest: "rest = drop (Suc i) xs" by (metis Cons_nth_drop_Suc list.inject)
  note IH = Cons.hyps(1) [OF rest, unfolded rest]
  note step = tracks_step [OF Cons.prems(1)]
  have "drop i xs = xs ! i # drop (Suc i) xs" using i by (simp add: Cons_nth_drop_Suc)
  with IH step i show ?case by (simp add: Let_def)
qed

lemma best_positions_set:
  "set (best_positions counts 0 xs [] m) =
     minimal (usable counts xs) (\<lambda>j. score counts (xs ! j)) (length xs)"
  using best_positions_tracks [of counts xs 0 "[]" m] by (simp add: tracks_minimal_def minimal_def)

abbreviation seen_at :: "Account list \<Rightarrow> (int \<times> time) list \<Rightarrow> nat \<Rightarrow> time option" where
  "seen_at accounts seen i \<equiv> map_of seen (ID (accounts ! i))"

definition tracks_coldest :: "(nat \<Rightarrow> time option) \<Rightarrow> nat set \<Rightarrow> nat list \<Rightarrow> time \<Rightarrow> bool" where
  "tracks_coldest tm S coldest oldest \<longleftrightarrow> set coldest \<subseteq> S \<and> (\<forall>i \<in> set coldest. tm i = Some oldest) \<and>
     (\<forall>j \<in> S. \<forall>t. tm j = Some t \<longrightarrow> coldest \<noteq> [] \<and> oldest \<le> t)"

lemma coldest_positions_spec:
  assumes "tracks_coldest (seen_at xs seen) S coldest oldest"
  shows "fst (coldest_positions xs seen best unseen coldest oldest) =
      unseen @ filter (\<lambda>i. seen_at xs seen i = None) best \<and>
    (\<exists>oldest'. tracks_coldest (seen_at xs seen) (S \<union> set best)
       (snd (coldest_positions xs seen best unseen coldest oldest)) oldest')"
  using assms
proof (induction best arbitrary: S unseen coldest oldest)
  case Nil
  then show ?case by auto
next
  case (Cons i best)
  have S: "S \<union> set (i # best) = insert i S \<union> set best" by auto
  show ?case
  proof (cases "seen_at xs seen i")
    case None
    then have "tracks_coldest (seen_at xs seen) (insert i S) coldest oldest"
      using Cons.prems by (auto simp: tracks_coldest_def)
    from Cons.IH [OF this, of "unseen @ [i]"] None show ?thesis unfolding S by simp
  next
    case (Some t)
    have step:
      "coldest = [] \<or> t < oldest \<Longrightarrow> tracks_coldest (seen_at xs seen) (insert i S) [i] t"
      "\<not> (coldest = [] \<or> t < oldest) \<Longrightarrow> t = oldest \<Longrightarrow>
         tracks_coldest (seen_at xs seen) (insert i S) (coldest @ [i]) oldest"
      "\<not> (coldest = [] \<or> t < oldest) \<Longrightarrow> t \<noteq> oldest \<Longrightarrow>
         tracks_coldest (seen_at xs seen) (insert i S) coldest oldest"
      using Cons.prems Some by (auto simp: tracks_coldest_def)
    show ?thesis
      using Some Cons.IH [OF step(1), of unseen] Cons.IH [OF step(2), of unseen] Cons.IH [OF step(3), of unseen]
      unfolding S by (cases "coldest = [] \<or> t < oldest"; cases "t = oldest") simp_all
  qed
qed

text \<open>\<open>a\<close> is a fair choice among \<open>xs\<close>: under its limit, of least score, and of these never handed out
  before or handed out least recently.\<close>

definition fair_choice :: "(int \<Rightarrow> int) \<Rightarrow> (int \<rightharpoonup> time) \<Rightarrow> Account list \<Rightarrow> Account \<Rightarrow> bool" where
  "fair_choice counts seen xs a \<longleftrightarrow>
     a \<in> set xs \<and> \<not> at_limit counts a \<and>
     (\<forall>b \<in> set xs. \<not> at_limit counts b \<longrightarrow> score counts a \<le> score counts b) \<and>
     (\<forall>b \<in> set xs. \<not> at_limit counts b \<and> score counts b = score counts a \<longrightarrow>
        (case seen (ID a) of
           None \<Rightarrow> True
         | Some t \<Rightarrow> (case seen (ID b) of None \<Rightarrow> False | Some t' \<Rightarrow> t \<le> t')))"

lemma select_in_window_fair:
  assumes "\<And>n. 0 < n \<Longrightarrow> pick n < n"
  shows "case select_in_window now pick counts xs lb of
      (None, lb') \<Rightarrow> lb' = lb \<and> (\<forall>a \<in> set xs. at_limit counts a)
    | (Some a, lb') \<Rightarrow> fair_choice counts (map_of (lastSelected lb)) xs a \<and>
        lb' = lb\<lparr>lastSelected := AList.update (ID a) now (lastSelected lb)\<rparr>"
proof (cases "best_positions counts 0 xs [] (-1) = []")
  case True
  then have "minimal (usable counts xs) (\<lambda>j. score counts (xs ! j)) (length xs) = {}"
    using best_positions_set [of counts xs "-1"] by simp
  then have "\<forall>a \<in> set xs. at_limit counts a"
    using minimal_empty [of "usable counts xs" _ "length xs"] by (auto simp: in_set_conv_nth)
  with True show ?thesis by (simp add: select_in_window_def Let_def)
next
  case False
  let ?best = "best_positions counts 0 xs [] (-1)"
  let ?tm = "seen_at xs (lastSelected lb)"
  obtain unseen coldest where uc: "coldest_positions xs (lastSelected lb) ?best [] [] 0 = (unseen, coldest)"
    by fastforce
  have "tracks_coldest ?tm {} [] 0" by (simp add: tracks_coldest_def)
  from coldest_positions_spec [OF this, of ?best "[]"] uc obtain oldest where
    u: "unseen = filter (\<lambda>i. ?tm i = None) ?best" and
    c: "tracks_coldest ?tm (set ?best) coldest oldest" by auto
  define pool where "pool = (if unseen \<noteq> [] then unseen else if coldest \<noteq> [] then coldest else ?best)"
  define i where "i = pool ! pick (length pool)"
  have "pool \<noteq> []" using False by (simp add: pool_def)
  then have i: "i \<in> set pool" using assms [of "length pool"] by (simp add: i_def)
  have "coldest \<noteq> []" if "unseen = []"
  proof -
    from False obtain j where j: "j \<in> set ?best" by (cases ?best) auto
    with that u obtain t where "?tm j = Some t" by (auto simp: filter_empty_conv)
    with c j show ?thesis by (auto simp: tracks_coldest_def)
  qed
  then have tm: "i \<in> set ?best \<and> (\<forall>j \<in> set ?best.
      case ?tm i of None \<Rightarrow> True | Some t \<Rightarrow> (case ?tm j of None \<Rightarrow> False | Some t' \<Rightarrow> t \<le> t'))"
    using i u c by (auto simp: pool_def tracks_coldest_def filter_empty_conv split: if_splits option.splits)
  have best: "j \<in> set ?best \<longleftrightarrow> j < length xs \<and> usable counts xs j \<and>
      (\<forall>j' < length xs. usable counts xs j' \<longrightarrow> score counts (xs ! j) \<le> score counts (xs ! j'))" for j
    using best_positions_set [of counts xs "-1"] by (auto simp: minimal_def)
  have fair: "fair_choice counts (map_of (lastSelected lb)) xs (xs ! i)"
    unfolding fair_choice_def
  proof (intro conjI ballI impI)
    show "xs ! i \<in> set xs" "\<not> at_limit counts (xs ! i)" using tm best by auto
    fix b assume b: "b \<in> set xs"
    then obtain j where j: "b = xs ! j" "j < length xs" by (auto simp: in_set_conv_nth)
    show "score counts (xs ! i) \<le> score counts b" if "\<not> at_limit counts b"
      using that tm best j by auto
    assume eq: "\<not> at_limit counts b \<and> score counts b = score counts (xs ! i)"
    then have "j \<in> set ?best" using tm best [of i] best [of j] j by auto
    with tm j show "case map_of (lastSelected lb) (ID (xs ! i)) of None \<Rightarrow> True
        | Some t \<Rightarrow> (case map_of (lastSelected lb) (ID b) of None \<Rightarrow> False | Some t' \<Rightarrow> t \<le> t')" by auto
  qed
  have "select_in_window now pick counts xs lb =
      (Some (xs ! i), lb\<lparr>lastSelected := AList.update (ID (xs ! i)) now (lastSelected lb)\<rparr>)"
    using False uc by (simp add: select_in_window_def Let_def pool_def [symmetric] i_def [symmetric])
  with fair show ?thesis by simp
qed

section \<open>All windows of a pool\<close>

lemma concat_chunks: "0 < n \<Longrightarrow> concat (chunks n xs) = xs"
  by (induction n xs rule: chunks.induct) (subst chunks.simps, auto)

lemma set_rotated: "0 < length xs \<Longrightarrow> set (map (\<lambda>i. xs ! ((start + i) mod length xs)) [0..<length xs]) = set xs"
proof -
  assume n: "0 < length xs"
  have "\<exists>i < length xs. (start + i) mod length xs = j" if "j < length xs" for j
  proof (intro exI conjI)
    let ?i = "(j + (length xs - start mod length xs)) mod length xs"
    show "?i < length xs" using n by simp
    have "(start + ?i) mod length xs = (start mod length xs + (j + (length xs - start mod length xs))) mod length xs"
      by (simp add: mod_simps)
    also have "start mod length xs + (j + (length xs - start mod length xs)) = j + length xs"
      using mod_less_divisor [OF n, of start] by linarith
    finally show "(start + ?i) mod length xs = j" using that by simp
  qed
  then have "set xs \<subseteq> (\<lambda>i. xs ! ((start + i) mod length xs)) ` {0..<length xs}"
    by (fastforce simp: in_set_conv_nth image_iff)
  with n show ?thesis by auto
qed

lemma select_windows_spec:
  assumes "\<And>n. 0 < n \<Longrightarrow> pick n < n"
  shows "case fst (select_windows now pick counts k ws lb) of
      None \<Rightarrow> (\<forall>j < length ws. \<forall>a \<in> set (ws ! j). at_limit (counts (k + j)) a)
    | Some a \<Rightarrow> \<exists>j < length ws. fair_choice (counts (k + j)) (map_of (lastSelected lb)) (ws ! j) a"
proof (induction ws arbitrary: k)
  case (Cons w ws)
  note fair = select_in_window_fair [OF assms, where counts = "counts k" and now = now and xs = w and lb = lb]
  show ?case
  proof (cases "fst (select_in_window now pick (counts k) w lb)")
    case None
    with fair have "select_in_window now pick (counts k) w lb = (None, lb)" "\<forall>a \<in> set w. at_limit (counts k) a"
      by (auto split: prod.splits)
    with Cons [of "k + 1"] show ?thesis
      by (auto simp: All_less_Suc2 Ex_less_Suc2 split: option.splits)
  next
    case (Some a)
    with fair have "fair_choice (counts k) (map_of (lastSelected lb)) w a" by (auto split: prod.splits)
    with Some show ?thesis by (auto split: prod.splits option.splits intro!: exI [of _ 0])
  qed
qed simp

lemma select_with_tracker_spec:
  assumes "\<And>n. 0 < n \<Longrightarrow> pick n < n"
  shows "case fst (selectAccountWithTracker now pick (\<lambda>_. counts) xs lb) of
      None \<Rightarrow> \<forall>a \<in> set xs. at_limit counts a
    | Some a \<Rightarrow> a \<in> set xs \<and> \<not> at_limit counts a"
proof (cases "length xs > accountScanWindow")
  case True
  then have n: "0 < length xs" by linarith
  obtain start lb' where r: "rotateScanCursor (length xs) lb = (start, lb')" by fastforce
  define ws where "ws = chunks accountScanWindow (map (\<lambda>i. xs ! ((start + i) mod length xs)) [0..<length xs])"
  have "set (concat ws) = set xs"
    unfolding ws_def by (subst concat_chunks) (simp_all only: set_rotated [OF n] accountScanWindow_def zero_less_numeral)
  then have ws: "a \<in> set xs \<longleftrightarrow> (\<exists>w \<in> set ws. a \<in> set w)" for a by auto
  have sel: "selectAccountWithTracker now pick (\<lambda>_. counts) xs lb = select_windows now pick (\<lambda>_. counts) 0 ws lb'"
    using True r by (auto simp: selectAccountWithTracker_def ws_def)
  note spec = select_windows_spec [OF assms, where now = now and counts = "\<lambda>_. counts" and k = 0 and ws = ws and lb = lb']
  show ?thesis
  proof (cases "fst (select_windows now pick (\<lambda>_. counts) 0 ws lb')")
    case None
    with spec have "\<forall>w \<in> set ws. \<forall>a \<in> set w. at_limit counts a" by (simp add: all_set_conv_all_nth)
    with ws have "\<forall>a \<in> set xs. at_limit counts a" by blast
    with None show ?thesis unfolding sel by simp
  next
    case (Some a)
    with spec obtain j where "j < length ws" "fair_choice counts (map_of (lastSelected lb')) (ws ! j) a" by auto
    then have "\<exists>w \<in> set ws. a \<in> set w" "\<not> at_limit counts a"
      using nth_mem by (auto simp: fair_choice_def)
    with Some show ?thesis unfolding sel using ws by simp
  qed
next
  case False
  show ?thesis
  proof (cases "xs = []")
    case True
    then show ?thesis by (simp add: selectAccountWithTracker_def)
  next
    case xs: False
    with False have sel: "selectAccountWithTracker now pick (\<lambda>_. counts) xs lb = select_in_window now pick counts xs lb"
      by (simp add: selectAccountWithTracker_def)
    show ?thesis
      unfolding sel using select_in_window_fair [OF assms, where now = now and counts = counts and xs = xs and lb = lb]
      by (cases "select_in_window now pick counts xs lb"; cases "fst (select_in_window now pick counts xs lb)")
        (simp_all add: fair_choice_def)
  qed
qed

section \<open>What a scan collects\<close>

definition admits :: "request \<Rightarrow> Account \<Rightarrow> bool" where
  "admits rq acc \<longleftrightarrow> wanted rq acc \<and> rejected rq acc = None \<and>
     fst (availability (rq_now rq) (rq_claim rq (ID acc)) acc)"

definition served :: "request \<Rightarrow> Account \<Rightarrow> Account" where
  "served rq acc =
     (if snd (availability (rq_now rq) (rq_claim rq (ID acc)) acc) then resetAccountRuntimeState acc else acc)"

lemma availability_clear: "snd (availability now claimed acc) \<Longrightarrow> fst (availability now claimed acc)"
proof -
  have "availability now claimed acc \<in> {(True, False), (False, False), (True, True)}"
    unfolding availability_def Let_def by (intro if_memI) simp_all
  then show "snd (availability now claimed acc) \<Longrightarrow> fst (availability now claimed acc)" by auto
qed

lemma isAccountAvailable_fst:
  "fst (isAccountAvailable (rq_now rq) (rq_claim rq) acc lb) = fst (availability (rq_now rq) (rq_claim rq (ID acc)) acc)"
  "fst (snd (isAccountAvailable (rq_now rq) (rq_claim rq) acc lb)) = served rq acc"
proof -
  obtain av clear where "availability (rq_now rq) (rq_claim rq (ID acc)) acc = (av, clear)" by fastforce
  then show
    "fst (isAccountAvailable (rq_now rq) (rq_claim rq) acc lb) = fst (availability (rq_now rq) (rq_claim rq (ID acc)) acc)"
    "fst (snd (isAccountAvailable (rq_now rq) (rq_claim rq) acc lb)) = served rq acc"
    by (cases clear; simp add: isAccountAvailable_def served_def clearAccountStatus_def Let_def)+
qed

definition matched :: "request \<Rightarrow> Account \<Rightarrow> bool" where
  "matched rq acc \<longleftrightarrow> wanted rq acc \<and> rejected rq acc = None"

definition turned_away :: "request \<Rightarrow> Account \<Rightarrow> bool" where
  "turned_away rq acc \<longleftrightarrow> matched rq acc \<and> \<not> fst (availability (rq_now rq) (rq_claim rq (ID acc)) acc)"

abbreviation count_of :: "('a \<Rightarrow> bool) \<Rightarrow> 'a list \<Rightarrow> int" where
  "count_of P xs \<equiv> int (length (filter P xs))"

text \<open>The counters of a pass, each as the number of candidates it stands for.\<close>

definition counts_of :: "request \<Rightarrow> Account list \<Rightarrow> scan_counts" where
  "counts_of rq xs =
     \<lparr>channelCandidates = count_of (wanted rq) xs,
      channelMatched = count_of (matched rq) xs,
      rateLimitedUnavailable = count_of (\<lambda>a. turned_away rq a \<and> trim_space (StatusCode a) = ''429'') xs,
      allowanceParked = count_of (\<lambda>a. turned_away rq a \<and> trim_space (StatusCode a) = ''402'') xs,
      filterWithheld = count_of (\<lambda>a. wanted rq a \<and> rejected rq a \<noteq> None) xs,
      restrictedUnavailable = count_of (\<lambda>a. turned_away rq a \<and> rq_now rq < WorkBuddyRestrictionUntil (Some a)) xs,
      filterThrottled = count_of (\<lambda>a. wanted rq a \<and> rejected rq a = Some ErrModelThrottled) xs,
      filterUnavailable = count_of (\<lambda>a. wanted rq a \<and> rejected rq a = Some ErrModelUnavailable) xs\<rparr>"

definition add_counts :: "scan_counts \<Rightarrow> scan_counts \<Rightarrow> scan_counts" where
  "add_counts c d =
     \<lparr>channelCandidates = channelCandidates c + channelCandidates d,
      channelMatched = channelMatched c + channelMatched d,
      rateLimitedUnavailable = rateLimitedUnavailable c + rateLimitedUnavailable d,
      allowanceParked = allowanceParked c + allowanceParked d,
      filterWithheld = filterWithheld c + filterWithheld d,
      restrictedUnavailable = restrictedUnavailable c + restrictedUnavailable d,
      filterThrottled = filterThrottled c + filterThrottled d,
      filterUnavailable = filterUnavailable c + filterUnavailable d\<rparr>"

lemma scan_loop_result:
  assumes "fst (scan_loop rq cs c passed k lb) = Inr (c', out)"
  shows "out = passed @ map (served rq) (filter (admits rq) cs) \<and> c' = add_counts c (counts_of rq cs)"
  using assms
proof (induction cs arbitrary: c passed k lb)
  case Nil
  then show ?case by (simp add: add_counts_def counts_of_def)
next
  case (Cons acc cs)
  then have ctx: "rq_ctx rq k = None" by (auto split: option.splits)
  show ?case
  proof (cases "wanted rq acc")
    case False
    with Cons ctx show ?thesis by (simp add: admits_def counts_of_def matched_def turned_away_def add_counts_def)
  next
    case wanted: True
    show ?thesis
    proof (cases "rejected rq acc")
      case (Some r)
      with Cons.prems ctx wanted have
        "fst (scan_loop rq cs (count_reject r (c\<lparr>channelCandidates := channelCandidates c + 1\<rparr>)) passed (k + 1) lb) =
           Inr (c', out)"
        by (simp add: Let_def)
      from Cons.IH [OF this] Some wanted show ?thesis
        by (cases r) (simp_all add: admits_def counts_of_def matched_def turned_away_def add_counts_def
            count_reject_def Let_def)
    next
      case None
      obtain av acc' lb' where a: "isAccountAvailable (rq_now rq) (rq_claim rq) acc lb = (av, acc', lb')"
        by (metis prod_cases3)
      with isAccountAvailable_fst [of rq acc lb] have
        av: "av = fst (availability (rq_now rq) (rq_claim rq (ID acc)) acc)" "acc' = served rq acc" by auto
      show ?thesis
      proof (cases av)
        case True
        with Cons.prems ctx wanted None a have
          "fst (scan_loop rq cs (c\<lparr>channelCandidates := channelCandidates c + 1, channelMatched := channelMatched c + 1\<rparr>)
            (passed @ [served rq acc]) (k + 1) lb') = Inr (c', out)"
          by (simp add: Let_def av(2))
        from Cons.IH [OF this] True wanted None av show ?thesis
          by (simp add: admits_def counts_of_def matched_def turned_away_def add_counts_def)
      next
        case False
        then have "served rq acc = acc" using availability_clear av by (auto simp: served_def)
        with False Cons.prems ctx wanted None a av have
          "fst (scan_loop rq cs (count_unavailable (rq_now rq) acc
             (c\<lparr>channelCandidates := channelCandidates c + 1, channelMatched := channelMatched c + 1\<rparr>))
            passed (k + 1) lb') = Inr (c', out)"
          by (simp add: Let_def)
        from Cons.IH [OF this] False wanted None av show ?thesis
          by (simp add: admits_def counts_of_def matched_def turned_away_def add_counts_def
              count_unavailable_def Let_def)
      qed
    qed
  qed
qed

section \<open>The channel index\<close>

definition on_channel :: "string \<Rightarrow> Account \<Rightarrow> bool" where
  "on_channel key acc \<longleftrightarrow> key \<noteq> [] \<and> (to_lower (AccountType acc) = key \<or> to_lower (AgentMode acc) = key)"

definition index_lookup :: "(string \<times> nat list) list \<Rightarrow> string \<Rightarrow> nat list" where
  "index_lookup index key = (case map_of index key of Some is \<Rightarrow> is | None \<Rightarrow> [])"

lemma index_lookup_entry:
  "index_lookup (index_entry k i index) key = index_lookup index key @ (if k = key then [i] else [])"
  by (simp add: index_lookup_def index_entry_def update_conv')

lemma channel_index_lookup:
  "index_lookup (channel_index i accs index) key =
     index_lookup index key @ filter (\<lambda>j. on_channel key (accs ! (j - i))) [i..<i + length accs]"
proof (induction i accs index rule: channel_index.induct)
  case (1 i index)
  then show ?case by simp
next
  case (2 i acc rest index)
  define rest_of where "rest_of = filter (\<lambda>j. on_channel key (rest ! (j - Suc i))) [Suc i..<i + length (acc # rest)]"
  have tail: "filter (\<lambda>j. on_channel key ((acc # rest) ! (j - i))) [Suc i..<i + length (acc # rest)] = rest_of"
    unfolding rest_of_def by (intro filter_cong) (auto simp: nth_Cons' Suc_le_eq)
  have "[i..<i + length (acc # rest)] = i # [Suc i..<i + length (acc # rest)]"
    by (rule upt_conv_Cons) simp
  then have split: "filter (\<lambda>j. on_channel key ((acc # rest) ! (j - i))) [i..<i + length (acc # rest)] =
      (if on_channel key acc then [i] else []) @ rest_of"
    using tail by simp
  show ?case
    unfolding split using 2 [OF refl refl refl refl]
    by (auto simp: Let_def index_lookup_entry on_channel_def rest_of_def)
qed

lemma indexed_accounts_filter:
  assumes "cachedByChannel lb = Some (channel_index 0 (cachedAccounts lb) [])" "channel \<noteq> []"
  shows "indexed_accounts channel accounts lb = filter (on_channel (to_lower channel)) (cachedAccounts lb)"
proof -
  have "indexed_accounts channel accounts lb =
      map (\<lambda>i. cachedAccounts lb ! i) (index_lookup (channel_index 0 (cachedAccounts lb) []) (to_lower channel))"
    using assms(1) by (auto simp: indexed_accounts_def index_lookup_def split: option.splits)
  also have "\<dots> = map (\<lambda>i. cachedAccounts lb ! i)
      (filter (\<lambda>j. on_channel (to_lower channel) (cachedAccounts lb ! j)) [0..<length (cachedAccounts lb)])"
    by (simp add: channel_index_lookup) (simp add: index_lookup_def)
  also have "\<dots> = filter (on_channel (to_lower channel)) (cachedAccounts lb)"
    by (simp flip: filter_map [unfolded comp_def] add: map_nth comp_def)
  finally show ?thesis .
qed

lemma wanted_on_channel: "wanted rq acc \<Longrightarrow> rq_channel rq \<noteq> [] \<Longrightarrow> on_channel (to_lower (rq_channel rq)) acc"
  by (auto simp: wanted_def on_channel_def equal_fold_def)

section \<open>Windows of a scan\<close>

lemma scan_window_subset: "set (fst (scan_window xs lb)) \<subseteq> set xs"
  by (auto simp: scan_window_def split: prod.splits)
    (metis length_pos_if_in_set mod_less_divisor nth_mem not_less_zero gr_zeroI)

lemma scan_result:
  assumes "fst (scan rq cs k lb) = Inr (c, out)"
  shows "out = map (served rq) (filter (admits rq) cs) \<and> c = counts_of rq cs"
proof -
  have "fst (scan_loop rq cs no_counts [] (k + 1) lb) = Inr (c, out)"
    using assms by (auto simp: scan_def split: option.splits)
  from scan_loop_result [OF this] show ?thesis by (simp add: add_counts_def no_counts_def counts_of_def)
qed

lemma scan_with_fallback_result:
  assumes "fst (scan_with_fallback rq xs lb) = Inr (c, out)"
  shows "(\<exists>cs. set cs \<subseteq> set xs \<and> out = map (served rq) (filter (admits rq) cs)) \<and>
    (out = [] \<longrightarrow> \<not> (\<exists>a \<in> set xs. admits rq a) \<and> c = counts_of rq xs)"
proof -
  obtain scanned lb1 where w: "scan_window xs lb = (scanned, lb1)" by fastforce
  obtain first k lb2 where s: "scan rq scanned 1 lb1 = (first, k, lb2)" by (metis prod_cases3)
  have sub: "set scanned \<subseteq> set xs" using scan_window_subset [of xs lb] w by simp
  show ?thesis
  proof (cases first)
    case (Inl err)
    with assms w s show ?thesis by (simp add: scan_with_fallback_def)
  next
    case (Inr r)
    then obtain c1 out1 where first: "first = Inr (c1, out1)" by (cases r) auto
    with s have r1: "out1 = map (served rq) (filter (admits rq) scanned) \<and> c1 = counts_of rq scanned"
      using scan_result [of rq scanned 1 lb1] by simp
    show ?thesis
    proof (cases "out1 = [] \<and> length scanned \<noteq> length xs")
      case True
      with assms w s first have "fst (scan rq xs k lb2) = Inr (c, out)"
        by (simp add: scan_with_fallback_def split: prod.splits)
      from scan_result [OF this] show ?thesis by (auto simp: filter_empty_conv)
    next
      case False
      with assms w s first have eq: "c = c1" "out = out1" by (auto simp: scan_with_fallback_def)
      have "scanned = xs" if "length scanned = length xs"
        using that w by (auto simp: scan_window_def split: if_splits prod.splits)
      with False eq r1 sub show ?thesis by (auto simp: filter_empty_conv)
    qed
  qed
qed

section \<open>The message of an empty pool and its classification\<close>

definition select_phrases :: "string list" where
  "select_phrases =
     [''code='', ''exhausted their allowance'', ''cooling down for the requested model'',
      ''not covered by any matching account'' @ bytes [39] @ ''s plan'', ''cooling down on some matching accounts'',
      ''rate-limited or cooling down'', ''concurrency limit'', ''is not available in the current'', ''account pool'']"

definition phrases_in :: "string \<Rightarrow> bool list" where
  "phrases_in s = map (contains (to_lower s)) select_phrases"

lemma restricted_code_contains: "restricted_code_from opened s \<Longrightarrow> contains s ''code=11140''"
  by (induction opened s rule: restricted_code_from.induct) auto

lemma restricted_code: "IsWorkBuddyRestricted s \<Longrightarrow> contains (to_lower s) ''code=''"
proof -
  assume "IsWorkBuddyRestricted s"
  then have "contains (to_lower s) ''code=11140''"
    by (auto simp: IsWorkBuddyRestricted_def workBuddyRestrictedCode_def Let_def intro: restricted_code_contains)
  moreover have "contains ''code=11140'' ''code=''" by code_simp
  ultimately show ?thesis by (rule contains_trans)
qed

lemma no_last_error:
  "\<not> IsWorkBuddyRestricted []" "\<not> IsCreditExhaustion []" "\<not> IsClineInferenceCap []"
  "\<not> contains [] ''not subscribed to required model plan''" "\<not> contains [] ''model cooldown''"
  "Category (ClassifyUpstreamError []) = ''unknown''"
  by code_simp+

lemma classify_by_phrases:
  assumes "phrases_in e = [False, allowance, cooling, uncovered, some_cooling, throttled, busy, absent, in_pool]"
  shows "ClassifyPoolExhaustion (Some e) [] =
    (if allowance then pool_answer ''quota_exhausted'' PoolAllowanceMessage
     else if cooling then pool_answer ''rate_limit'' PoolModelCooldownMessage
     else if uncovered then pool_answer ''model_unavailable'' PoolModelUnavailableMessage
     else if some_cooling then pool_answer ''rate_limit'' PoolModelCooldownMessage
     else if throttled then pool_answer ''rate_limit'' PoolRateLimitedMessage
     else if busy then pool_answer ''rate_limit'' PoolBusyMessage
     else if absent \<and> in_pool then pool_answer ''model_unavailable'' PoolModelUnavailableMessage
     else pool_answer [] [])"
proof -
  have "\<not> IsWorkBuddyRestricted (to_lower e)"
    using assms restricted_code [of "to_lower e"] by (auto simp: phrases_in_def select_phrases_def)
  then show ?thesis
    using assms no_last_error
    unfolding ClassifyPoolExhaustion_def Let_def phrases_in_def select_phrases_def
    by (simp cong: if_cong split del: if_split)
qed

definition known_channels :: "string set" where
  "known_channels = {''workbuddy'', ''cline'', ''grok''}"

lemma phrase_facts:
  "list_all (\<lambda>p. p \<noteq> [] \<and> CHR '':'' \<notin> set p \<and> CHR ''('' \<notin> set p \<and> CHR '')'' \<notin> set p \<and>
     set ''0123456789'' \<inter> set p = {} \<and>
     \<not> contains ''no enabled accounts available for channel'' p \<and> \<not> contains '' workbuddy '' p \<and>
     \<not> contains '' cline '' p \<and> \<not> contains '' grok '' p \<and> \<not> contains '' workbuddy'' p \<and>
     \<not> contains '' cline'' p \<and> \<not> contains '' grok'' p) select_phrases"
  by code_simp

lemma known_channel_lower: "ch \<in> known_channels \<Longrightarrow> to_lower ch = ch"
proof -
  have "to_lower ''workbuddy'' = ''workbuddy''" "to_lower ''cline'' = ''cline''" "to_lower ''grok'' = ''grok''"
    by code_simp+
  then show "ch \<in> known_channels \<Longrightarrow> to_lower ch = ch" by (auto simp: known_channels_def)
qed

lemma pool_error_lower:
  assumes "ch \<in> known_channels"
  shows "to_lower (pool_error ch ('' ('' @ r @ '')'')) =
      ''no enabled accounts available for channel'' @ CHR '':'' # ('' '' @ ch @ '' '') @ CHR ''('' # (to_lower r @ [CHR '')''])"
    and "to_lower (pool_error ch []) = ''no enabled accounts available for channel'' @ CHR '':'' # ('' '' @ ch)"
proof -
  have *: "to_lower ''no enabled accounts available for channel: '' = ''no enabled accounts available for channel: ''"
    "to_lower '' ('' = '' (''" "to_lower '')'' = '')''"
    by code_simp+
  show "to_lower (pool_error ch ('' ('' @ r @ '')'')) =
      ''no enabled accounts available for channel'' @ CHR '':'' # ('' '' @ ch @ '' '') @ CHR ''('' # (to_lower r @ [CHR '')''])"
    "to_lower (pool_error ch []) = ''no enabled accounts available for channel'' @ CHR '':'' # ('' '' @ ch)"
    by (simp_all only: pool_error_def to_lower_append * known_channel_lower [OF assms] to_lower_Nil) simp_all
qed

lemma pool_error_phrases:
  assumes "ch \<in> known_channels"
  shows "phrases_in (pool_error ch ('' ('' @ r @ '')'')) = phrases_in r"
    and "phrases_in (pool_error ch []) = replicate 9 False"
proof -
  have p: "contains (to_lower (pool_error ch ('' ('' @ r @ '')''))) p = contains (to_lower r) p"
    "\<not> contains (to_lower (pool_error ch [])) p" if "p \<in> set select_phrases" for p
  proof -
    have f: "p \<noteq> []" "CHR '':'' \<notin> set p" "CHR ''('' \<notin> set p" "CHR '')'' \<notin> set p"
      "\<not> contains ''no enabled accounts available for channel'' p"
      "\<not> contains ('' '' @ ch @ '' '') p" "\<not> contains ('' '' @ ch) p"
    proof -
      note facts = phrase_facts [unfolded list_all_iff, rule_format, OF that]
      show "p \<noteq> []" "CHR '':'' \<notin> set p" "CHR ''('' \<notin> set p" "CHR '')'' \<notin> set p"
        "\<not> contains ''no enabled accounts available for channel'' p"
        using facts by blast+
      from assms consider "ch = ''workbuddy''" | "ch = ''cline''" | "ch = ''grok''"
        unfolding known_channels_def by blast
      then show "\<not> contains ('' '' @ ch @ '' '') p" "\<not> contains ('' '' @ ch) p"
        using facts by (cases; simp only: append_Cons append_Nil; blast)+
    qed
    show "contains (to_lower (pool_error ch ('' ('' @ r @ '')''))) p = contains (to_lower r) p"
      unfolding pool_error_lower(1) [OF assms] contains_split [OF f(2)] contains_split [OF f(3)] contains_split [OF f(4)]
      using f(1,5,6) by (cases p) (simp_all del: contains.simps add: contains.simps(1))
    show "\<not> contains (to_lower (pool_error ch [])) p"
      unfolding pool_error_lower(2) [OF assms] contains_split [OF f(2)] using f(5,7) by blast
  qed
  then show "phrases_in (pool_error ch ('' ('' @ r @ '')'')) = phrases_in r" by (simp add: phrases_in_def)
  have "phrases_in (pool_error ch []) = map (\<lambda>_. False) select_phrases"
    unfolding phrases_in_def using p(2) by (intro map_cong) auto
  then show "phrases_in (pool_error ch []) = replicate 9 False"
    by (simp add: select_phrases_def numeral_eq_Suc)
qed

abbreviation (input) parens :: "string \<Rightarrow> string" where
  "parens r \<equiv> '' ('' @ r @ '')''"

lemma reason_phrases:
  "phrases_in (''the requested model is not covered by any matching account'' @ bytes [39] @ ''s plan'') =
     [False, False, False, True, False, False, False, False, False]"
  "phrases_in ''the requested model is cooling down on some matching accounts and not covered by the plans of the rest'' =
     [False, False, False, False, True, False, False, False, False]"
  "phrases_in ''all matching accounts are cooling down for the requested model'' =
     [False, False, True, False, False, False, False, False, False]"
  "phrases_in ''all matching accounts are rate-limited or cooling down'' =
     [False, False, False, False, False, True, False, False, False]"
  "phrases_in ''all matching accounts have exhausted their allowance'' =
     [False, True, False, False, False, False, False, False, False]"
  "phrases_in ''all matching accounts are at their concurrency limit'' =
     [False, False, False, False, False, False, True, False, False]"
  by code_simp+

lemma nat_digits_set: "set (nat_digits n) \<subseteq> set ''0123456789'' \<and> nat_digits n \<noteq> []"
proof (induction n rule: nat_digits.induct)
  case (1 n)
  have digit: "char_of (48 + k) \<in> set ''0123456789''" if "k < 10" for k :: nat
  proof -
    from that have "k \<in> set [0, 1, 2, 3, 4, 5, 6, 7, 8, 9]" by auto
    moreover have "list_all (\<lambda>k :: nat. char_of (48 + k) \<in> set ''0123456789'') [0, 1, 2, 3, 4, 5, 6, 7, 8, 9]"
      by code_simp
    ultimately show ?thesis unfolding list_all_iff by blast
  qed
  show ?case
  proof (cases "n < 10")
    case True
    with digit [OF True] show ?thesis by (subst nat_digits.simps, subst (2) nat_digits.simps) simp
  next
    case False
    with 1 digit [of "n mod 10"] show ?thesis by (subst nat_digits.simps, subst (2) nat_digits.simps) simp
  qed
qed

lemma digits_lower: "set ds \<subseteq> set ''0123456789'' \<Longrightarrow> to_lower ds = ds"
proof (induction ds)
  case (Cons d ds)
  have "list_all (\<lambda>d. lower_char d = d) ''0123456789''" by code_simp
  then have "lower_char d = d" using Cons.prems unfolding list_all_iff by auto
  with Cons show ?case by (simp add: to_lower_Cons)
qed simp

lemma mixed_phrases:
  assumes "0 \<le> x" "0 \<le> y"
  shows "phrases_in (''all matching accounts are rate-limited or cooling down: '' @ itoa x @ '' rate-limited, '' @
      itoa y @ '' parked for a spent allowance'') =
    [False, False, False, False, False, True, False, False, False]"
proof -
  let ?A = "''all matching accounts are rate-limited or cooling down: ''"
  let ?B = "'' rate-limited, ''" let ?C = "'' parked for a spent allowance''"
  have digits: "set (itoa n) \<subseteq> set ''0123456789'' \<and> itoa n \<noteq> []" if "0 \<le> n" for n
  proof -
    have "itoa n = nat_digits (nat n)" using that by (simp add: itoa_def)
    with nat_digits_set [of "nat n"] show ?thesis by (simp only: simp_thms)
  qed
  have low: "to_lower ?A = ?A" "to_lower ?B = ?B" "to_lower ?C = ?C" by code_simp+
  have "contains (to_lower (?A @ itoa x @ ?B @ itoa y @ ?C)) p =
      (contains ?A p \<or> contains ?B p \<or> contains ?C p)" if "p \<in> set select_phrases" for p
  proof -
    have p: "set ''0123456789'' \<inter> set p = {}" "p \<noteq> []"
      using phrase_facts [unfolded list_all_iff, rule_format, OF that] by blast+
    have d: "set (itoa x) \<inter> set p = {}" "set (itoa y) \<inter> set p = {}" "itoa x \<noteq> []" "itoa y \<noteq> []"
      using digits [OF assms(1)] digits [OF assms(2)] p(1) by blast+
    have "to_lower (?A @ itoa x @ ?B @ itoa y @ ?C) = ?A @ itoa x @ (?B @ itoa y @ ?C)"
      by (simp only: to_lower_append low digits_lower [OF digits [OF assms(1), THEN conjunct1]]
          digits_lower [OF digits [OF assms(2), THEN conjunct1]])
    then show ?thesis
      by (simp only: contains_split_all [OF d(1) d(3) p(2)] contains_split_all [OF d(2) d(4) p(2)])
  qed
  then have "phrases_in (?A @ itoa x @ ?B @ itoa y @ ?C) =
      map (\<lambda>p. contains ?A p \<or> contains ?B p \<or> contains ?C p) select_phrases"
    unfolding phrases_in_def by (intro map_cong refl)
  also have "\<dots> = [False, False, False, False, False, True, False, False, False]" by code_simp
  finally show ?thesis .
qed

lemma restricted_pool_error:
  "ClassifyPoolExhaustion (Some (pool_error ''workbuddy''
     '' (workbuddy API error: status=403, code=11140, message=all matching accounts are restricted)'')) [] =
   pool_answer ''account_restricted'' (CategoryMessage ''account_restricted'')"
proof -
  have "IsWorkBuddyRestricted (to_lower (pool_error ''workbuddy''
     '' (workbuddy API error: status=403, code=11140, message=all matching accounts are restricted)''))"
    by code_simp
  then show ?thesis unfolding ClassifyPoolExhaustion_def Let_def option.case by (simp only: simp_thms if_True)
qed

text \<open>The message of an empty pool of a known channel carries its cause through the shared classifier:
  a model no plan covers, a model that cools down, restricted accounts, throttled accounts, a spent
  allowance and a mixed pool each get their own category and text, and a pool without candidates
  gets none.\<close>

lemma empty_pool_classified:
  assumes "ch \<in> known_channels"
  shows "ClassifyPoolExhaustion (Some (empty_pool_error ch c)) [] =
     (if channelCandidates c > 0 \<and> channelMatched c = 0 then
        (if filterUnavailable c > 0 \<and> filterThrottled c = 0 \<and> filterUnavailable c = filterWithheld c
         then pool_answer ''model_unavailable'' PoolModelUnavailableMessage
         else pool_answer ''rate_limit'' PoolModelCooldownMessage)
      else if ch = ''workbuddy'' \<and> channelMatched c > 0 \<and> restrictedUnavailable c = channelMatched c
      then pool_answer ''account_restricted'' (CategoryMessage ''account_restricted'')
      else if channelMatched c > 0 \<and> rateLimitedUnavailable c = channelMatched c
      then pool_answer ''rate_limit'' PoolRateLimitedMessage
      else if channelMatched c > 0 \<and> allowanceParked c = channelMatched c
      then pool_answer ''quota_exhausted'' PoolAllowanceMessage
      else if allowanceParked c > 0 \<and> rateLimitedUnavailable c > 0
      then pool_answer ''rate_limit'' PoolRateLimitedMessage
      else pool_answer [] [])"
proof -
  have ch: "ch \<noteq> []" using assms by (auto simp: known_channels_def)
  have answer: "ClassifyPoolExhaustion (Some (pool_error ch (parens r))) [] =
    (if a1 then pool_answer ''quota_exhausted'' PoolAllowanceMessage
     else if a2 then pool_answer ''rate_limit'' PoolModelCooldownMessage
     else if a3 then pool_answer ''model_unavailable'' PoolModelUnavailableMessage
     else if a4 then pool_answer ''rate_limit'' PoolModelCooldownMessage
     else if a5 then pool_answer ''rate_limit'' PoolRateLimitedMessage
     else if a6 then pool_answer ''rate_limit'' PoolBusyMessage
     else pool_answer [] [])"
    if "phrases_in r = [False, a1, a2, a3, a4, a5, a6, False, False]" for r a1 a2 a3 a4 a5 a6
    by (subst classify_by_phrases [OF trans [OF pool_error_phrases(1) [OF assms] that]]) simp
  have "replicate 9 False = [False, False, False, False, False, False, False, False, False]"
    by (simp add: numeral_eq_Suc)
  note bare = classify_by_phrases [OF trans [OF pool_error_phrases(2) [OF assms] this], simplified]
  note answers = reason_phrases [THEN answer, simplified]
  show ?thesis
    unfolding empty_pool_error_def if_distrib [of "\<lambda>e. ClassifyPoolExhaustion (Some e) []"] using ch answers bare restricted_pool_error mixed_phrases [THEN answer, simplified]
    by (simp split del: if_split cong: if_cong)
qed

lemma busy_pool_classified:
  assumes "ch \<in> known_channels"
  shows "ClassifyPoolExhaustion (Some (pool_error ch '' (all matching accounts are at their concurrency limit)'')) [] =
    pool_answer ''rate_limit'' PoolBusyMessage"
  using classify_by_phrases [OF trans [OF pool_error_phrases(1) [OF assms] reason_phrases(6)]] by simp

section \<open>The guarantees\<close>

text \<open>C8.
  The account chosen from a window is below its concurrency limit, no other usable account has a
  smaller load per weight, and among those of equal load it was never chosen before or longest ago.\<close>

theorem selected_account_is_fair:
  assumes "\<And>n. 0 < n \<Longrightarrow> pick n < n" "length xs \<le> accountScanWindow"
    and "fst (selectAccountWithTracker now pick counts xs lb) = Some a"
  shows "a \<in> set xs \<and> \<not> at_limit (counts 0) a \<and>
    (\<forall>b \<in> set xs. at_limit (counts 0) b \<or> score (counts 0) a \<le> score (counts 0) b) \<and>
    (\<forall>b \<in> set xs. at_limit (counts 0) b \<or> score (counts 0) b \<noteq> score (counts 0) a \<or>
       (case map_of (lastSelected lb) (ID a) of
          None \<Rightarrow> True
        | Some t \<Rightarrow> (case map_of (lastSelected lb) (ID b) of None \<Rightarrow> False | Some t' \<Rightarrow> t \<le> t')))"
proof -
  have "selectAccountWithTracker now pick counts xs lb = select_in_window now pick (counts 0) xs lb"
    using assms(2,3) by (auto simp: selectAccountWithTracker_def split: if_splits)
  with assms(3) select_in_window_fair [OF assms(1), where now = now and counts = "counts 0" and xs = xs and lb = lb]
  have "fair_choice (counts 0) (map_of (lastSelected lb)) xs a" by (auto split: prod.splits)
  then show ?thesis unfolding fair_choice_def by blast
qed

definition two_accounts :: "Account list" where
  "two_accounts = [sample_account, sample_account\<lparr>ID := 2, Weight := 4\<rparr>]"

theorem selected_account_is_fair_witness:
  "fst (selectAccountWithTracker 9 (\<lambda>_. 0) (\<lambda>_ _. 3) two_accounts (NewWithCacheTTL 0)) =
     Some (sample_account\<lparr>ID := 2, Weight := 4\<rparr>) \<and>
   score (\<lambda>_. 3) (sample_account\<lparr>ID := 2, Weight := 4\<rparr>) \<le> score (\<lambda>_. 3) sample_account"
proof -
  let ?a = "sample_account\<lparr>ID := 2, Weight := 4\<rparr>"
  have "fst (selectAccountWithTracker 9 (\<lambda>_. 0) (\<lambda>_ _. 3) two_accounts (NewWithCacheTTL 0)) = Some ?a" by code_simp
  moreover have "\<not> at_limit (\<lambda>_. 3) sample_account" by code_simp
  ultimately show ?thesis
    using selected_account_is_fair [of "\<lambda>_. 0" two_accounts 9 "\<lambda>_ _. 3" "NewWithCacheTTL 0" ?a]
    by (auto simp: two_accounts_def accountScanWindow_def)
qed

text \<open>A choice fails only when every candidate is at its concurrency limit, however many windows the
  pool is examined in.\<close>

lemma selection_fails_only_when_busy:
  assumes "\<And>n. 0 < n \<Longrightarrow> pick n < n"
  shows "fst (selectAccountWithTracker now pick (\<lambda>_. counts) xs lb) = None \<longleftrightarrow> (\<forall>a \<in> set xs. at_limit counts a)"
  using select_with_tracker_spec [OF assms, where now = now and counts = counts and xs = xs and lb = lb]
  by (auto split: option.splits)

lemma getNext_cases:
  assumes "getNextAccountWithFilter rq loaded pick counts lb = (Inr a, lb')"
  obtains enabled lb1 accounts c passed lb2 where
    "getEnabledAccounts (rq_now rq) loaded lb = (Inr enabled, lb1)"
    "accounts = (if rq_channel rq \<noteq> [] then indexed_accounts (rq_channel rq) enabled lb1 else enabled)"
    "scan_with_fallback rq accounts lb1 = (Inr (c, passed), lb2)"
    "fst (selectAccountWithTracker (rq_now rq) pick counts passed lb2) = Some a"
  using assms unfolding getNextAccountWithFilter_def Let_def
  by (simp split: option.splits prod.splits sum.splits if_split_asm)

definition index_ok :: "LoadBalancer \<Rightarrow> bool" where
  "index_ok lb \<longleftrightarrow> (case cachedByChannel lb of
      None \<Rightarrow> True | Some index \<Rightarrow> index = channel_index 0 (cachedAccounts lb) [])"

lemma getEnabled_ok:
  assumes "index_ok lb" "getEnabledAccounts now loaded lb = (Inr enabled, lb1)"
  shows "index_ok lb1 \<and> cachedAccounts lb1 = enabled"
  using assms by (auto simp: getEnabledAccounts_def index_ok_def cachedAccountsBefore_def
      split: option.splits sum.splits if_splits)

lemma indexed_subset:
  assumes "index_ok lb" "cachedAccounts lb = enabled" "ch \<noteq> []"
  shows "set (indexed_accounts ch enabled lb) \<subseteq> set enabled"
    "a \<in> set enabled \<Longrightarrow> on_channel (to_lower ch) a \<Longrightarrow> a \<in> set (indexed_accounts ch enabled lb)"
proof -
  have "indexed_accounts ch enabled lb = enabled \<or>
      indexed_accounts ch enabled lb = filter (on_channel (to_lower ch)) enabled"
    using assms indexed_accounts_filter [of lb ch enabled]
    by (cases "cachedByChannel lb") (simp_all add: index_ok_def indexed_accounts_def [of _ _ lb])
  then show "set (indexed_accounts ch enabled lb) \<subseteq> set enabled"
    "a \<in> set enabled \<Longrightarrow> on_channel (to_lower ch) a \<Longrightarrow> a \<in> set (indexed_accounts ch enabled lb)"
    by auto
qed

lemma scan_pool:
  fixes rq
  assumes "index_ok lb" "getEnabledAccounts now loaded lb = (Inr enabled, lb1)"
  defines "pool \<equiv> (if rq_channel rq \<noteq> [] then indexed_accounts (rq_channel rq) enabled lb1 else enabled)"
  shows "set pool \<subseteq> set enabled" "a \<in> set enabled \<Longrightarrow> wanted rq a \<Longrightarrow> a \<in> set pool"
  using getEnabled_ok [OF assms(1,2)] indexed_subset [of lb1 enabled "rq_channel rq"] wanted_on_channel [of rq a]
  by (auto simp: pool_def)

text \<open>C3.
  An account handed out belongs to the snapshot, is not excluded, serves the channel, passed the
  request's filter, is available (its served state has the cooldown cleared that has just ended) and
  is below its concurrency limit.\<close>

theorem next_account_eligible:
  assumes "cachedByChannel lb = None \<or> cachedByChannel lb = Some (channel_index 0 (cachedAccounts lb) [])"
    and "\<And>n. 0 < n \<Longrightarrow> pick n < n" and "rq_channel rq \<noteq> []"
    and "getNextAccountWithFilter rq loaded pick (\<lambda>_. counts) lb = (Inr a, lb')"
  shows "\<exists>acc \<in> set (case cachedAccountsBefore (rq_now rq) lb of Some accounts \<Rightarrow> accounts | None \<Rightarrow> projr loaded).
    ID acc \<notin> set (rq_exclude rq) \<and>
    (equal_fold (AccountType acc) (rq_channel rq) \<or> equal_fold (AgentMode acc) (rq_channel rq)) \<and>
    rejected rq acc = None \<and> fst (availability (rq_now rq) (rq_claim rq (ID acc)) acc) \<and>
    a = served rq acc \<and> \<not> at_limit counts a"
proof -
  have ok: "index_ok lb" using assms(1) by (auto simp: index_ok_def split: option.splits)
  from assms(4) obtain enabled lb1 accounts c passed lb2 where
    e: "getEnabledAccounts (rq_now rq) loaded lb = (Inr enabled, lb1)" and
    p: "accounts = (if rq_channel rq \<noteq> [] then indexed_accounts (rq_channel rq) enabled lb1 else enabled)" and
    s: "scan_with_fallback rq accounts lb1 = (Inr (c, passed), lb2)" and
    a: "fst (selectAccountWithTracker (rq_now rq) pick (\<lambda>_. counts) passed lb2) = Some a"
    by (rule getNext_cases)
  have "a \<in> set passed" and lim: "\<not> at_limit counts a"
    using select_with_tracker_spec [OF assms(2), where now = "rq_now rq" and counts = counts and xs = passed and lb = lb2] a
    by simp_all
  moreover obtain cs where "set cs \<subseteq> set accounts" "passed = map (served rq) (filter (admits rq) cs)"
    using scan_with_fallback_result [of rq accounts lb1 c passed] s by auto
  ultimately obtain acc where acc: "acc \<in> set accounts" "admits rq acc" "a = served rq acc" by auto
  have "acc \<in> set enabled" using scan_pool(1) [OF ok e, of rq] acc(1) p by auto
  moreover have "enabled = (case cachedAccountsBefore (rq_now rq) lb of Some accounts \<Rightarrow> accounts | None \<Rightarrow> projr loaded)"
    using e by (auto simp: getEnabledAccounts_def split: option.splits sum.splits)
  ultimately show ?thesis using acc(2,3) lim assms(3) by (auto simp: admits_def wanted_def)
qed

definition cline_request :: request where
  "cline_request = \<lparr>rq_now = 100, rq_ctx = (\<lambda>_. None), rq_exclude = [1], rq_channel = ''cline'', rq_filter = None,
     rq_prepare = None, rq_claim = (\<lambda>_. False)\<rparr>"

definition cline_rows :: "Account list" where
  "cline_rows = [sample_account\<lparr>AccountType := ''cline''\<rparr>, sample_account\<lparr>ID := 2, AccountType := ''Cline''\<rparr>]"

definition cline_balancer :: LoadBalancer where
  "cline_balancer = snd (getNextAccountWithFilter cline_request (Inr cline_rows) (\<lambda>_. 0) (\<lambda>_ _. 3) (NewWithCacheTTL 0))"

lemma cline_selected:
  "getNextAccountWithFilter cline_request (Inr cline_rows) (\<lambda>_. 0) (\<lambda>_ _. 3) (NewWithCacheTTL 0) =
     (Inr (sample_account\<lparr>ID := 2, AccountType := ''Cline''\<rparr>), cline_balancer)"
proof -
  have "fst (getNextAccountWithFilter cline_request (Inr cline_rows) (\<lambda>_. 0) (\<lambda>_ _. 3) (NewWithCacheTTL 0)) =
     Inr (sample_account\<lparr>ID := 2, AccountType := ''Cline''\<rparr>)"
    by code_simp
  then show ?thesis unfolding cline_balancer_def by (metis prod.collapse)
qed

theorem next_account_eligible_witness:
  "\<exists>acc. ID acc \<noteq> 1 \<and> fst (availability 100 False acc) \<and>
     \<not> at_limit (\<lambda>_. 3) (sample_account\<lparr>ID := 2, AccountType := ''Cline''\<rparr>)"
proof -
  have "cachedByChannel (NewWithCacheTTL 0) = None" by (simp add: NewWithCacheTTL_def)
  moreover have "rq_channel cline_request \<noteq> []" by (simp add: cline_request_def)
  ultimately show ?thesis
    using next_account_eligible [OF _ _ _ cline_selected] by (fastforce simp: cline_request_def)
qed

lemma scan_loop_total:
  assumes "\<And>k. rq_ctx rq k = None"
  shows "\<exists>c out k' lb'. scan_loop rq cs start passed k lb = (Inr (c, out), k', lb')"
  by (induction cs arbitrary: start passed k lb) (simp_all add: assms Let_def split: option.splits prod.splits)

lemma scan_total:
  assumes "\<And>k. rq_ctx rq k = None" "rq_prepare rq = None"
  obtains c out k' lb' where "scan rq cs k lb = (Inr (c, out), k', lb')"
  using scan_loop_total [OF assms(1), where cs = cs and start = no_counts and passed = "[]" and k = "k + 1" and lb = lb] assms
  by (auto simp: scan_def)

lemma scan_with_fallback_total:
  assumes "\<And>k. rq_ctx rq k = None" "rq_prepare rq = None"
  shows "\<exists>c out lb'. scan_with_fallback rq xs lb = (Inr (c, out), lb')"
proof -
  obtain scanned lb1 where w: "scan_window xs lb = (scanned, lb1)" by fastforce
  obtain c1 o1 k1 lb2 where s1: "scan rq scanned 1 lb1 = (Inr (c1, o1), k1, lb2)" by (rule scan_total [OF assms])
  obtain c2 o2 k2 lb3 where s2: "scan rq xs k1 lb2 = (Inr (c2, o2), k2, lb3)" by (rule scan_total [OF assms])
  show ?thesis using s1 s2 by (simp add: scan_with_fallback_def w)
qed

text \<open>C7.
  When the snapshot has an account that is wanted, accepted by the filter and available, the pool
  is not reported empty: the rotating windows and the channel index hide no account. The request gets
  an account or learns that the usable ones are at their limits.\<close>

theorem next_account_found:
  assumes "cachedByChannel lb = None \<or> cachedByChannel lb = Some (channel_index 0 (cachedAccounts lb) [])"
    and "\<And>n. 0 < n \<Longrightarrow> pick n < n" "\<And>k. rq_ctx rq k = None" "rq_prepare rq = None"
    and "acc \<in> set (case cachedAccountsBefore (rq_now rq) lb of Some accounts \<Rightarrow> accounts | None \<Rightarrow> projr loaded)"
    and "\<not> isl loaded" "wanted rq acc" "rejected rq acc = None"
    and "fst (availability (rq_now rq) (rq_claim rq (ID acc)) acc)"
  shows "fst (getNextAccountWithFilter rq loaded pick (\<lambda>_. counts) lb) \<in>
    range Inr \<union> {Inl (pool_error (rq_channel rq) '' (all matching accounts are at their concurrency limit)'')}"
proof -
  have ok: "index_ok lb" using assms(1) by (auto simp: index_ok_def split: option.splits)
  obtain enabled lb1 where e: "getEnabledAccounts (rq_now rq) loaded lb = (Inr enabled, lb1)" and "acc \<in> set enabled"
    using assms(5,6) by (cases loaded) (auto simp: getEnabledAccounts_def split: option.splits)
  let ?pool = "if rq_channel rq \<noteq> [] then indexed_accounts (rq_channel rq) enabled lb1 else enabled"
  have "acc \<in> set ?pool" using scan_pool(2) [OF ok e _ assms(7)] \<open>acc \<in> set enabled\<close> by blast
  moreover obtain c passed lb2 where s: "scan_with_fallback rq ?pool lb1 = (Inr (c, passed), lb2)"
    using scan_with_fallback_total [OF assms(3,4)] by metis
  ultimately have "passed \<noteq> []"
    using scan_with_fallback_result [of rq ?pool lb1 c passed] assms(7-9) by (auto simp: admits_def)
  then show ?thesis
    using assms(3) e s by (auto simp: getNextAccountWithFilter_def Let_def split: prod.splits option.splits)
qed

theorem next_account_found_witness:
  "fst (getNextAccountWithFilter cline_request (Inr cline_rows) (\<lambda>_. 0) (\<lambda>_ _. 10) (NewWithCacheTTL 0)) \<in>
    range Inr \<union> {Inl (pool_error ''cline'' '' (all matching accounts are at their concurrency limit)'')}"
proof -
  let ?a = "sample_account\<lparr>ID := 2, AccountType := ''Cline''\<rparr>"
  have "wanted cline_request ?a" "fst (availability (rq_now cline_request) (rq_claim cline_request (ID ?a)) ?a)"
    "rejected cline_request ?a = None"
    by code_simp+
  then show ?thesis
    using next_account_found [of "NewWithCacheTTL 0" "\<lambda>_. 0" cline_request ?a "Inr cline_rows" "\<lambda>_. 10"]
    by (simp add: cline_request_def cline_rows_def NewWithCacheTTL_def cachedAccountsBefore_def)
qed

text \<open>After a change of any account the next selection reads the store, not the snapshot.\<close>

lemma invalidated_is_reloaded:
  assumes "i \<in> set ids" "i \<noteq> 0" "0 \<le> now"
  shows "fst (getEnabledAccounts now loaded (InvalidateAccounts ids lb)) = loaded"
proof -
  have "cacheExpires (InvalidateAccounts ids lb) = 0"
    using assms(1,2) by (auto simp: InvalidateAccounts_def Let_def filter_empty_conv)
  with assms(3) have "cachedAccountsBefore now (InvalidateAccounts ids lb) = None"
    by (simp add: cachedAccountsBefore_def)
  then show ?thesis by (simp add: getEnabledAccounts_def split: sum.splits)
qed

text \<open>A throttled account that no other rule withholds is let in exactly when the account policy no
  longer holds it.\<close>

lemma availability_429:
  assumes "trim_space (StatusCode a) = ''429''" "AccountAuthActive (Some a)"
    "\<not> WorkBuddyRestrictionUntil (Some a) > now" "\<not> isPaidGrokBuildAccount a" "LastAttempt a \<noteq> 0"
  shows "availability now claimed a = (\<not> AccountHeld (Some a) now, \<not> AccountHeld (Some a) now)"
  using assms by (simp add: availability_def Let_def is_zero_def AccountStatusWorkBuddyQuotaExhausted_def)

end
