(* ===== verification/Pricing.thy ===== *)
theory Pricing
  imports Go_Prelude
begin

text \<open>
  \<^verbatim>\<open>internal/pricing\<close>: the official price table in USD ticks, the cost of a finished request, the
  worst-case reservation of a request that has not run, the reconstruction of a stored cost and the
  per-asset prices of images and videos. Costs are \<open>int64\<close>: every product and sum that the code lets
  overflow goes through \<open>wrap64\<close>. A JSON document is the value the decoder walks, its members in
  order and duplicates kept.
\<close>

record Result =
  Model :: string
  CostInUSDTicks :: int

definition no_result :: Result where
  "no_result = \<lparr>Model = [], CostInUSDTicks = 0\<rparr>"

record tokenPrice =
  ReasoningAliases :: "string list"
  CanonicalModel :: string
  InputTicks :: int
  CachedInputTicks :: int
  OutputTicks :: int
  LongContextTokens :: int
  LongInputTicks :: int
  LongCachedTicks :: int
  LongOutputTicks :: int

definition officialTokenPrices :: "(string \<times> tokenPrice) list" where
  "officialTokenPrices =
     [(''grok-composer-2.5-fast'',
       \<lparr>ReasoningAliases = [''none''], CanonicalModel = ''grok-composer-2.5-fast'', InputTicks = 10000,
        CachedInputTicks = 2000, OutputTicks = 20000, LongContextTokens = 200000, LongInputTicks = 20000,
        LongCachedTicks = 4000, LongOutputTicks = 40000\<rparr>),
      (''grok-4.6'',
       \<lparr>ReasoningAliases = [''low'', ''medium'', ''high'', ''xhigh''], CanonicalModel = ''grok-4.6'', InputTicks = 20000,
        CachedInputTicks = 5000, OutputTicks = 60000, LongContextTokens = 200000, LongInputTicks = 40000,
        LongCachedTicks = 10000, LongOutputTicks = 120000\<rparr>),
      (''grok-4.5'',
       \<lparr>ReasoningAliases = [''low'', ''medium'', ''high''], CanonicalModel = ''grok-4.5'', InputTicks = 20000,
        CachedInputTicks = 3000, OutputTicks = 60000, LongContextTokens = 200000, LongInputTicks = 40000,
        LongCachedTicks = 6000, LongOutputTicks = 120000\<rparr>)]"

definition normalizePricingModel :: "string \<Rightarrow> string" where
  "normalizePricingModel model = trim_prefix (to_lower (trim_space model)) ''build/''"

text \<open>The two parts around the last hyphen.\<close>

definition cut_last_hyphen :: "string \<Rightarrow> (string \<times> string) option" where
  "cut_last_hyphen s =
     (if CHR ''-'' \<notin> set s then None
      else Some (rev (drop 1 (dropWhile (\<lambda>c. c \<noteq> CHR ''-'') (rev s))), rev (takeWhile (\<lambda>c. c \<noteq> CHR ''-'') (rev s))))"

definition resolveOfficialTokenPrice :: "string \<Rightarrow> tokenPrice option" where
  "resolveOfficialTokenPrice model =
     (let normalized = normalizePricingModel model in
      case map_of officialTokenPrices normalized of
        Some price \<Rightarrow> Some price
      | None \<Rightarrow>
          (case cut_last_hyphen normalized of
             None \<Rightarrow> None
           | Some (base, effort) \<Rightarrow>
               (case map_of officialTokenPrices base of
                  None \<Rightarrow> None
                | Some price \<Rightarrow> if List.member (ReasoningAliases price) effort then Some price else None)))"

section \<open>The cost of a finished request\<close>

definition EstimateCost :: "string \<Rightarrow> int \<Rightarrow> int \<Rightarrow> int \<Rightarrow> int \<Rightarrow> Result \<times> bool" where
  "EstimateCost model inputTokens0 cachedInputTokens outputTokens0 contextInputTokens =
     (case resolveOfficialTokenPrice model of
        None \<Rightarrow> (no_result, False)
      | Some price \<Rightarrow>
          let contextTokens = (if contextInputTokens \<le> 0 then inputTokens0 else contextInputTokens);
              (inputPrice, cachedPrice, outputPrice) =
                (if LongContextTokens price > 0 \<and> contextTokens > LongContextTokens price
                 then (LongInputTicks price, LongCachedTicks price, LongOutputTicks price)
                 else (InputTicks price, CachedInputTicks price, OutputTicks price));
              inputTokens = max 0 inputTokens0;
              cachedTokens = max 0 (min cachedInputTokens inputTokens);
              uncachedTokens = max 0 (wrap64 (inputTokens - cachedTokens));
              outputTokens = max 0 outputTokens0
          in (\<lparr>Model = CanonicalModel price,
               CostInUSDTicks = wrap64 (wrap64 (wrap64 (uncachedTokens * inputPrice) + wrap64 (cachedTokens * cachedPrice)) +
                 wrap64 (outputTokens * outputPrice))\<rparr>, True))"

section \<open>The reconstruction of a stored cost\<close>

datatype ComponentKind = ComponentUncachedInput | ComponentCachedInput | ComponentOutput

record Component =
  Kind :: ComponentKind
  Quantity :: int
  UnitPriceInUSDTicks :: int
  c_CostInUSDTicks :: int

record Breakdown =
  b_Model :: string
  b_CostInUSDTicks :: int
  Components :: "Component list"

definition add :: "ComponentKind \<Rightarrow> int \<Rightarrow> int \<Rightarrow> Breakdown \<Rightarrow> Breakdown" where
  "add kind quantity unitPrice b =
     (if quantity \<le> 0 \<or> unitPrice \<le> 0 then b
      else let cost = wrap64 (quantity * unitPrice)
           in b\<lparr>Components := Components b @
                  [\<lparr>Kind = kind, Quantity = quantity, UnitPriceInUSDTicks = unitPrice, c_CostInUSDTicks = cost\<rparr>],
                b_CostInUSDTicks := wrap64 (b_CostInUSDTicks b + cost)\<rparr>)"

text \<open>The quantities of a stored row that the text breakdown reads.\<close>

record Quantities =
  q_InputTokens :: int
  q_CachedTokens :: int
  q_OutputTokens :: int
  q_ContextTokens :: int

definition ReconstructBreakdown :: "string \<Rightarrow> Quantities \<Rightarrow> Breakdown \<times> bool" where
  "ReconstructBreakdown model q =
     (let normalized = normalizePricingModel model in
      case resolveOfficialTokenPrice normalized of
        None \<Rightarrow> (\<lparr>b_Model = [], b_CostInUSDTicks = 0, Components = []\<rparr>, False)
      | Some price \<Rightarrow>
          let contextTokens = (if q_ContextTokens q \<le> 0 then q_InputTokens q else q_ContextTokens q);
              (inputPrice, cachedPrice, outputPrice) =
                (if LongContextTokens price > 0 \<and> contextTokens > LongContextTokens price
                 then (LongInputTicks price, LongCachedTicks price, LongOutputTicks price)
                 else (InputTicks price, CachedInputTicks price, OutputTicks price));
              cached = max 0 (min (q_CachedTokens q) (q_InputTokens q));
              uncached = max 0 (wrap64 (q_InputTokens q - cached));
              b0 = \<lparr>b_Model = normalized, b_CostInUSDTicks = 0, Components = []\<rparr>;
              b1 = add ComponentUncachedInput uncached inputPrice b0;
              b2 = add ComponentCachedInput cached cachedPrice b1;
              b3 = add ComponentOutput (max 0 (q_OutputTokens q)) outputPrice b2
          in (b3, b_CostInUSDTicks b3 > 0))"

section \<open>The reservation of a request\<close>

datatype json = JNull | JBool bool | JNum string | JStr string | JArr "json list" | JObj "(string \<times> json) list"

definition text_tokens :: "string \<Rightarrow> int" where
  "text_tokens s = int (length s + 2) div 3"

definition string_tokens :: "string \<Rightarrow> int" where
  "string_tokens s =
     (let trimmed = trim_space s in
      if has_prefix trimmed ''data:image/'' \<or> has_prefix trimmed ''data:video/'' then 256
      else max 1 (text_tokens s))"

text \<open>The walk below the top level.\<close>

fun json_tokens :: "json \<Rightarrow> int" and list_tokens :: "json list \<Rightarrow> int" and
  member_tokens :: "(string \<times> json) list \<Rightarrow> int" where
  "json_tokens JNull = 0"
| "json_tokens (JBool b) = 1"
| "json_tokens (JNum s) = 1"
| "json_tokens (JStr s) = string_tokens s"
| "json_tokens (JArr js) = list_tokens js"
| "json_tokens (JObj ms) = member_tokens ms"
| "list_tokens [] = 0"
| "list_tokens (j # js) = 1 + json_tokens j + list_tokens js"
| "member_tokens [] = 0"
| "member_tokens ((key, j) # ms) = text_tokens key + 1 + json_tokens j + member_tokens ms"

text \<open>Decoding of one value into a \<open>string\<close> and into a \<open>json.Number\<close>; null leaves the zero value.\<close>

definition decode_string :: "json \<Rightarrow> string option" where
  "decode_string j = (case j of JStr s \<Rightarrow> Some s | JNull \<Rightarrow> Some [] | _ \<Rightarrow> None)"

definition decode_number :: "json \<Rightarrow> string option" where
  "decode_number j =
     (case j of JNum s \<Rightarrow> Some s | JStr s \<Rightarrow> (if is_json_number s then Some s else None) | JNull \<Rightarrow> Some [] | _ \<Rightarrow> None)"

definition defaultOutputTokens :: int where "defaultOutputTokens = 16384"
definition maximumOutputTokens :: int where "maximumOutputTokens = 131072"

record scan_state =
  sc_model :: string
  sc_output :: "int list"

definition output_priority :: "string \<Rightarrow> nat option" where
  "output_priority key =
     (if key = ''max_output_tokens'' then Some 0
      else if key = ''max_completion_tokens'' then Some 1
      else if key = ''max_tokens'' then Some 2
      else None)"

fun walk_top :: "(string \<times> json) list \<Rightarrow> int \<Rightarrow> scan_state \<Rightarrow> int option \<times> scan_state" where
  "walk_top [] sofar st = (Some sofar, st)"
| "walk_top ((key, j) # ms) sofar st =
     (let total1 = sofar + text_tokens key + 1 in
      if key = ''model'' then
        (case decode_string j of
           None \<Rightarrow> (None, st)
         | Some value \<Rightarrow> walk_top ms (total1 + max 1 (text_tokens value)) (st\<lparr>sc_model := trim_space value\<rparr>))
      else case output_priority key of
        Some p \<Rightarrow>
          (case decode_number j of
             None \<Rightarrow> (None, st)
           | Some number \<Rightarrow>
               walk_top ms (total1 + 1)
                 (case parse_int64 number of
                    Some v \<Rightarrow> if v > 0 then st\<lparr>sc_output := (sc_output st)[p := min v maximumOutputTokens]\<rparr> else st
                  | None \<Rightarrow> st))
      | None \<Rightarrow> walk_top ms (total1 + json_tokens j) st)"

text \<open>\<open>scanReservationJSON\<close> of a body of \<open>n\<close> bytes that holds the document \<open>doc\<close>: the model, the input
  and the output tokens.\<close>

definition scanReservationJSON :: "nat \<Rightarrow> json \<Rightarrow> string \<times> int \<times> int \<times> bool" where
  "scanReservationJSON n doc =
     (let (tokens, st) = (case doc of
            JObj ms \<Rightarrow> walk_top ms 0 \<lparr>sc_model = [], sc_output = [0, 0, 0]\<rparr>
          | _ \<Rightarrow> (Some (json_tokens doc), \<lparr>sc_model = [], sc_output = [0, 0, 0]\<rparr>))
      in case tokens of
           None \<Rightarrow> (sc_model st, max 256 (int (n + 2) div 3), defaultOutputTokens, False)
         | Some t \<Rightarrow>
             (sc_model st, max 256 (t + 128),
              (case find (\<lambda>v. v > 0) (sc_output st) of Some v \<Rightarrow> v | None \<Rightarrow> defaultOutputTokens), True))"

definition EstimateTextReservationFromBody :: "nat \<Rightarrow> json \<Rightarrow> Result \<times> bool" where
  "EstimateTextReservationFromBody n doc =
     (let (model, inputTokens, outputTokens, ok) = scanReservationJSON n doc in
      if trim_space model = [] then (no_result, False)
      else if resolveOfficialTokenPrice model = None then (no_result, False)
      else EstimateCost model inputTokens 0 outputTokens inputTokens)"

section \<open>Images and videos\<close>

definition officialImageEditInputTicks :: int where "officialImageEditInputTicks = 100000000"
definition officialLiteImageInputTicks :: int where "officialLiteImageInputTicks = 20000000"

definition officialImage20OutputTicks :: "string \<Rightarrow> string \<Rightarrow> int option" where
  "officialImage20OutputTicks resolution quality =
     (let cell = resolution @ ''/'' @ quality in
      if cell = ''1k/low'' then Some 400000000
      else if cell = ''2k/low'' \<or> cell = ''1k/medium'' then Some 600000000
      else if cell = ''2k/medium'' then Some 800000000
      else None)"

definition resolution_ticks :: "string \<Rightarrow> int option" where
  "resolution_ticks resolution =
     (if resolution = ''1k'' then Some 500000000 else if resolution = ''2k'' then Some 700000000 else None)"

text \<open>The rate of an edit: the pricing model, the ticks of an output image (0 when the resolution decides)
  and of an input image.\<close>

definition image_edit_rate :: "string \<Rightarrow> string \<Rightarrow> string \<Rightarrow> (string \<times> int \<times> int) option" where
  "image_edit_rate model resolution quality =
     (if model = ''grok-imagine-image-edit'' then
        (if quality \<noteq> [] then None
         else Some (''grok-imagine-image-edit-'' @ resolution, 0, officialImageEditInputTicks))
      else if model = ''grok-imagine-image-2.0'' then
        (let q = (if quality = [] then ''medium'' else quality)
         in map_option (\<lambda>ticks. (''grok-imagine-image-2.0-edit-'' @ q @ ''-'' @ resolution, ticks, officialImageEditInputTicks))
              (officialImage20OutputTicks resolution q))
      else if model = ''grok-imagine-image-quality'' then
        (if quality \<noteq> [] then None
         else map_option (\<lambda>ticks. (''grok-imagine-image-quality-'' @ resolution, ticks, officialImageEditInputTicks))
                (resolution_ticks resolution))
      else if model = ''grok-imagine-image'' then
        (if quality \<noteq> [] then None else Some (''grok-imagine-image'', 200000000, officialLiteImageInputTicks))
      else None)"

definition EstimateImageEditCost :: "string \<Rightarrow> string \<Rightarrow> string \<Rightarrow> int \<Rightarrow> int \<Rightarrow> Result \<times> bool" where
  "EstimateImageEditCost model0 resolution0 quality0 outputCount inputCount =
     (let model = normalizePricingModel model0;
          resolution1 = to_lower (trim_space resolution0);
          quality = to_lower (trim_space quality0);
          resolution = (if resolution1 = [] then ''1k'' else resolution1)
      in if outputCount \<le> 0 \<or> inputCount \<le> 0 then (no_result, False)
         else case image_edit_rate model resolution quality of
           None \<Rightarrow> (no_result, False)
         | Some (pricingModel, outputTicks, inputTicks) \<Rightarrow>
             (case (if outputTicks = 0 then resolution_ticks resolution else Some outputTicks) of
                None \<Rightarrow> (no_result, False)
              | Some ticks \<Rightarrow>
                  (\<lparr>Model = pricingModel,
                    CostInUSDTicks = wrap64 (wrap64 (outputCount * ticks) + wrap64 (inputCount * inputTicks))\<rparr>, True)))"

definition video_rate :: "string \<Rightarrow> string \<Rightarrow> (int \<times> int) option" where
  "video_rate baseModel resolution =
     (if baseModel = ''grok-imagine-video'' then
        (if resolution = ''480p'' then Some (500000000, officialLiteImageInputTicks)
         else if resolution = ''720p'' then Some (700000000, officialLiteImageInputTicks)
         else None)
      else if baseModel = ''grok-imagine-video-1.5'' then
        (if resolution = ''480p'' then Some (800000000, officialImageEditInputTicks)
         else if resolution = ''720p'' then Some (1400000000, officialImageEditInputTicks)
         else if resolution = ''1080p'' then Some (2500000000, officialImageEditInputTicks)
         else None)
      else None)"

definition EstimateVideoCost :: "string \<Rightarrow> string \<Rightarrow> int \<Rightarrow> int \<Rightarrow> Result \<times> bool" where
  "EstimateVideoCost model resolution0 seconds inputImages =
     (if seconds \<le> 0 \<or> inputImages < 0 then (no_result, False)
      else
        let baseModel = normalizePricingModel model;
            resolution = to_lower (trim_space resolution0)
        in case video_rate baseModel resolution of
             None \<Rightarrow> (no_result, False)
           | Some (ticksPerSecond, ticksPerInputImage) \<Rightarrow>
               (\<lparr>Model = baseModel @ ''-'' @ resolution,
                 CostInUSDTicks = wrap64 (wrap64 (seconds * ticksPerSecond) + wrap64 (inputImages * ticksPerInputImage))\<rparr>,
                True))"

section \<open>The table\<close>

definition sane_price :: "tokenPrice \<Rightarrow> bool" where
  "sane_price p \<longleftrightarrow>
     0 < CachedInputTicks p \<and> CachedInputTicks p \<le> InputTicks p \<and> 0 < OutputTicks p \<and>
     0 < LongCachedTicks p \<and> LongCachedTicks p \<le> LongInputTicks p \<and> 0 < LongContextTokens p \<and>
     CachedInputTicks p \<le> LongCachedTicks p \<and> InputTicks p \<le> LongInputTicks p \<and> OutputTicks p \<le> LongOutputTicks p \<and>
     LongInputTicks p \<le> 40000 \<and> LongOutputTicks p \<le> 120000"

lemma table_sane: "list_all (\<lambda>(_, p). sane_price p) officialTokenPrices"
  by (simp add: officialTokenPrices_def sane_price_def)

lemma resolve_sane: "resolveOfficialTokenPrice model = Some p \<Longrightarrow> sane_price p"
  using table_sane unfolding resolveOfficialTokenPrice_def list_all_iff
  by (fastforce simp: Let_def dest!: map_of_SomeD split: option.splits if_splits)

section \<open>A stored cost and its components\<close>

lemma wrap64_cong: "x mod 2 ^ 64 = y mod 2 ^ 64 \<Longrightarrow> wrap64 x = wrap64 y"
  unfolding wrap64_def by (metis mod_add_left_eq)

lemma wrap64_mod: "wrap64 x mod 2 ^ 64 = x mod 2 ^ 64"
  unfolding wrap64_def by (simp add: mod_simps)

lemma wrap64_idem [simp]: "wrap64 (wrap64 x) = wrap64 x"
  by (rule wrap64_cong) (rule wrap64_mod)

lemma wrap64_add_wrap [simp]: "wrap64 (wrap64 x + y) = wrap64 (x + y)" "wrap64 (x + wrap64 y) = wrap64 (x + y)"
  by (rule wrap64_cong, metis wrap64_mod mod_add_left_eq, rule wrap64_cong, metis wrap64_mod mod_add_right_eq)

lemma wrap64_add3 [simp]: "wrap64 (wrap64 x + y + z) = wrap64 (x + y + z)"
  using wrap64_add_wrap(1) [of x "y + z"] by (simp add: add.assoc)

lemma add_cost:
  assumes "0 < unitPrice" "0 \<le> quantity"
  shows "b_CostInUSDTicks (add kind quantity unitPrice b) =
    (if quantity = 0 then b_CostInUSDTicks b else wrap64 (b_CostInUSDTicks b + quantity * unitPrice))"
  using assms by (simp add: add_def Let_def)

lemma wrap64_0 [simp]: "wrap64 0 = 0"
  by (simp add: wrap64_def)

lemma add_three:
  assumes "0 < p1" "0 < p2" "0 < p3" "0 \<le> n1" "0 \<le> n2" "0 \<le> n3" "b_CostInUSDTicks b = 0"
  shows "b_CostInUSDTicks (add k3 n3 p3 (add k2 n2 p2 (add k1 n1 p1 b))) = wrap64 (n1 * p1 + n2 * p2 + n3 * p3)"
  using assms by (simp add: add_cost)

lemma clamped_cached: "max 0 (min c (max 0 i)) = max 0 (min c i)" for c i :: int
  by auto

lemma clamped_uncached: "max 0 (wrap64 (max 0 i - max 0 (min c i))) = max 0 (wrap64 (i - max 0 (min c i)))"
  if "min_int64 \<le> i" "i \<le> max_int64" for c i :: int
proof (cases "0 \<le> i")
  case False
  then have "max 0 i = 0" "max 0 (min c i) = 0" by auto
  moreover have "wrap64 i = i" using that by (intro wrap64_id)
  ultimately show ?thesis using False by simp
qed simp

text \<open>The components of a reconstructed breakdown add up, overflow included, to exactly what the estimator
  charges for the normalised model and the same quantities; an unpriced model costs nothing in both.\<close>

lemma breakdown_matches_cost:
  assumes "min_int64 \<le> i" "i \<le> max_int64"
  shows "b_CostInUSDTicks (fst (ReconstructBreakdown model
      \<lparr>q_InputTokens = i, q_CachedTokens = c, q_OutputTokens = out, q_ContextTokens = ctx\<rparr>)) =
    CostInUSDTicks (fst (EstimateCost (normalizePricingModel model) i c out ctx))"
proof (cases "resolveOfficialTokenPrice (normalizePricingModel model)")
  case None
  then show ?thesis by (simp add: ReconstructBreakdown_def EstimateCost_def no_result_def)
next
  case (Some p)
  from resolve_sane [OF this] have pos: "0 < InputTicks p" "0 < CachedInputTicks p" "0 < OutputTicks p"
    "0 < LongInputTicks p" "0 < LongCachedTicks p" "0 < LongOutputTicks p" by (auto simp: sane_price_def)
  show ?thesis
  proof (cases "LongContextTokens p > 0 \<and> (if ctx \<le> 0 then i else ctx) > LongContextTokens p")
    case True
    then show ?thesis
      unfolding ReconstructBreakdown_def EstimateCost_def Let_def Some option.case Quantities.simps
      by (simp only: if_True simp_thms prod.case fst_conv Result.simps clamped_cached clamped_uncached [OF assms]
          add_three [OF pos(4,5,6)] max.cobounded1 Breakdown.simps wrap64_add_wrap)
  next
    case False
    then show ?thesis
      unfolding ReconstructBreakdown_def EstimateCost_def Let_def Some option.case Quantities.simps
      by (simp only: if_False simp_thms prod.case fst_conv Result.simps clamped_cached clamped_uncached [OF assms]
          add_three [OF pos(1,2,3)] max.cobounded1 Breakdown.simps wrap64_add_wrap)
  qed
qed

text \<open>The reconstruction normalises a name twice, which prices a name the estimators do not know.\<close>

lemma breakdown_normalises_twice:
  "snd (ReconstructBreakdown ''build/build/grok-4.5''
      \<lparr>q_InputTokens = 1, q_CachedTokens = 0, q_OutputTokens = 0, q_ContextTokens = 0\<rparr>) \<and>
   \<not> snd (EstimateCost ''build/build/grok-4.5'' 1 0 0 0)"
  by code_simp

section \<open>A reservation covers its settlement\<close>

lemma EstimateCost_exact:
  fixes c :: int
  assumes "resolveOfficialTokenPrice model = Some p" "0 \<le> i" "i \<le> 2 ^ 45" "0 \<le> out" "out \<le> 2 ^ 45"
  defines "long \<equiv> LongContextTokens p < i"
  defines "cached \<equiv> max 0 (min c i)"
  shows "CostInUSDTicks (fst (EstimateCost model i c out i)) =
    (i - cached) * (if long then LongInputTicks p else InputTicks p) +
    cached * (if long then LongCachedTicks p else CachedInputTicks p) +
    out * (if long then LongOutputTicks p else OutputTicks p)"
proof -
  note sane = resolve_sane [OF assms(1)]
  define p1 p2 p3 where "p1 = (if long then LongInputTicks p else InputTicks p)"
    and "p2 = (if long then LongCachedTicks p else CachedInputTicks p)"
    and "p3 = (if long then LongOutputTicks p else OutputTicks p)"
  have p: "0 < p1" "p1 \<le> 40000" "0 < p2" "p2 \<le> 40000" "0 < p3" "p3 \<le> 120000"
    using sane by (auto simp: p1_def p2_def p3_def sane_price_def)
  have c: "0 \<le> cached" "cached \<le> i" using assms(2) by (auto simp: cached_def)
  have "(i - cached) * p1 \<le> 2 ^ 45 * 40000" "cached * p2 \<le> 2 ^ 45 * 40000" "out * p3 \<le> 2 ^ 45 * 120000"
    using p c assms(2-5) by (intro mult_mono; simp)+
  moreover have "0 \<le> (i - cached) * p1" "0 \<le> cached * p2" "0 \<le> out * p3" using p c assms(4) by auto
  ultimately have sum: "wrap64 ((i - cached) * p1 + cached * p2 + out * p3) = (i - cached) * p1 + cached * p2 + out * p3"
    by (intro wrap64_id) (auto simp: min_int64_def max_int64_def)
  have unc: "max 0 (wrap64 (i - cached)) = i - cached"
  proof -
    have "wrap64 (i - cached) = i - cached" using c assms(3) by (intro wrap64_id) (auto simp: min_int64_def max_int64_def)
    with c show ?thesis by simp
  qed
  have "LongContextTokens p > 0" using sane by (simp add: sane_price_def)
  with assms(1,2,4) sum unc show ?thesis
    by (auto simp: EstimateCost_def Let_def clamped_cached cached_def [symmetric] p1_def p2_def p3_def long_def)
qed

lemma cost_nonneg_mono:
  assumes "0 \<le> i" "i \<le> I" "I \<le> 2 ^ 45" "0 \<le> out" "out \<le> Out" "Out \<le> 2 ^ 45"
  shows "0 \<le> CostInUSDTicks (fst (EstimateCost model i c out i))"
    "CostInUSDTicks (fst (EstimateCost model i c out i)) \<le> CostInUSDTicks (fst (EstimateCost model I 0 Out I))"
proof (atomize (full), cases "resolveOfficialTokenPrice model")
  case None
  then show "0 \<le> CostInUSDTicks (fst (EstimateCost model i c out i)) \<and>
    CostInUSDTicks (fst (EstimateCost model i c out i)) \<le> CostInUSDTicks (fst (EstimateCost model I 0 Out I))"
    by (simp add: EstimateCost_def no_result_def)
next
  case (Some p)
  note sane = resolve_sane [OF this, unfolded sane_price_def]
  define cached where "cached = max 0 (min c i)"
  have c: "0 \<le> cached" "cached \<le> i" using assms(1) by (auto simp: cached_def)
  define q where "q j = (if LongContextTokens p < j then LongInputTicks p else InputTicks p)" for j
  define qc where "qc j = (if LongContextTokens p < j then LongCachedTicks p else CachedInputTicks p)" for j
  define qo where "qo j = (if LongContextTokens p < j then LongOutputTicks p else OutputTicks p)" for j
  have q: "0 < q j" "0 < qc j" "qc j \<le> q j" "0 < qo j" for j using sane by (auto simp: q_def qc_def qo_def)
  have mono: "q i \<le> q I" "qo i \<le> qo I" using sane assms(2) by (auto simp: q_def qo_def)
  have low: "CostInUSDTicks (fst (EstimateCost model i c out i)) = (i - cached) * q i + cached * qc i + out * qo i"
    using EstimateCost_exact [OF Some, of i out c] assms by (simp add: cached_def q_def qc_def qo_def)
  have high: "CostInUSDTicks (fst (EstimateCost model I 0 Out I)) = I * q I + Out * qo I"
    using EstimateCost_exact [OF Some, of I Out 0] assms by (simp add: q_def qc_def qo_def)
  have "cached * qc i \<le> cached * q i" using c q by (intro mult_left_mono) auto
  then have "(i - cached) * q i + cached * qc i \<le> i * q i" by (simp add: algebra_simps)
  also have "i * q i \<le> I * q I" using assms mono q(1) [of i] by (intro mult_mono) auto
  finally have "(i - cached) * q i + cached * qc i \<le> I * q I" .
  moreover have "out * qo i \<le> Out * qo I" using assms mono q(4) [of i] by (intro mult_mono) auto
  moreover have "0 \<le> (i - cached) * q i" "0 \<le> cached * qc i" "0 \<le> out * qo i"
    using c q(1) [of i] q(2) [of i] q(4) [of i] assms(4) by simp_all
  ultimately show "0 \<le> CostInUSDTicks (fst (EstimateCost model i c out i)) \<and>
    CostInUSDTicks (fst (EstimateCost model i c out i)) \<le> CostInUSDTicks (fst (EstimateCost model I 0 Out I))"
    unfolding low high by linarith
qed

definition output_ok :: "scan_state \<Rightarrow> bool" where
  "output_ok st \<longleftrightarrow> (\<forall>v \<in> set (sc_output st). v \<le> maximumOutputTokens)"

lemma output_ok_update:
  "output_ok st \<Longrightarrow> output_ok (st\<lparr>sc_output := (sc_output st)[p := min v maximumOutputTokens]\<rparr>)"
  "output_ok st \<Longrightarrow> output_ok (st\<lparr>sc_model := m\<rparr>)"
  by (auto simp: output_ok_def dest!: subsetD [OF set_update_subset_insert])

lemma walk_top_output: "output_ok st \<Longrightarrow> output_ok (snd (walk_top ms n st))"
proof (induction ms arbitrary: n st)
  case (Cons m ms)
  obtain key j where m: "m = (key, j)" by fastforce
  show ?case
  proof (cases "key = ''model''")
    case True
    with Cons m output_ok_update(2) show ?thesis by (simp add: Let_def split: option.split)
  next
    case key: False
    show ?thesis
    proof (cases "output_priority key")
      case None
      with Cons m key show ?thesis by (simp add: Let_def)
    next
      case (Some p)
      show ?thesis
      proof (cases "decode_number j")
        case None
        with Cons.prems m key Some show ?thesis by (simp add: Let_def)
      next
        case (Some number)
        with Cons m key \<open>output_priority key = Some p\<close> output_ok_update(1) show ?thesis
          by (simp add: Let_def split: option.split)
      qed
    qed
  qed
qed simp

lemma scan_bounds:
  assumes "scanReservationJSON n doc = (model, I, Out, ok)"
  shows "256 \<le> I" "0 < Out" "Out \<le> 131072"
proof -
  have found: "0 < v \<and> v \<in> set xs" if "find (\<lambda>v. v > 0) xs = Some v" for xs v
    using that by (auto simp: find_Some_iff)
  have out: "v \<le> maximumOutputTokens"
    if "walk_top ms 0 \<lparr>sc_model = [], sc_output = [0, 0, 0]\<rparr> = (r, st)" "v \<in> set (sc_output st)" for ms r st v
    using that walk_top_output [of "\<lparr>sc_model = [], sc_output = [0, 0, 0]\<rparr>" ms 0]
    by (simp add: output_ok_def maximumOutputTokens_def)
  show "256 \<le> I" "0 < Out" "Out \<le> 131072"
    using assms found unfolding scanReservationJSON_def Let_def
    by (auto simp: defaultOutputTokens_def maximumOutputTokens_def split: json.splits option.splits prod.splits
        dest!: out [unfolded maximumOutputTokens_def])
qed

text \<open>C37.
  The hold taken before a request covers its settlement: for any usage within the estimated input and
  the output cap, cached or not and across the long-context boundary, the settled cost is not negative
  and not above the reserved one.\<close>

theorem reservation_covers_settlement:
  assumes "scanReservationJSON n doc = (model, I, Out, ok)" "I \<le> 2 ^ 45"
    and "0 \<le> i" "i \<le> I" "0 \<le> out" "out \<le> Out"
  shows "0 \<le> CostInUSDTicks (fst (EstimateCost model i c out i)) \<and>
    CostInUSDTicks (fst (EstimateCost model i c out i)) \<le> CostInUSDTicks (fst (EstimateTextReservationFromBody n doc))"
proof (cases "trim_space model = [] \<or> resolveOfficialTokenPrice model = None")
  case True
  have "resolveOfficialTokenPrice model = None" if "trim_space model = []"
  proof -
    have "resolveOfficialTokenPrice [] = None" by code_simp
    with that show ?thesis by (simp add: resolveOfficialTokenPrice_def normalizePricingModel_def)
  qed
  with True have "resolveOfficialTokenPrice model = None" by blast
  then show ?thesis using assms(1)
    by (simp add: EstimateTextReservationFromBody_def EstimateCost_def no_result_def)
next
  case False
  then have "EstimateTextReservationFromBody n doc = EstimateCost model I 0 Out I"
    using assms(1) by (auto simp: EstimateTextReservationFromBody_def)
  then show ?thesis
    using cost_nonneg_mono [of i I out Out model c] assms scan_bounds [OF assms(1)] by simp
qed

theorem reservation_covers_settlement_witness:
  "CostInUSDTicks (fst (EstimateCost ''grok-4.5'' 200 50 16000 200)) \<le>
   CostInUSDTicks (fst (EstimateTextReservationFromBody 40 (JObj [(''model'', JStr ''grok-4.5''), (''input'', JStr ''hi'')])))"
proof -
  have "scanReservationJSON 40 (JObj [(''model'', JStr ''grok-4.5''), (''input'', JStr ''hi'')]) = (''grok-4.5'', 256, 16384, True)"
    by code_simp
  from reservation_covers_settlement [OF this, of 200 16000 50] show ?thesis by simp
qed

end
