(* ===== verification/Billing_Store.thy ===== *)
theory Billing_Store
  imports Go_Prelude "HOL-Library.AList"
begin

text \<open>
  The spending ledger of a client key: \<^verbatim>\<open>internal/billingledger/event.go\<close> (event identities and their
  retention window), the billing scripts of \<^verbatim>\<open>internal/store/redis_scripts.go\<close> and the operations of
  \<^verbatim>\<open>internal/store/redis_api_keys.go\<close> that run them.

  \<^item> The Redis state of one key is the record \<open>billing_key\<close>: the row, the limit mirror, the settled
    counter, the hash of holds and the receipts of settled events. A receipt's key is the event (the
    code hashes it); amounts stay below \<open>10^14\<close>, where Lua prints a number in full, and sums below
    \<open>2^53\<close>, where its numbers are exact.
  \<^item> Every call names the clock readings it makes and what becomes of its round trip, which may fail
    after the script has run.
\<close>

section \<open>Event identities\<close>

definition Retention :: duration where "Retention = 7 * 24 * hour"

definition EventID :: "time \<Rightarrow> string \<Rightarrow> string" where
  "EventID now requestID = ''v2:'' @ itoa (unix_second now) @ '':'' @ requestID"

text \<open>The parts of \<open>strings.SplitN(s, sep, 2)\<close>.\<close>

definition split_once :: "char \<Rightarrow> string \<Rightarrow> (string \<times> string) option" where
  "split_once c s =
     (if c \<in> set s then Some (takeWhile (\<lambda>d. d \<noteq> c) s, drop 1 (dropWhile (\<lambda>d. d \<noteq> c) s)) else None)"

definition split3 :: "string \<Rightarrow> (string \<times> string \<times> string) option" where
  "split3 s =
     (case split_once (CHR '':'') s of
        None \<Rightarrow> None
      | Some (a, rest) \<Rightarrow> map_option (\<lambda>(b, c). (a, b, c)) (split_once (CHR '':'') rest))"

definition EventExpiry :: "string \<Rightarrow> time \<Rightarrow> string + time" where
  "EventExpiry event now =
     (case split3 event of
        None \<Rightarrow> Inl ''invalid billing event identity''
      | Some (version, stamp, request) \<Rightarrow>
          if version \<noteq> ''v2'' \<or> request = [] then Inl ''invalid billing event identity''
          else case parse_int64 stamp of
            None \<Rightarrow> Inl ''invalid billing event timestamp''
          | Some seconds \<Rightarrow>
              let created = time_unix seconds; expiry = created + Retention
              in if created > now + 5 * minute \<or> \<not> expiry > now
                 then Inl ''billing event outside settlement retention window''
                 else Inr expiry)"

section \<open>The state of a key\<close>

record api_key_row =
  row_period_days :: int
  row_period_started_at :: string
  row_updated_at :: string

text \<open>A hold is its amount and its expiry in Unix seconds, \<open>None\<close> for a value of another form; a receipt
  is the amount and its expiry in Unix milliseconds. \<open>bk_legacy\<close> is the lifetime of the old unbounded
  hash, when that key exists.\<close>

record billing_key =
  bk_row :: "api_key_row option"
  bk_limit :: int
  bk_used :: int
  bk_holds :: "(string \<times> (int \<times> int) option) list"
  bk_holds_expire :: "int option"
  bk_receipts :: "(string \<times> int \<times> int) list"
  bk_legacy :: "int option option"

definition with_holds :: "(string \<times> (int \<times> int) option) list \<Rightarrow> billing_key \<Rightarrow> billing_key" where
  "with_holds holds k = (if holds = [] then k\<lparr>bk_holds := [], bk_holds_expire := None\<rparr> else k\<lparr>bk_holds := holds\<rparr>)"

text \<open>The keys as Redis sees them at \<open>clock\<close> milliseconds.\<close>

definition billing_at :: "int \<Rightarrow> billing_key \<Rightarrow> billing_key" where
  "billing_at clock k =
     (case bk_holds_expire k of Some e \<Rightarrow> if e \<le> clock then with_holds [] k else k | None \<Rightarrow> k)"

definition receipt_at :: "int \<Rightarrow> billing_key \<Rightarrow> string \<Rightarrow> int option" where
  "receipt_at clock k event =
     (case map_of (bk_receipts k) event of
        Some (amount, expiry) \<Rightarrow> if expiry \<le> clock then None else Some amount
      | None \<Rightarrow> None)"

section \<open>The scripts\<close>

text \<open>The loop over the hash: whether the event's own hold was met (with the same amount or not), the
  fields that are left, the sum of the live holds and the latest expiry.\<close>

fun reserve_loop ::
  "string \<Rightarrow> int \<Rightarrow> int \<Rightarrow> (string \<times> (int \<times> int) option) list \<Rightarrow> (string \<times> (int \<times> int) option) list \<Rightarrow> int \<Rightarrow> int \<Rightarrow>
   bool option \<times> (string \<times> (int \<times> int) option) list \<times> int \<times> int" where
  "reserve_loop event amount now [] holds live_sum max_expiry = (None, holds, live_sum, max_expiry)"
| "reserve_loop event amount now ((field, raw) # entries) holds live_sum max_expiry =
     (case raw of
        None \<Rightarrow> reserve_loop event amount now entries (AList.delete field holds) live_sum max_expiry
      | Some (held, expiry) \<Rightarrow>
          if expiry \<le> now then reserve_loop event amount now entries (AList.delete field holds) live_sum max_expiry
          else if field = event then (Some (held = amount), holds, live_sum, max_expiry)
          else reserve_loop event amount now entries holds (live_sum + held) (max max_expiry expiry))"

definition reserveApiKeyBillingScript ::
  "int \<Rightarrow> string \<Rightarrow> int \<Rightarrow> int \<Rightarrow> int \<Rightarrow> billing_key \<Rightarrow> (string + int) \<times> billing_key" where
  "reserveApiKeyBillingScript clock event amount now expires_at k0 =
     (let k = billing_at clock k0;
          (own, holds, live_sum, max_expiry) = reserve_loop event amount now (bk_holds k) (bk_holds k) 0 expires_at;
          k1 = with_holds holds k
      in case own of
           Some same \<Rightarrow>
             (if same then Inr 1 else Inl ''billing reservation exists with a different amount'', k1)
         | None \<Rightarrow>
             if bk_limit k > 0 \<and> bk_used k + live_sum + amount > bk_limit k then (Inr 0, k1)
             else (Inr 1, (with_holds (AList.update event (Some (amount, expires_at)) holds) k1)
                            \<lparr>bk_holds_expire := Some (max_expiry * 1000 + 60000)\<rparr>))"

definition settleApiKeyBillingScript ::
  "int \<Rightarrow> string \<Rightarrow> int \<Rightarrow> int \<Rightarrow> int \<Rightarrow> billing_key \<Rightarrow> (string + int) \<times> billing_key" where
  "settleApiKeyBillingScript clock event amount expiry retention k0 =
     (let k = billing_at clock k0 in
      if bk_row k = None then (Inl ''api key not found'', k)
      else if expiry \<le> clock div 1000 * 1000 then (Inl ''billing event expired'', k)
      else case receipt_at clock k event of
        Some prior \<Rightarrow> (Inr (if prior \<noteq> amount then -1 else 0), k)
      | None \<Rightarrow>
          let k1 = k\<lparr>bk_receipts := AList.update event (amount, expiry) (bk_receipts k),
                     bk_legacy := (case bk_legacy k of Some None \<Rightarrow> Some (Some (clock + retention * 1000)) | l \<Rightarrow> l)\<rparr>;
              k2 = with_holds (AList.delete event (bk_holds k1)) k1
          in if bk_used k2 + amount > max_int64 then (Inl ''increment or decrement would overflow'', k2)
             else (Inr 1, k2\<lparr>bk_used := bk_used k2 + amount\<rparr>))"

definition releaseApiKeyBillingScript :: "int \<Rightarrow> string \<Rightarrow> billing_key \<Rightarrow> int \<times> billing_key" where
  "releaseApiKeyBillingScript clock event k0 =
     (let k = billing_at clock k0
      in (if event \<in> fst ` set (bk_holds k) then 1 else 0, with_holds (AList.delete event (bk_holds k)) k))"

definition resetApiKeyBillingScript :: "billing_key \<Rightarrow> billing_key" where
  "resetApiKeyBillingScript k = (with_holds [] k)\<lparr>bk_used := 0, bk_legacy := None\<rparr>"

definition rolloverApiKeyBillingScript ::
  "string \<Rightarrow> string \<Rightarrow> int \<Rightarrow> billing_key \<Rightarrow> (string + int) \<times> billing_key" where
  "rolloverApiKeyBillingScript expected now days k =
     (case bk_row k of
        None \<Rightarrow> (Inl ''api key not found'', k)
      | Some row \<Rightarrow>
          let current_start = row_period_started_at row in
          if row_period_days row \<noteq> days then (Inr 0, k)
          else if expected = [] \<and> current_start \<noteq> [] \<and> take 5 current_start \<noteq> ''0001-'' then (Inr 0, k)
          else if expected \<noteq> [] \<and> current_start \<noteq> expected then (Inr 0, k)
          else (Inr 1, k\<lparr>bk_row := Some (row\<lparr>row_period_started_at := now, row_updated_at := now\<rparr>),
                         bk_used := 0, bk_legacy := None\<rparr>))"

section \<open>The operations of the store\<close>

type_synonym billing_db = "int \<Rightarrow> billing_key"

datatype trip = Trip_ok | Trip_lost bool

text \<open>\<open>be_now\<close> is the process's clock, \<open>be_clock\<close> the server's in milliseconds; a lost trip says whether
  the script ran.\<close>

record billing_env =
  be_now :: time
  be_clock :: int
  be_trip :: trip

definition transport_error :: string where "transport_error = ''redis transport error''"
definition ErrNoRows :: string where "ErrNoRows = ''no rows''"

definition run_script :: "billing_env \<Rightarrow> int \<Rightarrow> (string + 'a) \<times> billing_key \<Rightarrow> billing_db \<Rightarrow> (string + 'a) \<times> billing_db" where
  "run_script e i r db =
     (case be_trip e of
        Trip_ok \<Rightarrow> (fst r, db(i := snd r))
      | Trip_lost executed \<Rightarrow> (Inl transport_error, if executed then db(i := snd r) else db))"

definition ReserveApiKeyBilling ::
  "billing_env \<Rightarrow> int \<Rightarrow> string \<Rightarrow> int \<Rightarrow> time \<Rightarrow> billing_db \<Rightarrow> (string + bool) \<times> billing_db" where
  "ReserveApiKeyBilling e i event amount expiresAt db =
     (if i = 0 \<or> trim_space event = [] then (Inl ErrNoRows, db)
      else if amount \<le> 0 then (Inl ''billing reservation amount must be positive'', db)
      else if is_zero expiresAt then (Inl ''billing reservation expiry is required'', db)
      else
        let (r, db') = run_script e i (reserveApiKeyBillingScript (be_clock e) event amount
                         (unix_second (be_now e)) (unix_second expiresAt) (db i)) db
        in (case r of Inl err \<Rightarrow> Inl err | Inr n \<Rightarrow> Inr (n = 1), db'))"

definition SettleApiKeyBilling ::
  "billing_env \<Rightarrow> int \<Rightarrow> string \<Rightarrow> int \<Rightarrow> billing_db \<Rightarrow> string option \<times> billing_db" where
  "SettleApiKeyBilling e i event amount db =
     (if i = 0 \<or> trim_space event = [] then (Some ErrNoRows, db)
      else if amount < 0 then (Some ''billing settlement amount must not be negative'', db)
      else case EventExpiry event (be_now e) of
        Inl err \<Rightarrow> (Some err, db)
      | Inr expiry \<Rightarrow>
          let (r, db') = run_script e i (settleApiKeyBillingScript (be_clock e) event amount
                           (unix_milli expiry) (Retention div second) (db i)) db
          in (case r of
                Inl err \<Rightarrow> Some err
              | Inr n \<Rightarrow> if n < 0 then Some ''billing event was already settled with a different amount'' else None, db'))"

definition ReleaseApiKeyBilling ::
  "billing_env \<Rightarrow> int \<Rightarrow> string \<Rightarrow> billing_db \<Rightarrow> (string + bool) \<times> billing_db" where
  "ReleaseApiKeyBilling e i event db =
     (if i = 0 \<or> trim_space event = [] then (Inl ErrNoRows, db)
      else
        let (n, k) = releaseApiKeyBillingScript (be_clock e) event (db i);
            (r, db') = run_script e i (Inr n, k) db
        in (case r of Inl err \<Rightarrow> Inl err | Inr n \<Rightarrow> Inr (n = 1), db'))"

definition ResetApiKeyBilling :: "billing_env \<Rightarrow> int \<Rightarrow> billing_db \<Rightarrow> string option \<times> billing_db" where
  "ResetApiKeyBilling e i db =
     (if i = 0 then (Some ErrNoRows, db)
      else let (r, db') = run_script e i (Inr (), resetApiKeyBillingScript (db i)) db
           in (case r of Inl err \<Rightarrow> Some err | Inr _ \<Rightarrow> None, db'))"

text \<open>\<open>add_days\<close> and \<open>rfc3339\<close> stand for \<open>AddDate(0, 0, n)\<close> and \<open>Format(time.RFC3339Nano)\<close>.\<close>

definition RolloverApiKeyBilling ::
  "(time \<Rightarrow> int \<Rightarrow> time) \<Rightarrow> (time \<Rightarrow> string) \<Rightarrow> billing_env \<Rightarrow> int \<Rightarrow> int \<Rightarrow> time \<Rightarrow> billing_db \<Rightarrow>
   (string + bool) \<times> billing_db" where
  "RolloverApiKeyBilling add_days rfc3339 e i days started db =
     (if i = 0 then (Inl ErrNoRows, db)
      else if days \<le> 0 then (Inr False, db)
      else if \<not> is_zero started \<and> be_now e < add_days started days then (Inr False, db)
      else
        let expected = (if is_zero started then [] else rfc3339 started);
            (r, db') = run_script e i (rolloverApiKeyBillingScript expected (rfc3339 (be_now e)) days (db i)) db
        in (case r of Inl err \<Rightarrow> Inl err | Inr n \<Rightarrow> Inr (n = 1), db'))"

section \<open>Event identities round-trip\<close>

lemma digits_no_colon: "CHR '':'' \<notin> set (itoa n)"
proof -
  have "\<not> is_digit CHR '':''" by code_simp
  then have "CHR '':'' \<notin> set (nat_digits k)" for k
    using nat_digits_value [of k] by (auto simp: list_all_iff)
  then show ?thesis by (simp add: itoa_def)
qed

lemma split_once_append: "c \<notin> set a \<Longrightarrow> split_once c (a @ c # b) = Some (a, b)"
  by (induction a) (auto simp: split_once_def)

lemma split3_EventID: "split3 (EventID now r) = Some (''v2'', itoa (unix_second now), r)"
proof -
  have "split_once (CHR '':'') (''v2'' @ CHR '':'' # (itoa (unix_second now) @ CHR '':'' # r)) =
      Some (''v2'', itoa (unix_second now) @ CHR '':'' # r)"
    by (rule split_once_append) simp
  moreover have "EventID now r = ''v2'' @ CHR '':'' # (itoa (unix_second now) @ CHR '':'' # r)"
    by (simp add: EventID_def)
  ultimately show ?thesis
    unfolding split3_def by (simp add: split_once_append [OF digits_no_colon])
qed

lemma EventExpiry_EventID:
  assumes "r \<noteq> []" "min_int64 \<le> unix_second now" "unix_second now \<le> max_int64"
  shows "EventExpiry (EventID now r) now' =
    (if time_unix (unix_second now) > now' + 5 * minute \<or> time_unix (unix_second now) + Retention \<le> now'
     then Inl ''billing event outside settlement retention window''
     else Inr (time_unix (unix_second now) + Retention))"
  using assms parse_itoa [OF assms(2,3)] unfolding EventExpiry_def split3_EventID
  by (simp add: Let_def not_less)

text \<open>An event identity carries its creation time: read back at any time from its creation to a second
  short of seven days later it yields the expiry seven days after the (whole) creation second, and
  from the expiry on it is refused.\<close>

lemma event_identity_roundtrip:
  assumes "r \<noteq> []" "min_int64 \<le> unix_second now" "unix_second now \<le> max_int64" "now \<le> now'"
  shows "(now' < now + Retention - second \<longrightarrow>
      EventExpiry (EventID now r) now' = Inr (time_unix (unix_second now) + Retention)) \<and>
    (now + Retention \<le> now' \<longrightarrow> (\<exists>err. EventExpiry (EventID now r) now' = Inl err))"
  using EventExpiry_EventID [OF assms(1-3), of now'] unix_second_bounds [of now] assms(4)
  by (auto simp: minute_def)

section \<open>Holds within the limit\<close>

definition live_held :: "int \<Rightarrow> (string \<times> (int \<times> int) option) list \<Rightarrow> int" where
  "live_held now hs = (\<Sum>(_, raw) \<leftarrow> hs. case raw of Some (held, expiry) \<Rightarrow> (if now < expiry then held else 0) | None \<Rightarrow> 0)"

definition holds_ok :: "(string \<times> (int \<times> int) option) list \<Rightarrow> bool" where
  "holds_ok hs \<longleftrightarrow> distinct (map fst hs) \<and> (\<forall>(_, raw) \<in> set hs. case raw of Some (held, _) \<Rightarrow> 0 \<le> held | None \<Rightarrow> True)"

lemma live_held_simps [simp]:
  "live_held now [] = 0"
  "live_held now ((f, raw) # hs) =
     (case raw of Some (held, expiry) \<Rightarrow> (if now < expiry then held else 0) | None \<Rightarrow> 0) + live_held now hs"
  by (simp_all add: live_held_def)

lemma holds_ok_Cons [simp]:
  "holds_ok [] = True"
  "holds_ok ((f, raw) # hs) \<longleftrightarrow> f \<notin> fst ` set hs \<and> (case raw of Some (held, _) \<Rightarrow> 0 \<le> held | None \<Rightarrow> True) \<and> holds_ok hs"
  by (auto simp: holds_ok_def)

lemma live_held_nonneg: "holds_ok hs \<Longrightarrow> 0 \<le> live_held now hs"
  by (induction hs) (auto split: option.splits)

lemma live_held_antimono: "holds_ok hs \<Longrightarrow> now \<le> now' \<Longrightarrow> live_held now' hs \<le> live_held now hs"
  by (induction hs) (fastforce split: option.splits)+

lemma live_held_delete: "holds_ok hs \<Longrightarrow> live_held now (AList.delete f hs) \<le> live_held now hs"
  by (induction hs) (auto simp: AList.delete_simps split: option.splits)

lemma holds_ok_delete: "holds_ok hs \<Longrightarrow> holds_ok (AList.delete f hs)"
  by (auto simp: holds_ok_def AList.delete_eq distinct_map_filter)

lemma live_held_update:
  assumes "holds_ok hs" "0 \<le> amount"
  shows "live_held now (AList.update f (Some (amount, expiry)) hs) \<le> live_held now hs + amount"
  using assms by (induction hs) (auto split: option.splits)

lemma holds_ok_update: "holds_ok hs \<Longrightarrow> 0 \<le> amount \<Longrightarrow> holds_ok (AList.update f (Some (amount, expiry)) hs)"
  by (induction hs) (force simp: dom_update split: option.splits)+

lemma reserve_loop_holds:
  "reserve_loop event amount now es hs live latest = (own, hs', live', latest') \<Longrightarrow>
     (holds_ok hs \<longrightarrow> holds_ok hs' \<and> live_held t hs' \<le> live_held t hs) \<and>
     (own = None \<longrightarrow> live' = live + live_held now es)"
proof (induction event amount now es hs live latest rule: reserve_loop.induct)
  case (2 event amount now field raw entries hs live latest)
  show ?case
  proof (cases raw)
    case None
    with 2 holds_ok_delete live_held_delete [of hs t field] show ?thesis by (auto intro: order_trans)
  next
    case (Some r)
    obtain held expiry where r: "r = (held, expiry)" by fastforce
    show ?thesis
    proof (cases "expiry \<le> now")
      case True
      with 2 Some r have
        "(holds_ok (AList.delete field hs) \<longrightarrow> holds_ok hs' \<and> live_held t hs' \<le> live_held t (AList.delete field hs)) \<and>
         (own = None \<longrightarrow> live' = live + live_held now entries)" by simp
      with Some r True holds_ok_delete [of hs field] live_held_delete [of hs t field] show ?thesis by auto
    next
      case False
      with 2 Some r show ?thesis by (cases "field = event") (auto simp: algebra_simps)
    qed
  qed
qed auto

definition key_ok :: "billing_key \<Rightarrow> bool" where
  "key_ok k \<longleftrightarrow> holds_ok (bk_holds k)"

definition committed :: "int \<Rightarrow> billing_key \<Rightarrow> int" where
  "committed now k = bk_used k + live_held now (bk_holds k)"

lemma with_holds_simps [simp]:
  "bk_holds (with_holds hs k) = hs" "bk_used (with_holds hs k) = bk_used k" "bk_limit (with_holds hs k) = bk_limit k"
  "bk_receipts (with_holds hs k) = bk_receipts k" "bk_row (with_holds hs k) = bk_row k" "bk_legacy (with_holds hs k) = bk_legacy k"
  by (simp_all add: with_holds_def)

lemma billing_at_simps [simp]:
  "bk_used (billing_at c k) = bk_used k" "bk_limit (billing_at c k) = bk_limit k" "bk_receipts (billing_at c k) = bk_receipts k"
  "bk_row (billing_at c k) = bk_row k" "bk_legacy (billing_at c k) = bk_legacy k"
  by (simp_all add: billing_at_def split: option.split)

lemma billing_at_holds: "bk_holds (billing_at c k) = bk_holds k \<or> bk_holds (billing_at c k) = []"
  by (simp add: billing_at_def split: option.split)

lemma billing_at_ok: "key_ok k \<Longrightarrow> key_ok (billing_at c k) \<and> committed t (billing_at c k) \<le> committed t k"
  using billing_at_holds [of c k] live_held_nonneg [of "bk_holds k" t] by (auto simp: key_ok_def committed_def)

lemma reserve_script_used:
  "reserveApiKeyBillingScript clock event amount now expires k = (r, k') \<Longrightarrow>
     bk_limit k' = bk_limit k \<and> bk_used k' = bk_used k \<and> bk_receipts k' = bk_receipts k \<and> bk_row k' = bk_row k"
  by (auto simp: reserveApiKeyBillingScript_def Let_def split: prod.splits option.splits if_splits)

lemma reserve_script_committed:
  assumes "key_ok k" "0 \<le> amount" "reserveApiKeyBillingScript clock event amount now expires k = (r, k')"
  shows "key_ok k' \<and> (committed now k' \<le> committed now k \<or> bk_limit k \<le> 0 \<or> committed now k' \<le> bk_limit k)"
proof -
  define k1 where "k1 = billing_at clock k"
  obtain own hs live latest where loop:
    "reserve_loop event amount now (bk_holds k1) (bk_holds k1) 0 expires = (own, hs, live, latest)"
    by (metis prod_cases4)
  have k1: "key_ok k1" "committed now k1 \<le> committed now k"
    using billing_at_ok [OF assms(1), of clock now] by (simp_all add: k1_def)
  then have hs: "holds_ok hs" "live_held now hs \<le> live_held now (bk_holds k1)"
    "own = None \<Longrightarrow> live = live_held now (bk_holds k1)"
    using reserve_loop_holds [OF loop, of now] by (auto simp: key_ok_def)
  have eq: "(r, k') = (case own of
      Some same \<Rightarrow> (if same then Inr 1 else Inl ''billing reservation exists with a different amount'', with_holds hs k1)
    | None \<Rightarrow> if bk_limit k1 > 0 \<and> bk_used k1 + live + amount > bk_limit k1 then (Inr 0, with_holds hs k1)
        else (Inr 1, (with_holds (AList.update event (Some (amount, expires)) hs) (with_holds hs k1))
                 \<lparr>bk_holds_expire := Some (latest * 1000 + 60000)\<rparr>))"
    using assms(3) loop unfolding reserveApiKeyBillingScript_def Let_def k1_def by (auto split: option.splits if_splits)
  consider "k' = with_holds hs k1" |
    "own = None" "\<not> (bk_limit k1 > 0 \<and> bk_used k1 + live + amount > bk_limit k1)"
      "bk_holds k' = AList.update event (Some (amount, expires)) hs" "bk_used k' = bk_used k1"
    using eq by (cases own) (auto split: if_splits)
  then show ?thesis
  proof cases
    case 1
    with hs k1(2) show ?thesis by (simp add: key_ok_def committed_def)
  next
    case 2
    have "live_held now (bk_holds k') \<le> live_held now hs + amount"
      using live_held_update [OF hs(1) assms(2)] 2 by simp
    with 2 hs holds_ok_update [OF hs(1) assms(2)] show ?thesis
      by (auto simp: key_ok_def committed_def k1_def)
  qed
qed

lemma live_held_settled:
  assumes "holds_ok hs" "(event, Some (held, expiry)) \<in> set hs" "now < expiry"
  shows "live_held now (AList.delete event hs) + held \<le> live_held now hs"
  using assms
proof (induction hs)
  case (Cons h hs)
  obtain f raw where h: "h = (f, raw)" by fastforce
  show ?case
  proof (cases "f = event")
    case True
    with Cons.prems h have "raw = Some (held, expiry)" by (auto simp: rev_image_eqI)
    with True Cons.prems h live_held_delete [of hs now event] show ?thesis by (simp add: AList.delete_simps)
  next
    case False
    with Cons h show ?thesis by (auto split: option.splits)
  qed
qed simp

lemma settle_script_committed:
  assumes "key_ok k" "settleApiKeyBillingScript clock event amount expiry retention k = (r, k')"
    and "(event, Some (held, until)) \<in> set (bk_holds (billing_at clock k))" "now < until" "amount \<le> held"
  shows "key_ok k' \<and> bk_limit k' = bk_limit k \<and> committed now k' \<le> committed now k"
proof -
  define k1 where "k1 = billing_at clock k"
  have k1: "key_ok k1" "committed now k1 \<le> committed now k" "bk_limit k1 = bk_limit k"
    using billing_at_ok [OF assms(1), of clock now] by (simp_all add: k1_def)
  have "k' = k1 \<or> (bk_holds k' = AList.delete event (bk_holds k1) \<and> bk_limit k' = bk_limit k1 \<and>
      (bk_used k' = bk_used k1 \<or> bk_used k' = bk_used k1 + amount))"
    using assms(2) by (auto simp: settleApiKeyBillingScript_def Let_def k1_def split: option.splits if_splits)
  moreover have "live_held now (AList.delete event (bk_holds k1)) + held \<le> live_held now (bk_holds k1)"
    using live_held_settled [of "bk_holds k1" event held until now] k1(1) assms(3,4) by (simp add: key_ok_def k1_def)
  moreover have "live_held now (AList.delete event (bk_holds k1)) \<le> live_held now (bk_holds k1)"
    using k1(1) live_held_delete by (simp add: key_ok_def)
  ultimately show ?thesis using k1 assms(5) holds_ok_delete [of "bk_holds k1" event]
    by (auto simp: key_ok_def committed_def)
qed

lemma release_script_committed:
  assumes "key_ok k" "releaseApiKeyBillingScript clock event k = (n, k')"
  shows "key_ok k' \<and> bk_limit k' = bk_limit k \<and> committed now k' \<le> committed now k"
  using assms billing_at_ok [OF assms(1), of clock now] holds_ok_delete [of "bk_holds (billing_at clock k)" event]
    live_held_delete [of "bk_holds (billing_at clock k)" now event]
  by (auto simp: releaseApiKeyBillingScript_def Let_def key_ok_def committed_def)

text \<open>A history of scripts on one key at non-decreasing times, every settlement charging at most the live
  hold of its event.\<close>

inductive billing_run :: "billing_key \<Rightarrow> int \<Rightarrow> billing_key \<Rightarrow> int \<Rightarrow> bool" for k t where
  run_start: "t \<le> t' \<Longrightarrow> billing_run k t k t'"
| run_reserve: "billing_run k t k1 t1 \<Longrightarrow> t1 \<le> now \<Longrightarrow> 0 < amount \<Longrightarrow>
    reserveApiKeyBillingScript clock event amount now expires k1 = (r, k2) \<Longrightarrow> billing_run k t k2 now"
| run_settle: "billing_run k t k1 t1 \<Longrightarrow> t1 \<le> now \<Longrightarrow>
    (event, Some (held, until)) \<in> set (bk_holds (billing_at clock k1)) \<Longrightarrow> now < until \<Longrightarrow> 0 \<le> amount \<Longrightarrow> amount \<le> held \<Longrightarrow>
    settleApiKeyBillingScript clock event amount expiry retention k1 = (r, k2) \<Longrightarrow> billing_run k t k2 now"
| run_release: "billing_run k t k1 t1 \<Longrightarrow> t1 \<le> now \<Longrightarrow>
    releaseApiKeyBillingScript clock event k1 = (n, k2) \<Longrightarrow> billing_run k t k2 now"
| run_reset: "billing_run k t k1 t1 \<Longrightarrow> t1 \<le> now \<Longrightarrow> billing_run k t (resetApiKeyBillingScript k1) now"
| run_rollover: "billing_run k t k1 t1 \<Longrightarrow> t1 \<le> now \<Longrightarrow>
    rolloverApiKeyBillingScript expected stamp days k1 = (r, k2) \<Longrightarrow> billing_run k t k2 now"

definition within_budget :: "int \<Rightarrow> int \<Rightarrow> billing_key \<Rightarrow> bool" where
  "within_budget limit now k \<longleftrightarrow> key_ok k \<and> bk_limit k = limit \<and> committed now k \<le> limit \<and> 0 \<le> bk_used k"

lemma within_budget_later: "within_budget limit t k \<Longrightarrow> t \<le> t' \<Longrightarrow> within_budget limit t' k"
  using live_held_antimono [of "bk_holds k" t t'] by (auto simp: within_budget_def committed_def key_ok_def)


lemma settle_script_used:
  "settleApiKeyBillingScript clock event amount expiry retention k = (r, k') \<Longrightarrow> 0 \<le> amount \<Longrightarrow> bk_used k \<le> bk_used k'"
  by (auto simp: settleApiKeyBillingScript_def Let_def split: option.splits if_splits)

lemma release_script_used: "releaseApiKeyBillingScript clock event k = (n, k') \<Longrightarrow> bk_used k' = bk_used k"
  by (auto simp: releaseApiKeyBillingScript_def Let_def)

lemma reset_within: "within_budget limit now k \<Longrightarrow> within_budget limit now (resetApiKeyBillingScript k)"
  using live_held_nonneg [of "bk_holds k" now]
  by (simp add: within_budget_def resetApiKeyBillingScript_def key_ok_def committed_def)

lemma rollover_within:
  "within_budget limit now k \<Longrightarrow> rolloverApiKeyBillingScript expected stamp days k = (r, k') \<Longrightarrow> within_budget limit now k'"
  by (auto simp: within_budget_def rolloverApiKeyBillingScript_def key_ok_def committed_def Let_def
      split: option.splits if_splits)

lemma billing_run_within:
  "billing_run k t k' t' \<Longrightarrow> within_budget limit t k \<Longrightarrow> 0 < limit \<Longrightarrow> within_budget limit t' k'"
proof (induction rule: billing_run.induct)
  case (run_start t')
  then show ?case using within_budget_later by blast
next
  case (run_reserve k1 t1 now amount clock event expires r k2)
  then have "within_budget limit now k1" using within_budget_later by blast
  with run_reserve.hyps reserve_script_committed [of k1 amount clock event now expires r k2]
    reserve_script_used [of clock event amount now expires k1 r k2] run_reserve.prems
  show ?case by (auto simp: within_budget_def)
next
  case (run_settle k1 t1 now event held until clock amount expiry retention r k2)
  then have "within_budget limit now k1" using within_budget_later by blast
  with run_settle.hyps settle_script_committed [of k1 clock event amount expiry retention r k2 held until now]
    settle_script_used [of clock event amount expiry retention k1 r k2]
  show ?case by (auto simp: within_budget_def)
next
  case (run_release k1 t1 now clock event n k2)
  then have "within_budget limit now k1" using within_budget_later by blast
  with run_release.hyps release_script_committed [of k1 clock event n k2 now] release_script_used [of clock event k1 n k2]
  show ?case by (auto simp: within_budget_def)
next
  case (run_reset k1 t1 now)
  then show ?case using within_budget_later reset_within by blast
next
  case (run_rollover k1 t1 now expected stamp days r k2)
  then show ?case using within_budget_later rollover_within by blast
qed


text \<open>A key of limit 10: a hold of 6 is granted, a second one of 5 is refused, and the first settles 4.\<close>

definition demo_key :: billing_key where
  "demo_key = \<lparr>bk_row = Some \<lparr>row_period_days = 0, row_period_started_at = [], row_updated_at = []\<rparr>,
     bk_limit = 10, bk_used = 0, bk_holds = [], bk_holds_expire = None, bk_receipts = [], bk_legacy = None\<rparr>"

definition demo_held :: billing_key where
  "demo_held = snd (reserveApiKeyBillingScript 0 ''a'' 6 0 100 demo_key)"

definition demo_settled :: billing_key where
  "demo_settled = snd (settleApiKeyBillingScript 0 ''a'' 4 500000 604800 (snd (reserveApiKeyBillingScript 0 ''b'' 5 1 100 demo_held)))"

lemma demo_run: "billing_run demo_key 0 demo_settled 2"
proof -
  have a: "billing_run demo_key 0 demo_held 0"
    by (rule run_reserve [OF run_start [of 0 0 demo_key], where now = 0 and clock = 0 and event = "''a''" and amount = 6
          and expires = 100 and r = "Inr 1"]) (simp, simp, simp, code_simp)
  have b: "billing_run demo_key 0 demo_held 1"
    by (rule run_reserve [OF a, where now = 1 and clock = 0 and event = "''b''" and amount = 5 and expires = 100
          and r = "Inr 0"]) (simp, simp, code_simp)
  show ?thesis
    by (rule run_settle [OF b, where now = 2 and event = "''a''" and held = 6 and until = 100 and clock = 0 and amount = 4
          and expiry = 500000 and retention = 604800 and r = "Inr 1"])
      (simp, code_simp, simp, simp, simp, code_simp)
qed

lemma demo_values: "within_budget 10 0 demo_key" "bk_limit demo_key = 10" "bk_used demo_settled = 4"
    "bk_holds demo_settled = []"
  by (simp add: demo_key_def within_budget_def key_ok_def committed_def, simp add: demo_key_def, code_simp, code_simp)



section \<open>The contract of a settlement store\<close>

text \<open>What the outbox relies on: \<open>booked\<close> is the amount charged for an event, \<open>sound\<close> the store's own
  invariant.\<close>

locale billing_store =
  fixes settle :: "'e \<Rightarrow> int \<Rightarrow> string \<Rightarrow> int \<Rightarrow> 's \<Rightarrow> string option \<times> 's"
    and booked :: "'s \<Rightarrow> int \<Rightarrow> string \<Rightarrow> int option"
    and sound :: "'s \<Rightarrow> bool"
  assumes settle_sound: "sound s \<Longrightarrow> settle e i event amount s = (r, s') \<Longrightarrow> sound s'"
    and settle_booked: "sound s \<Longrightarrow> settle e i event amount s = (None, s') \<Longrightarrow> booked s' i event = Some amount"
    and settle_once: "sound s \<Longrightarrow> settle e i event amount s = (r, s') \<Longrightarrow>
      booked s' = booked s \<or>
      (booked s i event = None \<and> booked s' = (booked s)(i := (booked s i)(event \<mapsto> amount)))"
begin

lemma booked_stays: "sound s \<Longrightarrow> settle e i event amount s = (r, s') \<Longrightarrow> booked s j ev = Some b \<Longrightarrow> booked s' j ev = Some b"
  using settle_once [of s e i event amount r s'] by (cases "i = j \<and> event = ev") auto

lemma booked_new:
  "sound s \<Longrightarrow> settle e i event amount s = (r, s') \<Longrightarrow> booked s' j ev = Some b \<Longrightarrow>
     booked s j ev = Some b \<or> (j = i \<and> ev = event \<and> b = amount)"
  using settle_once [of s e i event amount r s'] by (auto split: if_splits)

end

definition event_deadline :: "string \<Rightarrow> int" where
  "event_deadline event =
     (case split3 event of Some (_, stamp, _) \<Rightarrow>
        (case parse_int64 stamp of Some seconds \<Rightarrow> unix_milli (time_unix seconds + Retention) | None \<Rightarrow> 0)
      | None \<Rightarrow> 0)"

definition receipts_total :: "billing_key \<Rightarrow> int" where
  "receipts_total k = (\<Sum>(_, amount, _) \<leftarrow> bk_receipts k. amount)"

text \<open>The counter of every key is \<open>base\<close> plus its receipts, unless that passes the 64-bit range.\<close>

definition accounted :: "(int \<Rightarrow> int) \<Rightarrow> billing_db \<Rightarrow> bool" where
  "accounted base db \<longleftrightarrow>
     (\<forall>i. distinct (map fst (bk_receipts (db i))) \<and>
          (\<forall>(event, amount, expiry) \<in> set (bk_receipts (db i)). 0 \<le> amount \<and> expiry = event_deadline event) \<and>
          (bk_used (db i) = base i + receipts_total (db i) \<or> max_int64 < base i + receipts_total (db i)))"

definition booked_amount :: "billing_db \<Rightarrow> int \<Rightarrow> string \<Rightarrow> int option" where
  "booked_amount db i event = map_option fst (map_of (bk_receipts (db i)) event)"

lemma time_unix_milli: "unix_milli (time_unix s + Retention) = (s + 7 * 24 * 3600) * 1000"
  by (simp add: unix_milli_def time_unix_def Retention_def hour_def minute_def second_def millisecond_def)

lemma EventExpiry_deadline:
  "EventExpiry event now = Inr x \<Longrightarrow> unix_milli x = event_deadline event \<and> event_deadline event mod 1000 = 0"
  by (auto simp: EventExpiry_def event_deadline_def Let_def time_unix_milli split: option.splits prod.splits if_splits)

lemma settle_script_effect:
  assumes "settleApiKeyBillingScript clock event amount expiry retention k = (r, k')"
  shows "bk_receipts k' = bk_receipts k \<and> bk_used k' = bk_used k \<and>
      (r = Inr 0 \<longrightarrow> receipt_at clock (billing_at clock k) event = Some amount) \<and> (\<forall>n. r = Inr n \<longrightarrow> n \<le> 0) \<or>
    clock div 1000 * 1000 < expiry \<and> receipt_at clock (billing_at clock k) event = None \<and>
      bk_receipts k' = AList.update event (amount, expiry) (bk_receipts k) \<and>
      (bk_used k' = bk_used k + amount \<or> (bk_used k' = bk_used k \<and> max_int64 < bk_used k + amount))"
proof -
  define k1 where "k1 = billing_at clock k"
  have k1: "bk_receipts k1 = bk_receipts k" "bk_used k1 = bk_used k" by (simp_all add: k1_def)
  note run = assms [unfolded settleApiKeyBillingScript_def Let_def k1_def [symmetric]]
  consider "bk_row k1 = None" | "bk_row k1 \<noteq> None" "expiry \<le> clock div 1000 * 1000"
    | prior where "bk_row k1 \<noteq> None" "\<not> expiry \<le> clock div 1000 * 1000" "receipt_at clock k1 event = Some prior"
    | "bk_row k1 \<noteq> None" "\<not> expiry \<le> clock div 1000 * 1000" "receipt_at clock k1 event = None"
    by fastforce
  then show ?thesis
  proof cases
    case 1
    with run k1 show ?thesis by clarsimp
  next
    case 2
    with run k1 show ?thesis by (clarsimp simp del: not_None_eq)
  next
    case 3
    with run k1 show ?thesis by (clarsimp simp: k1_def [symmetric] simp del: not_None_eq)
  next
    case 4
    define k2 where "k2 = (k1\<lparr>bk_receipts := AList.update event (amount, expiry) (bk_receipts k1),
                     bk_legacy := (case bk_legacy k1 of Some None \<Rightarrow> Some (Some (clock + retention * 1000)) | l \<Rightarrow> l)\<rparr>)"
    define K where "K = with_holds (AList.delete event (bk_holds k2)) k2"
    have K: "bk_receipts K = AList.update event (amount, expiry) (bk_receipts k)" "bk_used K = bk_used k"
      by (simp_all add: K_def k2_def k1)
    have "(if bk_used K + amount > max_int64 then (Inl ''increment or decrement would overflow'', K)
             else (Inr 1, K\<lparr>bk_used := bk_used K + amount\<rparr>)) = (r, k')"
      using run 4 unfolding K_def k2_def by (simp only: if_False option.case(1))
    then have "bk_receipts k' = bk_receipts K \<and>
      (bk_used k' = bk_used K + amount \<or> (bk_used k' = bk_used K \<and> max_int64 < bk_used K + amount))"
      by (auto split: if_splits)
    moreover have "clock div 1000 * 1000 < expiry" using 4(2) by (simp only: not_le)
    ultimately show ?thesis using 4(3) unfolding K k1_def by blast
  qed
qed

lemma expired_receipt_refused:
  fixes clock :: int
  assumes "expiry mod 1000 = 0" "clock div 1000 * 1000 < expiry" shows "clock < expiry"
proof -
  obtain q where q: "expiry = q * 1000" using assms(1) by (metis mod_0_imp_dvd dvd_def mult.commute)
  with assms(2) have "clock div 1000 < q" by simp
  then have "clock div 1000 + 1 \<le> q" by simp
  moreover have "clock < (clock div 1000 + 1) * 1000" by (simp add: algebra_simps)
  ultimately show ?thesis using q by linarith
qed

lemma receipts_total_update:
  "map_of (bk_receipts k) event = None \<Longrightarrow> bk_receipts k' = AList.update event (amount, expiry) (bk_receipts k) \<Longrightarrow>
     receipts_total k' = receipts_total k + amount"
proof -
  have "(\<Sum>(_, a, _) \<leftarrow> AList.update event (amount, expiry) rs. a) = (\<Sum>(_, a, _) \<leftarrow> rs. a) + amount"
    if "map_of rs event = None" for rs
    using that by (induction rs) (auto split: if_splits)
  then show "map_of (bk_receipts k) event = None \<Longrightarrow> bk_receipts k' = AList.update event (amount, expiry) (bk_receipts k) \<Longrightarrow>
     receipts_total k' = receipts_total k + amount"
    by (simp add: receipts_total_def)
qed

lemma set_updated: "set (AList.update k v xs) \<subseteq> insert (k, v) (set xs)"
  by (induction xs) auto

lemma accounted_script:
  assumes ok: "accounted base db"
    and x: "expiry = event_deadline event" "expiry mod 1000 = 0" "0 \<le> amount"
    and run: "settleApiKeyBillingScript clock event amount expiry retention (db i) = (r, k')"
  shows "accounted base (db(i := k')) \<and>
    (booked_amount (db(i := k')) = booked_amount db \<or>
       (booked_amount db i event = None \<and>
        booked_amount (db(i := k')) = (booked_amount db)(i := (booked_amount db i)(event \<mapsto> amount)))) \<and>
    ((\<exists>n. r = Inr n \<and> 0 \<le> n) \<longrightarrow> booked_amount (db(i := k')) i event = Some amount)"
  using settle_script_effect [OF run]
proof
  assume "bk_receipts k' = bk_receipts (db i) \<and> bk_used k' = bk_used (db i) \<and>
    (r = Inr 0 \<longrightarrow> receipt_at clock (billing_at clock (db i)) event = Some amount) \<and> (\<forall>n. r = Inr n \<longrightarrow> n \<le> 0)"
  then have rejected: "bk_receipts k' = bk_receipts (db i)" "bk_used k' = bk_used (db i)"
    "r = Inr 0 \<Longrightarrow> receipt_at clock (billing_at clock (db i)) event = Some amount" "\<And>n. r = Inr n \<Longrightarrow> n \<le> 0" by blast+
  then have "booked_amount (db(i := k')) = booked_amount db" by (auto simp: booked_amount_def fun_eq_iff)
  moreover have "accounted base (db(i := k'))" using ok rejected by (auto simp: accounted_def receipts_total_def)
  moreover have "(\<exists>n. r = Inr n \<and> 0 \<le> n) \<longrightarrow> booked_amount db i event = Some amount"
  proof
    assume "\<exists>n. r = Inr n \<and> 0 \<le> n"
    with rejected(3,4) have "receipt_at clock (billing_at clock (db i)) event = Some amount" by (metis order_antisym)
    then show "booked_amount db i event = Some amount"
      by (auto simp: receipt_at_def booked_amount_def split: option.splits if_splits)
  qed
  ultimately show ?thesis by simp
next
  assume "clock div 1000 * 1000 < expiry \<and> receipt_at clock (billing_at clock (db i)) event = None \<and>
    bk_receipts k' = AList.update event (amount, expiry) (bk_receipts (db i)) \<and>
    (bk_used k' = bk_used (db i) + amount \<or> (bk_used k' = bk_used (db i) \<and> max_int64 < bk_used (db i) + amount))"
  then have charged: "clock div 1000 * 1000 < expiry" "receipt_at clock (billing_at clock (db i)) event = None"
    "bk_receipts k' = AList.update event (amount, expiry) (bk_receipts (db i))"
    "bk_used k' = bk_used (db i) + amount \<or> (bk_used k' = bk_used (db i) \<and> max_int64 < bk_used (db i) + amount)" by blast+
  have fresh: "map_of (bk_receipts (db i)) event = None"
  proof (rule ccontr)
    assume "map_of (bk_receipts (db i)) event \<noteq> None"
    then obtain a e where m: "map_of (bk_receipts (db i)) event = Some (a, e)" by auto
    with ok have "e = expiry" using x(1) by (force simp: accounted_def dest: map_of_SomeD)
    with m charged(2) have "expiry \<le> clock" by (auto simp: receipt_at_def split: if_splits)
    with expired_receipt_refused [OF x(2) charged(1)] show False by simp
  qed
  have "accounted base (db(i := k'))"
  proof -
    have "distinct (map fst (bk_receipts k'))"
      using ok charged(3) by (simp add: accounted_def distinct_update)
    moreover have "\<forall>(ev, a, e) \<in> set (bk_receipts k'). 0 \<le> a \<and> e = event_deadline ev"
      using ok charged(3) x set_updated [of event "(amount, expiry)" "bk_receipts (db i)"] by (fastforce simp: accounted_def)
    moreover have "bk_used k' = base i + receipts_total k' \<or> max_int64 < base i + receipts_total k'"
    proof -
      have "bk_used (db i) = base i + receipts_total (db i) \<or> max_int64 < base i + receipts_total (db i)"
        using ok by (simp add: accounted_def)
      with charged(4) receipts_total_update [OF fresh charged(3)] x(3) show ?thesis by linarith
    qed
    ultimately show ?thesis using ok by (auto simp: accounted_def)
  qed
  moreover have "booked_amount (db(i := k')) = (booked_amount db)(i := (booked_amount db i)(event \<mapsto> amount))"
    using charged(3) by (auto simp: booked_amount_def fun_eq_iff update_conv)
  moreover have "booked_amount db i event = None" using fresh by (simp add: booked_amount_def)
  ultimately show ?thesis by simp
qed

lemma SettleApiKeyBilling_laws:
  assumes "accounted base db" "SettleApiKeyBilling e i event amount db = (r, db')"
  shows "accounted base db'"
    and "booked_amount db' = booked_amount db \<or>
       (booked_amount db i event = None \<and>
        booked_amount db' = (booked_amount db)(i := (booked_amount db i)(event \<mapsto> amount)))"
    and "r = None \<Longrightarrow> booked_amount db' i event = Some amount"
proof -
  have "accounted base db' \<and> (booked_amount db' = booked_amount db \<or>
       (booked_amount db i event = None \<and>
        booked_amount db' = (booked_amount db)(i := (booked_amount db i)(event \<mapsto> amount)))) \<and>
     (r = None \<longrightarrow> booked_amount db' i event = Some amount)"
  proof (cases "\<exists>expiry. EventExpiry event (be_now e) = Inr expiry \<and> i \<noteq> 0 \<and> trim_space event \<noteq> [] \<and> 0 \<le> amount")
    case False
    then have "db' = db \<and> r \<noteq> None"
      using assms(2) by (auto simp: SettleApiKeyBilling_def split: sum.splits if_splits)
    with assms(1) show ?thesis by auto
  next
    case True
    then obtain expiry where t: "EventExpiry event (be_now e) = Inr expiry" "i \<noteq> 0" "trim_space event \<noteq> []" "0 \<le> amount"
      by blast
    obtain res k' where s: "settleApiKeyBillingScript (be_clock e) event amount (unix_milli expiry) (Retention div second) (db i)
        = (res, k')" by fastforce
    from EventExpiry_deadline [OF t(1)] accounted_script [OF assms(1) _ _ t(4) s]
    have laws: "accounted base (db(i := k')) \<and>
      (booked_amount (db(i := k')) = booked_amount db \<or>
       (booked_amount db i event = None \<and>
        booked_amount (db(i := k')) = (booked_amount db)(i := (booked_amount db i)(event \<mapsto> amount)))) \<and>
      ((\<exists>n. res = Inr n \<and> 0 \<le> n) \<longrightarrow> booked_amount (db(i := k')) i event = Some amount)" by metis
    have "db' = db \<and> r \<noteq> None \<or> db' = db(i := k') \<and> (r = None \<longrightarrow> (\<exists>n. res = Inr n \<and> 0 \<le> n))"
      using assms(2) t s by (auto simp: SettleApiKeyBilling_def run_script_def Let_def split: trip.splits sum.splits if_splits)
    with laws assms(1) show ?thesis by auto
  qed
  then show "accounted base db'"
    "booked_amount db' = booked_amount db \<or>
       (booked_amount db i event = None \<and>
        booked_amount db' = (booked_amount db)(i := (booked_amount db i)(event \<mapsto> amount)))"
    "r = None \<Longrightarrow> booked_amount db' i event = Some amount" by auto
qed

interpretation redis_billing: billing_store SettleApiKeyBilling booked_amount "accounted base" for base
  by unfold_locales (erule (1) SettleApiKeyBilling_laws, rule SettleApiKeyBilling_laws(3), assumption, assumption,
      rule refl, erule (1) SettleApiKeyBilling_laws(2))

end
