(* ===== verification/Billing_Ledger.thy ===== *)
theory Billing_Ledger
  imports Billing_Store
begin

text \<open>
  The settlement outbox, \<^verbatim>\<open>internal/billingledger/outbox.go\<close>: a settlement is written to disk before
  the store is told and erased after the store has answered, so a lost answer or a restart is replayed
  under the same event.

  \<^item> The ledger is the record \<open>ledger\<close>; \<open>lg_disk\<close> holds what a restart finds in the directory.
  \<^item> \<open>sha\<close> stands for the hexadecimal SHA-256 of a file's key; each file operation takes its outcome,
    each call of the store the environment of the contract \<open>billing_store\<close>.
  \<^item> \<open>ledger_step\<close> interleaves the critical sections of any number of calls, replays and restarts.
\<close>

record entry =
  KeyID :: int
  EventKey :: string
  Amount :: int

datatype stored = Unreadable | Malformed | Stored entry

record 's ledger =
  lg_store :: 's
  lg_disk :: "(string \<times> stored) list"
  lg_pending :: "(string \<times> entry) list"
  lg_disk_err :: "string option"

text \<open>\<open>Persist_fails visible\<close> and \<open>Remove_unsynced visible\<close> say whether a restart will find the file.\<close>

datatype write_outcome = Written | Create_fails | Write_fails | Persist_fails bool
datatype remove_outcome = Erased | Remove_fails | Remove_unsynced bool

section \<open>Operations\<close>

definition entry_name :: "(string \<Rightarrow> string) \<Rightarrow> entry \<Rightarrow> string" where
  "entry_name sha e = sha (itoa (KeyID e) @ '':'' @ EventKey e) @ ''.json''"

fun load_entries ::
  "(string \<Rightarrow> string) \<Rightarrow> (string \<times> stored) list \<Rightarrow> (string \<times> entry) list \<Rightarrow> string + (string \<times> entry) list" where
  "load_entries sha [] pending = Inr pending"
| "load_entries sha ((file, content) # files) pending =
     (if \<not> has_suffix file ''.json'' then load_entries sha files pending
      else case content of
        Unreadable \<Rightarrow> Inl (''open '' @ file)
      | Malformed \<Rightarrow> Inl (''invalid billing outbox entry '' @ file)
      | Stored e \<Rightarrow>
          if KeyID e \<le> 0 \<or> EventKey e = [] \<or> Amount e < 0 \<or> entry_name sha e \<noteq> file
          then Inl (''invalid billing outbox entry '' @ file)
          else load_entries sha files (AList.update file e pending))"

text \<open>\<open>New\<close>, for a directory that exists and can be listed.\<close>

definition ledger_New :: "(string \<Rightarrow> string) \<Rightarrow> 's \<Rightarrow> (string \<times> stored) list \<Rightarrow> string + 's ledger" where
  "ledger_New sha s dir =
     (case load_entries sha dir [] of
        Inl err \<Rightarrow> Inl err
      | Inr pending \<Rightarrow> Inr \<lparr>lg_store = s, lg_disk = dir, lg_pending = pending, lg_disk_err = None\<rparr>)"

definition Ready :: "time \<Rightarrow> 's ledger \<Rightarrow> string option" where
  "Ready now l =
     (case lg_disk_err l of
        Some err \<Rightarrow> Some (''billing outbox unavailable: '' @ err)
      | None \<Rightarrow>
          if length (lg_pending l) \<ge> 10000 then Some ''billing outbox is full''
          else if list_ex (\<lambda>(_, e). case EventExpiry (EventKey e) now of Inl _ \<Rightarrow> True | Inr _ \<Rightarrow> False) (lg_pending l)
          then Some ''expired billing settlement requires reconciliation''
          else None)"

definition queue :: "(string \<Rightarrow> string) \<Rightarrow> write_outcome \<Rightarrow> entry \<Rightarrow> 's ledger \<Rightarrow> string option \<times> 's ledger" where
  "queue sha w e l =
     (let name = entry_name sha e in
      case map_of (lg_pending l) name of
        Some prior \<Rightarrow> (if prior \<noteq> e then Some ''conflicting billing settlement'' else None, l)
      | None \<Rightarrow>
          (case w of
             Create_fails \<Rightarrow> (Some ''create'', l\<lparr>lg_disk_err := Some ''create''\<rparr>)
           | Write_fails \<Rightarrow> (Some ''write'', l\<lparr>lg_disk_err := Some ''write''\<rparr>)
           | Persist_fails visible \<Rightarrow>
               (Some ''persist'', l\<lparr>lg_disk_err := Some ''persist'',
                  lg_disk := (if visible then AList.update name (Stored e) (lg_disk l) else lg_disk l)\<rparr>)
           | Written \<Rightarrow>
               (None, l\<lparr>lg_disk := AList.update name (Stored e) (lg_disk l),
                        lg_pending := AList.update name e (lg_pending l), lg_disk_err := None\<rparr>)))"

definition remove_entry :: "(string \<Rightarrow> string) \<Rightarrow> remove_outcome \<Rightarrow> entry \<Rightarrow> 's ledger \<Rightarrow> string option \<times> 's ledger" where
  "remove_entry sha r e l =
     (let name = entry_name sha e in
      if map_of (lg_pending l) name = None then (None, l)
      else case r of
        Remove_fails \<Rightarrow> (Some ''remove'', l)
      | Remove_unsynced visible \<Rightarrow>
          (Some ''sync'', l\<lparr>lg_disk := (if visible then lg_disk l else AList.delete name (lg_disk l))\<rparr>)
      | Erased \<Rightarrow>
          (None, l\<lparr>lg_disk := AList.delete name (lg_disk l), lg_pending := AList.delete name (lg_pending l)\<rparr>))"

definition ledger_Settle ::
  "('e \<Rightarrow> int \<Rightarrow> string \<Rightarrow> int \<Rightarrow> 's \<Rightarrow> string option \<times> 's) \<Rightarrow> (string \<Rightarrow> string) \<Rightarrow>
   write_outcome \<Rightarrow> 'e \<Rightarrow> remove_outcome \<Rightarrow> int \<Rightarrow> string \<Rightarrow> int \<Rightarrow> 's ledger \<Rightarrow> string option \<times> 's ledger" where
  "ledger_Settle settle sha w env r key event amount l =
     (let e = \<lparr>KeyID = key, EventKey = event, Amount = amount\<rparr> in
      case queue sha w e l of
        (Some err, l1) \<Rightarrow> (Some err, l1)
      | (None, l1) \<Rightarrow>
          (case settle env key event amount (lg_store l1) of
             (Some err, s) \<Rightarrow> (Some err, l1\<lparr>lg_store := s\<rparr>)
           | (None, s) \<Rightarrow> remove_entry sha r e (l1\<lparr>lg_store := s\<rparr>)))"

text \<open>One attempt of a replay: the clock, the call's environment and the outcome of the removal. Fewer
  attempts than entries is a context that ended.\<close>

type_synonym 'e attempt = "time \<times> 'e \<times> remove_outcome"

definition replay_entry ::
  "('e \<Rightarrow> int \<Rightarrow> string \<Rightarrow> int \<Rightarrow> 's \<Rightarrow> string option \<times> 's) \<Rightarrow> (string \<Rightarrow> string) \<Rightarrow>
   entry \<times> 'e attempt \<Rightarrow> 's ledger \<Rightarrow> 's ledger" where
  "replay_entry settle sha = (\<lambda>(e, now, env, r) l.
     case EventExpiry (EventKey e) now of
       Inl _ \<Rightarrow> l
     | Inr _ \<Rightarrow>
         (case settle env (KeyID e) (EventKey e) (Amount e) (lg_store l) of
            (Some _, s) \<Rightarrow> l\<lparr>lg_store := s\<rparr>
          | (None, s) \<Rightarrow> snd (remove_entry sha r e (l\<lparr>lg_store := s\<rparr>))))"

definition Replay ::
  "('e \<Rightarrow> int \<Rightarrow> string \<Rightarrow> int \<Rightarrow> 's \<Rightarrow> string option \<times> 's) \<Rightarrow> (string \<Rightarrow> string) \<Rightarrow> 'e attempt list \<Rightarrow> 's ledger \<Rightarrow> 's ledger" where
  "Replay settle sha attempts l = fold (replay_entry settle sha) (zip (map snd (lg_pending l)) attempts) l"

section \<open>Interleavings\<close>

text \<open>A process with any number of calls in it: \<open>called\<close> are the entries some call may now hand to the
  store, \<open>settled\<close> those some call may erase. \<open>asked\<close> and \<open>accepted\<close> record the settlements ever queued
  and those whose queueing succeeded.\<close>

record 's process =
  pr_ledger :: "'s ledger"
  called :: "entry set"
  settled :: "entry set"
  asked :: "entry set"
  accepted :: "entry set"

definition valid_entry :: "entry \<Rightarrow> bool" where
  "valid_entry e \<longleftrightarrow> 0 < KeyID e \<and> KeyID e \<le> max_int64 \<and> EventKey e \<noteq> [] \<and> 0 \<le> Amount e"

inductive ledger_step ::
  "('e \<Rightarrow> int \<Rightarrow> string \<Rightarrow> int \<Rightarrow> 's \<Rightarrow> string option \<times> 's) \<Rightarrow> ('s \<Rightarrow> 's \<Rightarrow> bool) \<Rightarrow> (string \<Rightarrow> string) \<Rightarrow>
   's process \<Rightarrow> 's process \<Rightarrow> bool"
  for settle :: "'e \<Rightarrow> int \<Rightarrow> string \<Rightarrow> int \<Rightarrow> 's \<Rightarrow> string option \<times> 's" and others sha where
  step_queue: "valid_entry e \<Longrightarrow> queue sha w e (pr_ledger p) = (err, l) \<Longrightarrow>
    ledger_step settle others sha p (p\<lparr>pr_ledger := l, asked := insert e (asked p),
      called := (if err = None then insert e (called p) else called p),
      accepted := (if err = None then insert e (accepted p) else accepted p)\<rparr>)"
| step_replay: "map_of (lg_pending (pr_ledger p)) name = Some e \<Longrightarrow>
    ledger_step settle others sha p (p\<lparr>called := insert e (called p)\<rparr>)"
| step_store: "e \<in> called p \<Longrightarrow> settle env (KeyID e) (EventKey e) (Amount e) (lg_store (pr_ledger p)) = (err, s) \<Longrightarrow>
    ledger_step settle others sha p (p\<lparr>pr_ledger := (pr_ledger p)\<lparr>lg_store := s\<rparr>,
      settled := (if err = None then insert e (settled p) else settled p)\<rparr>)"
| step_remove: "e \<in> settled p \<Longrightarrow> remove_entry sha r e (pr_ledger p) = (err, l) \<Longrightarrow>
    ledger_step settle others sha p (p\<lparr>pr_ledger := l\<rparr>)"
| step_others: "others (lg_store (pr_ledger p)) s \<Longrightarrow>
    ledger_step settle others sha p (p\<lparr>pr_ledger := (pr_ledger p)\<lparr>lg_store := s\<rparr>\<rparr>)"
| step_restart: "ledger_New sha (lg_store (pr_ledger p)) (lg_disk (pr_ledger p)) = Inr l \<Longrightarrow>
    ledger_step settle others sha p (p\<lparr>pr_ledger := l, called := {}, settled := {}\<rparr>)"

definition fresh_process :: "'s \<Rightarrow> 's process" where
  "fresh_process s = \<lparr>pr_ledger = \<lparr>lg_store = s, lg_disk = [], lg_pending = [], lg_disk_err = None\<rparr>,
     called = {}, settled = {}, asked = {}, accepted = {}\<rparr>"


section \<open>Nothing is lost, nothing is charged twice\<close>

lemma takeWhile_colon: "CHR '':'' \<notin> set a \<Longrightarrow> takeWhile (\<lambda>c. c \<noteq> CHR '':'') (a @ CHR '':'' # b) = a"
  by (induction a) auto

lemma itoa_inj:
  "min_int64 \<le> m \<Longrightarrow> m \<le> max_int64 \<Longrightarrow> min_int64 \<le> n \<Longrightarrow> n \<le> max_int64 \<Longrightarrow> itoa m = itoa n \<Longrightarrow> m = n"
  by (metis parse_itoa option.inject)

lemma valid_key_bounds: "valid_entry e \<Longrightarrow> min_int64 \<le> KeyID e \<and> KeyID e \<le> max_int64"
  by (simp add: valid_entry_def min_int64_def)

lemma entry_name_inj:
  assumes "inj sha" "entry_name sha d = entry_name sha e" "valid_entry d" "valid_entry e"
  shows "KeyID d = KeyID e \<and> EventKey d = EventKey e"
proof -
  have "sha (itoa (KeyID d) @ CHR '':'' # EventKey d) = sha (itoa (KeyID e) @ CHR '':'' # EventKey e)"
    using assms(2) by (simp add: entry_name_def)
  with assms(1) have eq: "itoa (KeyID d) @ CHR '':'' # EventKey d = itoa (KeyID e) @ CHR '':'' # EventKey e"
    by (rule injD)
  then have digits: "itoa (KeyID d) = itoa (KeyID e)"
    by (metis takeWhile_colon digits_no_colon)
  moreover from this eq have "EventKey d = EventKey e" by simp
  ultimately show ?thesis using itoa_inj valid_key_bounds assms(3,4) by blast
qed

lemma load_entries_map:
  "load_entries sha dir p = Inr q \<Longrightarrow> distinct (map fst dir) \<Longrightarrow> \<forall>(f, c) \<in> set dir. has_suffix f ''.json'' \<and> (\<exists>e. c = Stored e) \<Longrightarrow>
     map_of q n = (case map_of dir n of Some (Stored e) \<Rightarrow> Some e | _ \<Rightarrow> map_of p n)"
proof (induction sha dir p rule: load_entries.induct)
  case (2 sha f content files p)
  then obtain e where e: "content = Stored e" "has_suffix f ''.json''" by auto
  with 2 have "map_of q n = (case map_of files n of Some (Stored e) \<Rightarrow> Some e | _ \<Rightarrow> map_of (AList.update f e p) n)"
    by (auto split: if_splits)
  moreover have "map_of files f = None" using 2(4) by (simp add: map_of_eq_None_iff)
  ultimately show ?case using e by (auto simp: update_conv split: option.splits stored.splits)
qed simp

lemma load_entries_distinct: "load_entries sha dir p = Inr q \<Longrightarrow> distinct (map fst p) \<Longrightarrow> distinct (map fst q)"
  by (induction sha dir p rule: load_entries.induct) (auto simp: distinct_update split: if_splits stored.splits)

lemma load_entries_total:
  "\<forall>(f, c) \<in> set dir. \<exists>e. c = Stored e \<and> valid_entry e \<and> entry_name sha e = f \<Longrightarrow> \<exists>q. load_entries sha dir p = Inr q"
  by (induction sha dir p rule: load_entries.induct) (auto simp: valid_entry_def)

definition on_disk :: "(string \<Rightarrow> string) \<Rightarrow> 's ledger \<Rightarrow> entry \<Rightarrow> bool" where
  "on_disk sha l e \<longleftrightarrow> map_of (lg_disk l) (entry_name sha e) = Some (Stored e)"

context billing_store
begin

definition charged :: "'s process \<Rightarrow> entry \<Rightarrow> bool" where
  "charged p e \<longleftrightarrow> booked (lg_store (pr_ledger p)) (KeyID e) (EventKey e) \<noteq> None"

definition disk_ok :: "(string \<Rightarrow> string) \<Rightarrow> 's process \<Rightarrow> bool" where
  "disk_ok sha p \<longleftrightarrow> distinct (map fst (lg_disk (pr_ledger p))) \<and>
     (\<forall>(f, c) \<in> set (lg_disk (pr_ledger p)). \<exists>e. c = Stored e \<and> valid_entry e \<and> entry_name sha e = f \<and> e \<in> asked p)"

definition pending_ok :: "(string \<Rightarrow> string) \<Rightarrow> 's process \<Rightarrow> bool" where
  "pending_ok sha p \<longleftrightarrow>
     (\<forall>n e. map_of (lg_pending (pr_ledger p)) n = Some e \<longrightarrow>
        entry_name sha e = n \<and> valid_entry e \<and> e \<in> asked p \<and> (on_disk sha (pr_ledger p) e \<or> charged p e))"

definition ledger_inv :: "(string \<Rightarrow> string) \<Rightarrow> 's \<Rightarrow> 's process \<Rightarrow> bool" where
  "ledger_inv sha s0 p \<longleftrightarrow> sound (lg_store (pr_ledger p)) \<and> disk_ok sha p \<and> pending_ok sha p \<and> called p \<subseteq> asked p \<and>
     (\<forall>e \<in> settled p. charged p e \<and> valid_entry e) \<and> (\<forall>e \<in> asked p. valid_entry e) \<and> accepted p \<subseteq> asked p \<and>
     (\<forall>e \<in> accepted p. charged p e \<or> (on_disk sha (pr_ledger p) e \<and>
        map_of (lg_pending (pr_ledger p)) (entry_name sha e) = Some e)) \<and>
     (\<forall>i ev a. booked (lg_store (pr_ledger p)) i ev = Some a \<longrightarrow>
        booked s0 i ev = Some a \<or> \<lparr>KeyID = i, EventKey = ev, Amount = a\<rparr> \<in> asked p)"

lemma ledger_invD:
  assumes "ledger_inv sha s0 p"
  shows "sound (lg_store (pr_ledger p))" "disk_ok sha p" "pending_ok sha p" "called p \<subseteq> asked p"
    "e \<in> settled p \<Longrightarrow> charged p e \<and> valid_entry e" "e \<in> asked p \<Longrightarrow> valid_entry e" "accepted p \<subseteq> asked p"
    "e \<in> accepted p \<Longrightarrow> charged p e \<or> (on_disk sha (pr_ledger p) e \<and>
        map_of (lg_pending (pr_ledger p)) (entry_name sha e) = Some e)"
    "booked (lg_store (pr_ledger p)) i ev = Some a \<Longrightarrow>
        booked s0 i ev = Some a \<or> \<lparr>KeyID = i, EventKey = ev, Amount = a\<rparr> \<in> asked p"
  using assms unfolding ledger_inv_def by blast+

lemma pending_okD:
  assumes "pending_ok sha p" "map_of (lg_pending (pr_ledger p)) n = Some e"
  shows "entry_name sha e = n" "valid_entry e" "e \<in> asked p" "on_disk sha (pr_ledger p) e \<or> charged p e"
  using assms unfolding pending_ok_def by blast+

lemma ledger_invI:
  assumes "sound (lg_store (pr_ledger p))" "disk_ok sha p" "pending_ok sha p" "called p \<subseteq> asked p"
    "\<And>e. e \<in> settled p \<Longrightarrow> charged p e \<and> valid_entry e" "\<And>e. e \<in> asked p \<Longrightarrow> valid_entry e" "accepted p \<subseteq> asked p"
    "\<And>e. e \<in> accepted p \<Longrightarrow> charged p e \<or> (on_disk sha (pr_ledger p) e \<and>
        map_of (lg_pending (pr_ledger p)) (entry_name sha e) = Some e)"
    "\<And>i ev a. booked (lg_store (pr_ledger p)) i ev = Some a \<Longrightarrow>
        booked s0 i ev = Some a \<or> \<lparr>KeyID = i, EventKey = ev, Amount = a\<rparr> \<in> asked p"
  shows "ledger_inv sha s0 p"
  using assms unfolding ledger_inv_def by blast

text \<open>A step that leaves the store alone.\<close>

lemma ledger_inv_grow:
  assumes inv: "ledger_inv sha s0 p"
    and "disk_ok sha p'" "pending_ok sha p'" "lg_store (pr_ledger p') = lg_store (pr_ledger p)"
    and "asked p \<subseteq> asked p'" "\<And>e. e \<in> asked p' \<Longrightarrow> e \<in> asked p \<or> valid_entry e"
    and "called p' \<subseteq> called p \<union> asked p'" "settled p' \<subseteq> settled p" "accepted p' \<subseteq> accepted p \<union> asked p'"
    and "\<And>e. e \<in> accepted p' \<Longrightarrow> charged p' e \<or> (on_disk sha (pr_ledger p') e \<and>
        map_of (lg_pending (pr_ledger p')) (entry_name sha e) = Some e)"
  shows "ledger_inv sha s0 p'"
proof (rule ledger_invI)
  note old = ledger_invD [OF inv]
  show "sound (lg_store (pr_ledger p'))" using old(1) assms(4) by simp
  show "called p' \<subseteq> asked p'" using old(4) assms(5,7) by blast
  show "charged p' e \<and> valid_entry e" if "e \<in> settled p'" for e
    using old(5) [of e] that assms(4,8) by (auto simp: charged_def)
  show "valid_entry e" if "e \<in> asked p'" for e using old(6) assms(6) that by blast
  show "accepted p' \<subseteq> asked p'" using old(7) assms(5,9) by blast
  show "booked s0 i ev = Some a \<or> \<lparr>KeyID = i, EventKey = ev, Amount = a\<rparr> \<in> asked p'"
    if "booked (lg_store (pr_ledger p')) i ev = Some a" for i ev a
    using old(9) [of i ev a] that assms(4,5) by auto
qed (use assms in blast)+

lemma ledger_inv_fresh: "sound s0 \<Longrightarrow> ledger_inv sha s0 (fresh_process s0)"
  by (simp add: ledger_inv_def fresh_process_def disk_ok_def pending_ok_def)

lemma charged_cong: "lg_store (pr_ledger p') = lg_store (pr_ledger p) \<Longrightarrow> charged p' e = charged p e"
  by (simp add: charged_def)

lemma charged_same_name:
  "inj sha \<Longrightarrow> charged p d \<Longrightarrow> entry_name sha d = entry_name sha e \<Longrightarrow> valid_entry d \<Longrightarrow> valid_entry e \<Longrightarrow> charged p e"
  using entry_name_inj [of sha d e] by (simp add: charged_def)

text \<open>A new file under a name that is not pending.\<close>

lemma disk_ok_write:
  assumes "disk_ok sha p" "valid_entry e" "lg_disk (pr_ledger p') = AList.update (entry_name sha e) (Stored e) (lg_disk (pr_ledger p))"
    "asked p' = insert e (asked p)"
  shows "disk_ok sha p'"
proof -
  have "set (lg_disk (pr_ledger p')) \<subseteq> insert (entry_name sha e, Stored e) (set (lg_disk (pr_ledger p)))"
    using assms(3) set_updated by simp
  then have "\<exists>d. c = Stored d \<and> valid_entry d \<and> entry_name sha d = f \<and> d \<in> asked p'"
    if "(f, c) \<in> set (lg_disk (pr_ledger p'))" for f c
  proof (cases "(f, c) = (entry_name sha e, Stored e)")
    case True
    with assms(2,4) show ?thesis by auto
  next
    case False
    with that \<open>set (lg_disk (pr_ledger p')) \<subseteq> _\<close> have "(f, c) \<in> set (lg_disk (pr_ledger p))" by blast
    with assms(1,4) show ?thesis unfolding disk_ok_def by fastforce
  qed
  moreover have "distinct (map fst (lg_disk (pr_ledger p')))"
    using assms(1,3) by (simp add: disk_ok_def distinct_update)
  ultimately show ?thesis unfolding disk_ok_def by blast
qed

lemma disk_ok_mono:
  "disk_ok sha p \<Longrightarrow> lg_disk (pr_ledger p') = lg_disk (pr_ledger p) \<Longrightarrow> asked p \<subseteq> asked p' \<Longrightarrow> disk_ok sha p'"
  unfolding disk_ok_def by fastforce

lemma on_disk_write:
  "on_disk sha l d \<Longrightarrow> entry_name sha e \<noteq> entry_name sha d \<Longrightarrow>
     lg_disk l' = AList.update (entry_name sha e) (Stored e) (lg_disk l) \<Longrightarrow> on_disk sha l' d"
  by (simp add: on_disk_def update_conv)

lemma inv_queue:
  assumes "inj sha" and inv: "ledger_inv sha s0 p" and e: "valid_entry e" and q: "queue sha w e (pr_ledger p) = (err, l)"
    and p': "p' = p\<lparr>pr_ledger := l, asked := insert e (asked p),
      called := (if err = None then insert e (called p) else called p),
      accepted := (if err = None then insert e (accepted p) else accepted p)\<rparr>"
  shows "ledger_inv sha s0 p'"
proof (cases "map_of (lg_pending (pr_ledger p)) (entry_name sha e)")
  case (Some prior)
  with q have "l = pr_ledger p" "err = None \<longrightarrow> prior = e" by (auto simp: queue_def Let_def split: if_splits)
  then have same: "pr_ledger p' = pr_ledger p" "charged p' = charged p" using p' by (auto simp: charged_def fun_eq_iff)
  note old = ledger_invD [OF inv]
  have "disk_ok sha p'" by (rule disk_ok_mono [OF old(2)]) (use p' same in auto)
  moreover have "pending_ok sha p'" using pending_okD [OF old(3)] p' same unfolding pending_ok_def by fastforce
  moreover have "charged p' d \<or> (on_disk sha (pr_ledger p') d \<and> map_of (lg_pending (pr_ledger p')) (entry_name sha d) = Some d)"
    if "d \<in> accepted p'" for d
  proof (cases "d \<in> accepted p")
    case True
    with old(8) same show ?thesis by simp
  next
    case False
    with that p' have "err = None" "d = e" by (auto split: if_splits)
    with pending_okD(4) [OF old(3) Some] Some \<open>err = None \<longrightarrow> prior = e\<close> same show ?thesis by auto
  qed
  moreover have "asked p' = insert e (asked p)" "called p' \<subseteq> insert e (called p)" "settled p' = settled p"
    "accepted p' \<subseteq> insert e (accepted p)" using p' by (auto split: if_splits)
  ultimately show ?thesis using e same by (intro ledger_inv_grow [OF inv]) auto
next
  case None
  have store: "lg_store l = lg_store (pr_ledger p)"
    using q None by (auto simp: queue_def Let_def split: write_outcome.splits)
  have ch: "charged p' d = charged p d" for d using p' store by (simp add: charged_def)
  have dk: "lg_disk l = lg_disk (pr_ledger p) \<or> lg_disk l = AList.update (entry_name sha e) (Stored e) (lg_disk (pr_ledger p))"
    using q None by (auto simp: queue_def Let_def split: write_outcome.splits)
  have pe: "lg_pending l = lg_pending (pr_ledger p) \<and> err \<noteq> None \<or>
    lg_pending l = AList.update (entry_name sha e) e (lg_pending (pr_ledger p)) \<and> on_disk sha l e"
    using q None by (auto simp: queue_def Let_def on_disk_def update_conv split: write_outcome.splits)
  have other: "entry_name sha e \<noteq> n" if "map_of (lg_pending (pr_ledger p)) n = Some d" for n d
    using that None by auto
  have keep: "on_disk sha l d" if "map_of (lg_pending (pr_ledger p)) (entry_name sha d) = Some d'" "on_disk sha (pr_ledger p) d" for d d'
    using dk other [OF that(1)] that(2) on_disk_write by (auto simp: on_disk_def update_conv)
  have "disk_ok sha p'"
    using dk
  proof
    assume "lg_disk l = lg_disk (pr_ledger p)"
    then show ?thesis by (intro disk_ok_mono [OF ledger_invD(2) [OF inv]]) (use p' in auto)
  next
    assume "lg_disk l = AList.update (entry_name sha e) (Stored e) (lg_disk (pr_ledger p))"
    then show ?thesis by (intro disk_ok_write [OF ledger_invD(2) [OF inv] e]) (use p' in auto)
  qed
  moreover have "pending_ok sha p'"
    unfolding pending_ok_def
  proof (intro allI impI)
    fix n d assume n: "map_of (lg_pending (pr_ledger p')) n = Some d"
    show "entry_name sha d = n \<and> valid_entry d \<and> d \<in> asked p' \<and> (on_disk sha (pr_ledger p') d \<or> charged p' d)"
    proof (cases "map_of (lg_pending (pr_ledger p)) n = Some d")
      case True
      with inv have "entry_name sha d = n" "valid_entry d" "d \<in> asked p" "on_disk sha (pr_ledger p) d \<or> charged p d"
        by (auto simp: ledger_inv_def pending_ok_def)
      with True keep ch p' show ?thesis by auto
    next
      case False
      with n pe p' have "n = entry_name sha e \<and> d = e \<and> on_disk sha l e" by (auto simp: update_conv split: if_splits)
      with e p' show ?thesis by simp
    qed
  qed
  moreover have "charged p' d \<or> (on_disk sha (pr_ledger p') d \<and> map_of (lg_pending (pr_ledger p')) (entry_name sha d) = Some d)"
    if "d \<in> accepted p'" for d
  proof (cases "d = e \<and> err = None")
    case True
    with pe p' show ?thesis by (auto simp: update_conv)
  next
    case False
    with that p' have "d \<in> accepted p" by (auto split: if_splits)
    with inv have "charged p d \<or> (on_disk sha (pr_ledger p) d \<and> map_of (lg_pending (pr_ledger p)) (entry_name sha d) = Some d)"
      by (simp add: ledger_inv_def)
    then show ?thesis
    proof
      assume "charged p d"
      with ch show ?thesis by simp
    next
      assume a: "on_disk sha (pr_ledger p) d \<and> map_of (lg_pending (pr_ledger p)) (entry_name sha d) = Some d"
      then have "entry_name sha e \<noteq> entry_name sha d" using None by auto
      with a keep [of d d] pe p' show ?thesis by (auto simp: update_conv)
    qed
  qed
  moreover have "asked p' = insert e (asked p)" "called p' \<subseteq> insert e (called p)" "settled p' = settled p"
    "accepted p' \<subseteq> insert e (accepted p)" using p' by (auto split: if_splits)
  ultimately show ?thesis using e store p' by (intro ledger_inv_grow [OF inv]) auto
qed

lemma inv_store:
  assumes inv: "ledger_inv sha s0 p" and "e \<in> called p"
    and s: "settle env (KeyID e) (EventKey e) (Amount e) (lg_store (pr_ledger p)) = (err, s)"
    and p': "p' = p\<lparr>pr_ledger := (pr_ledger p)\<lparr>lg_store := s\<rparr>, settled := (if err = None then insert e (settled p) else settled p)\<rparr>"
  shows "ledger_inv sha s0 p'"
proof -
  have sound: "sound (lg_store (pr_ledger p))" using inv by (simp add: ledger_inv_def)
  have ch: "charged p d \<Longrightarrow> charged p' d" for d
    using booked_stays [OF sound s] p' by (auto simp: charged_def)
  have disk: "on_disk sha (pr_ledger p') = on_disk sha (pr_ledger p)" using p' by (simp add: on_disk_def fun_eq_iff)
  have same: "asked p' = asked p" "called p' = called p" "accepted p' = accepted p"
    "lg_pending (pr_ledger p') = lg_pending (pr_ledger p)" "lg_store (pr_ledger p') = s" using p' by simp_all
  note old = ledger_invD [OF inv]
  show ?thesis
  proof (rule ledger_invI)
    show "sound (lg_store (pr_ledger p'))" using settle_sound [OF sound s] same by simp
    show "disk_ok sha p'" by (rule disk_ok_mono [OF old(2)]) (use p' in auto)
    show "pending_ok sha p'"
      using pending_okD [OF old(3)] same ch disk unfolding pending_ok_def by metis
    show "called p' \<subseteq> asked p'" "accepted p' \<subseteq> asked p'" using old(4,7) same by simp_all
    show "charged p' d \<and> valid_entry d" if "d \<in> settled p'" for d
    proof (cases "d \<in> settled p")
      case True
      with old(5) ch show ?thesis by blast
    next
      case False
      with that p' have "d = e" "err = None" by (auto split: if_splits)
      with settle_booked [OF sound] s same assms(2) old(4,6) show ?thesis by (auto simp: charged_def)
    qed
    show "valid_entry d" if "d \<in> asked p'" for d using old(6) that same by simp
    show "charged p' d \<or> (on_disk sha (pr_ledger p') d \<and> map_of (lg_pending (pr_ledger p')) (entry_name sha d) = Some d)"
      if "d \<in> accepted p'" for d using old(8) [of d] that same ch disk by auto
    show "booked s0 i ev = Some a \<or> \<lparr>KeyID = i, EventKey = ev, Amount = a\<rparr> \<in> asked p'"
      if b: "booked (lg_store (pr_ledger p')) i ev = Some a" for i ev a
    proof -
      from booked_new [OF sound s, of i ev a] b same
      have "booked (lg_store (pr_ledger p)) i ev = Some a \<or> \<lparr>KeyID = i, EventKey = ev, Amount = a\<rparr> = e" by (cases e) auto
      then consider "booked (lg_store (pr_ledger p)) i ev = Some a" | "\<lparr>KeyID = i, EventKey = ev, Amount = a\<rparr> = e" by blast
      then show ?thesis using old(9) [of i ev a] old(4) assms(2) same by cases auto
    qed
  qed
qed

lemma inv_others:
  assumes inv: "ledger_inv sha s0 p" and "sound s" "booked s = booked (lg_store (pr_ledger p))"
  shows "ledger_inv sha s0 (p\<lparr>pr_ledger := (pr_ledger p)\<lparr>lg_store := s\<rparr>\<rparr>)"
proof -
  let ?p = "p\<lparr>pr_ledger := (pr_ledger p)\<lparr>lg_store := s\<rparr>\<rparr>"
  have "on_disk sha (pr_ledger ?p) = on_disk sha (pr_ledger p)" by (simp add: on_disk_def fun_eq_iff)
  moreover have "charged ?p = charged p" using assms(3) by (simp add: charged_def fun_eq_iff)
  moreover have "disk_ok sha ?p = disk_ok sha p" by (simp add: disk_ok_def)
  ultimately show ?thesis using assms by (simp add: ledger_inv_def pending_ok_def)
qed

lemma inv_remove:
  assumes "inj sha" and inv: "ledger_inv sha s0 p" and e: "e \<in> settled p" and r: "remove_entry sha r e (pr_ledger p) = (err, l)"
    and p': "p' = p\<lparr>pr_ledger := l\<rparr>"
  shows "ledger_inv sha s0 p'"
proof -
  have store: "lg_store l = lg_store (pr_ledger p)"
    and dk: "lg_disk l = lg_disk (pr_ledger p) \<or> lg_disk l = AList.delete (entry_name sha e) (lg_disk (pr_ledger p))"
    and pe: "lg_pending l = lg_pending (pr_ledger p) \<or> lg_pending l = AList.delete (entry_name sha e) (lg_pending (pr_ledger p))"
    using r by (auto simp: remove_entry_def Let_def split: remove_outcome.splits if_splits)
  have ch: "charged p' d = charged p d" for d using p' store by (simp add: charged_def)
  have gone: "charged p d" if "entry_name sha d = entry_name sha e" "valid_entry d" for d
    using inv e charged_same_name [OF assms(1), of p e d] that by (simp add: ledger_inv_def)
  have keep: "on_disk sha l d" if "entry_name sha d \<noteq> entry_name sha e" "on_disk sha (pr_ledger p) d" for d
    using dk that by (auto simp: on_disk_def delete_conv')
  have "disk_ok sha p'" using dk inv p'
    by (auto simp: ledger_inv_def disk_ok_def AList.delete_eq distinct_map_filter)
  moreover have "pending_ok sha p'"
    unfolding pending_ok_def
  proof (intro allI impI)
    fix n d assume "map_of (lg_pending (pr_ledger p')) n = Some d"
    then have "map_of (lg_pending (pr_ledger p)) n = Some d" using pe p' by (auto simp: delete_conv' split: if_splits)
    with inv have "entry_name sha d = n" "valid_entry d" "d \<in> asked p" "on_disk sha (pr_ledger p) d \<or> charged p d"
      by (auto simp: ledger_inv_def pending_ok_def)
    with keep gone ch p' show "entry_name sha d = n \<and> valid_entry d \<and> d \<in> asked p' \<and> (on_disk sha (pr_ledger p') d \<or> charged p' d)"
      by (cases "entry_name sha d = entry_name sha e") auto
  qed
  moreover have "charged p' d \<or> (on_disk sha (pr_ledger p') d \<and> map_of (lg_pending (pr_ledger p')) (entry_name sha d) = Some d)"
    if "d \<in> accepted p'" for d
  proof -
    have "valid_entry d" "charged p d \<or> (on_disk sha (pr_ledger p) d \<and> map_of (lg_pending (pr_ledger p)) (entry_name sha d) = Some d)"
      using inv that p' by (auto simp: ledger_inv_def)
    with keep gone ch pe p' show ?thesis
      by (cases "entry_name sha d = entry_name sha e") (auto simp: delete_conv')
  qed
  ultimately show ?thesis using store p' by (intro ledger_inv_grow [OF inv]) auto
qed

lemma disk_ok_loads: "disk_ok sha p \<Longrightarrow> \<exists>l. ledger_New sha s (lg_disk (pr_ledger p)) = Inr l"
  using load_entries_total [of "lg_disk (pr_ledger p)" sha "[]"] by (fastforce simp: disk_ok_def ledger_New_def)

lemma inv_restart:
  assumes inv: "ledger_inv sha s0 p" and "ledger_New sha (lg_store (pr_ledger p)) (lg_disk (pr_ledger p)) = Inr l"
    and p': "p' = p\<lparr>pr_ledger := l, called := {}, settled := {}\<rparr>"
  shows "ledger_inv sha s0 p'"
proof -
  obtain q where q: "load_entries sha (lg_disk (pr_ledger p)) [] = Inr q"
    and l: "l = \<lparr>lg_store = lg_store (pr_ledger p), lg_disk = lg_disk (pr_ledger p), lg_pending = q, lg_disk_err = None\<rparr>"
    using assms(2) by (auto simp: ledger_New_def split: sum.splits)
  have disk: "\<exists>e. c = Stored e \<and> valid_entry e \<and> entry_name sha e = f \<and> e \<in> asked p"
    if "map_of (lg_disk (pr_ledger p)) f = Some c" for f c
    using inv map_of_SomeD [OF that] by (auto simp: ledger_inv_def disk_ok_def)
  have "\<forall>(f, c) \<in> set (lg_disk (pr_ledger p)). has_suffix f ''.json'' \<and> (\<exists>e. c = Stored e)"
    using inv by (auto simp: ledger_inv_def disk_ok_def entry_name_def has_suffix_iff suffix_def)
  then have m: "map_of q n = (case map_of (lg_disk (pr_ledger p)) n of Some (Stored e) \<Rightarrow> Some e | _ \<Rightarrow> None)" for n
    using load_entries_map [OF q, of n] inv
    by (auto simp: ledger_inv_def disk_ok_def split: option.splits stored.splits)
  have "pending_ok sha p'"
    unfolding pending_ok_def
  proof (intro allI impI)
    fix n d assume "map_of (lg_pending (pr_ledger p')) n = Some d"
    then have "map_of (lg_disk (pr_ledger p)) n = Some (Stored d)"
      using m p' l by (auto split: option.splits stored.splits)
    with disk [OF this] p' l show "entry_name sha d = n \<and> valid_entry d \<and> d \<in> asked p' \<and> (on_disk sha (pr_ledger p') d \<or> charged p' d)"
      by (auto simp: on_disk_def)
  qed
  moreover have "charged p' d = charged p d" "on_disk sha (pr_ledger p') d = on_disk sha (pr_ledger p) d" for d
    using p' l by (simp_all add: charged_def on_disk_def)
  moreover have "disk_ok sha p'" using inv p' l by (simp add: ledger_inv_def disk_ok_def)
  moreover have "map_of q (entry_name sha d) = Some d" if "on_disk sha (pr_ledger p) d" for d
    using that m by (simp add: on_disk_def)
  moreover have "charged p' d \<or> (on_disk sha (pr_ledger p') d \<and> map_of (lg_pending (pr_ledger p')) (entry_name sha d) = Some d)"
    if "d \<in> accepted p'" for d
    using ledger_invD(8) [OF inv, of d] that calculation p' l by auto
  ultimately show ?thesis using p' l by (intro ledger_inv_grow [OF inv]) auto
qed

lemma ledger_step_inv:
  assumes "inj sha" "\<And>s s'. others s s' \<Longrightarrow> sound s \<Longrightarrow> sound s' \<and> booked s' = booked s"
    and "ledger_step settle others sha p p'" "ledger_inv sha s0 p"
  shows "ledger_inv sha s0 p'"
  using assms(3,4)
proof (cases rule: ledger_step.cases)
  case (step_queue e w err l)
  then show ?thesis using inv_queue [OF assms(1,4)] by blast
next
  case (step_replay n e)
  with assms(4) show ?thesis
    by (fastforce simp: ledger_inv_def disk_ok_def pending_ok_def charged_def)
next
  case (step_store e env err s)
  then show ?thesis using inv_store [OF assms(4)] by blast
next
  case (step_remove e r err l)
  then show ?thesis using inv_remove [OF assms(1,4)] by blast
next
  case (step_others s)
  have "sound (lg_store (pr_ledger p))" using assms(4) by (simp add: ledger_inv_def)
  with step_others assms(2) inv_others [OF assms(4)] show ?thesis by blast
next
  case (step_restart l)
  then show ?thesis using inv_restart [OF assms(4)] by blast
qed

end


text \<open>The whole operations are runs of those steps.\<close>

lemma step_store_ex:
  assumes "e \<in> called p" "settle env (KeyID e) (EventKey e) (Amount e) (lg_store (pr_ledger p)) = (err, s)"
  obtains p' where "ledger_step settle others sha p p'" "pr_ledger p' = (pr_ledger p)\<lparr>lg_store := s\<rparr>"
    "called p' = called p" "err = None \<Longrightarrow> e \<in> settled p'"
  using step_store [of e p settle env err s others sha, OF assms] that by fastforce

lemma step_remove_ex:
  assumes "e \<in> settled p"
  obtains p' where "ledger_step settle others sha p p'" "pr_ledger p' = snd (remove_entry sha r e (pr_ledger p))" "called p' = called p"
  using step_remove [OF assms, of sha r "fst (remove_entry sha r e (pr_ledger p))" "snd (remove_entry sha r e (pr_ledger p))" settle others]
    that by fastforce

lemma store_remove_steps:
  assumes "e \<in> called p"
  shows "\<exists>p'. (ledger_step settle others sha)\<^sup>*\<^sup>* p p' \<and> called p' = called p \<and> pr_ledger p' =
    (case settle env (KeyID e) (EventKey e) (Amount e) (lg_store (pr_ledger p)) of
       (Some _, s) \<Rightarrow> (pr_ledger p)\<lparr>lg_store := s\<rparr>
     | (None, s) \<Rightarrow> snd (remove_entry sha r e ((pr_ledger p)\<lparr>lg_store := s\<rparr>)))"
proof -
  obtain err s where t: "settle env (KeyID e) (EventKey e) (Amount e) (lg_store (pr_ledger p)) = (err, s)" by fastforce
  obtain p1 where p1: "ledger_step settle others sha p p1" "pr_ledger p1 = (pr_ledger p)\<lparr>lg_store := s\<rparr>"
    "called p1 = called p" "err = None \<Longrightarrow> e \<in> settled p1"
    using step_store_ex [of e p settle env err s others sha] assms t by metis
  show ?thesis
  proof (cases err)
    case None
    obtain p2 where "ledger_step settle others sha p1 p2" "pr_ledger p2 = snd (remove_entry sha r e (pr_ledger p1))" "called p2 = called p1"
      using step_remove_ex [OF p1(4) [OF None]] by metis
    with p1 t None show ?thesis by (intro exI [of _ p2]) (auto intro: rtranclp.rtrancl_into_rtrancl)
  next
    case (Some _)
    with p1 t show ?thesis by (intro exI [of _ p1]) auto
  qed
qed

lemma ledger_Settle_steps:
  assumes "valid_entry \<lparr>KeyID = i, EventKey = event, Amount = amount\<rparr>"
  shows "\<exists>p'. (ledger_step settle others sha)\<^sup>*\<^sup>* p p' \<and>
    pr_ledger p' = snd (ledger_Settle settle sha w env r i event amount (pr_ledger p))"
proof -
  let ?e = "\<lparr>KeyID = i, EventKey = event, Amount = amount\<rparr>"
  obtain err l1 where q: "queue sha w ?e (pr_ledger p) = (err, l1)" by fastforce
  obtain p1 where p1: "ledger_step settle others sha p p1" "pr_ledger p1 = l1" "err = None \<Longrightarrow> ?e \<in> called p1"
    using step_queue [OF assms q, of settle others] by fastforce
  show ?thesis
  proof (cases err)
    case (Some _)
    with p1 q show ?thesis by (intro exI [of _ p1]) (auto simp: ledger_Settle_def)
  next
    case None
    from store_remove_steps [OF p1(3) [OF None], where settle = settle and others = others and sha = sha and env = env and r = r] obtain p2 where
      "(ledger_step settle others sha)\<^sup>*\<^sup>* p1 p2" "pr_ledger p2 =
         (case settle env i event amount (lg_store l1) of (Some _, s) \<Rightarrow> l1\<lparr>lg_store := s\<rparr>
          | (None, s) \<Rightarrow> snd (remove_entry sha r ?e (l1\<lparr>lg_store := s\<rparr>)))" using p1(2) by auto
    with p1(1) q None show ?thesis
      by (intro exI [of _ p2]) (auto simp: ledger_Settle_def intro: converse_rtranclp_into_rtranclp split: prod.splits option.splits)
  qed
qed

lemma replay_entry_steps:
  assumes "e \<in> called p"
  shows "\<exists>p'. (ledger_step settle others sha)\<^sup>*\<^sup>* p p' \<and> called p \<subseteq> called p' \<and>
    pr_ledger p' = replay_entry settle sha (e, now, env, r) (pr_ledger p)"
proof (cases "EventExpiry (EventKey e) now")
  case (Inl _)
  then show ?thesis by (intro exI [of _ p]) (simp add: replay_entry_def)
next
  case (Inr _)
  with store_remove_steps [OF assms, where settle = settle and others = others and sha = sha and env = env and r = r] show ?thesis by (auto simp: replay_entry_def)
qed

lemma replay_all_steps:
  "set (map fst work) \<subseteq> called p \<Longrightarrow>
     \<exists>p'. (ledger_step settle others sha)\<^sup>*\<^sup>* p p' \<and> pr_ledger p' = fold (replay_entry settle sha) work (pr_ledger p)"
proof (induction work arbitrary: p)
  case (Cons w work)
  obtain e now env r where w: "w = (e, now, env, r)" by (metis prod_cases4)
  with Cons.prems replay_entry_steps [of e p settle others sha now env r]
  obtain p1 where p1: "(ledger_step settle others sha)\<^sup>*\<^sup>* p p1" "called p \<subseteq> called p1"
      "pr_ledger p1 = replay_entry settle sha w (pr_ledger p)" by auto
  with Cons.prems have "set (map fst work) \<subseteq> called p1" by auto
  from Cons.IH [OF this] p1 show ?case by (auto intro: rtranclp_trans)
qed auto

lemma call_pending:
  "set es \<subseteq> set (map snd (lg_pending (pr_ledger p))) \<Longrightarrow> distinct (map fst (lg_pending (pr_ledger p))) \<Longrightarrow>
     \<exists>p'. (ledger_step settle others sha)\<^sup>*\<^sup>* p p' \<and> pr_ledger p' = pr_ledger p \<and> set es \<subseteq> called p'"
proof (induction es)
  case (Cons e es)
  then obtain p1 where p1: "(ledger_step settle others sha)\<^sup>*\<^sup>* p p1" "pr_ledger p1 = pr_ledger p" "set es \<subseteq> called p1" by auto
  from Cons.prems obtain n where "(n, e) \<in> set (lg_pending (pr_ledger p))" by auto
  with Cons.prems(2) p1(2) have "map_of (lg_pending (pr_ledger p1)) n = Some e" by simp
  then have "ledger_step settle others sha p1 (p1\<lparr>called := insert e (called p1)\<rparr>)" by (rule step_replay)
  with p1 show ?case by (intro exI [of _ "p1\<lparr>called := insert e (called p1)\<rparr>"]) auto
qed auto

lemma Replay_steps:
  assumes "distinct (map fst (lg_pending (pr_ledger p)))"
  shows "\<exists>p'. (ledger_step settle others sha)\<^sup>*\<^sup>* p p' \<and> pr_ledger p' = Replay settle sha attempts (pr_ledger p)"
proof -
  let ?work = "zip (map snd (lg_pending (pr_ledger p))) attempts"
  have "set (map fst ?work) \<subseteq> set (map snd (lg_pending (pr_ledger p)))" using set_zip_leftD by fastforce
  with call_pending [OF this assms] obtain p1 where p1: "(ledger_step settle others sha)\<^sup>*\<^sup>* p p1"
    "pr_ledger p1 = pr_ledger p" "set (map fst ?work) \<subseteq> called p1" by blast
  with replay_all_steps [OF p1(3), of settle others sha] show ?thesis
    unfolding Replay_def by (auto intro: rtranclp_trans)
qed

section \<open>The outbox over the Redis store\<close>

text \<open>What else changes the keys meanwhile: reservations and releases.\<close>

definition billing_others :: "billing_db \<Rightarrow> billing_db \<Rightarrow> bool" where
  "billing_others db db' \<longleftrightarrow>
     (\<exists>e i event amount expires. db' = snd (ReserveApiKeyBilling e i event amount expires db)) \<or>
     (\<exists>e i event. db' = snd (ReleaseApiKeyBilling e i event db))"

lemma accounted_frame:
  assumes "\<And>i. bk_receipts (db' i) = bk_receipts (db i) \<and> bk_used (db' i) = bk_used (db i)"
  shows "accounted base db' = accounted base db" "booked_amount db' = booked_amount db"
  using assms by (simp_all add: accounted_def receipts_total_def booked_amount_def fun_eq_iff)

lemma release_script_receipts: "bk_receipts (snd (releaseApiKeyBillingScript clock event k)) = bk_receipts k"
  "bk_used (snd (releaseApiKeyBillingScript clock event k)) = bk_used k"
  by (simp_all add: releaseApiKeyBillingScript_def Let_def)

lemma run_script_frame:
  "bk_receipts (snd r) = bk_receipts (db j) \<Longrightarrow> bk_used (snd r) = bk_used (db j) \<Longrightarrow>
     bk_receipts (snd (run_script e j r db) i) = bk_receipts (db i) \<and> bk_used (snd (run_script e j r db) i) = bk_used (db i)"
  by (auto simp: run_script_def split: trip.split)

lemma billing_others_frame:
  assumes "billing_others db db'"
  shows "bk_receipts (db' i) = bk_receipts (db i) \<and> bk_used (db' i) = bk_used (db i)"
  using assms unfolding billing_others_def
proof (elim disjE exE)
  fix e j event amount expires
  assume db': "db' = snd (ReserveApiKeyBilling e j event amount expires db)"
  let ?r = "reserveApiKeyBillingScript (be_clock e) event amount (unix_second (be_now e)) (unix_second expires) (db j)"
  have "bk_receipts (snd ?r) = bk_receipts (db j)" "bk_used (snd ?r) = bk_used (db j)"
    using reserve_script_used [of _ _ _ _ _ "db j" "fst ?r" "snd ?r"] by auto
  then show ?thesis using run_script_frame [of ?r db j e i] db'
    by (auto simp: ReserveApiKeyBilling_def Let_def split: prod.splits)
next
  fix e j event
  assume db': "db' = snd (ReleaseApiKeyBilling e j event db)"
  let ?r = "releaseApiKeyBillingScript (be_clock e) event (db j)"
  show ?thesis
    using db' run_script_frame [of "(Inr (fst ?r), snd ?r)" db j e i] release_script_receipts [of "be_clock e" event "db j"]
    by (auto simp: ReleaseApiKeyBilling_def Let_def split: prod.splits)
qed

lemma ledger_run_inv:
  assumes "inj sha" "accounted base db0"
    and "(ledger_step SettleApiKeyBilling billing_others sha)\<^sup>*\<^sup>* (fresh_process db0) p"
  shows "billing_store.ledger_inv booked_amount (accounted base) sha db0 p"
  using assms(3)
proof (induction rule: rtranclp_induct)
  case base
  show ?case by (rule redis_billing.ledger_inv_fresh [OF assms(2)])
next
  case (step p p')
  show ?case
    by (rule redis_billing.ledger_step_inv [OF assms(1) _ step.hyps(2) step.IH])
      (use accounted_frame billing_others_frame in metis)
qed


text \<open>A restart never refuses its own outbox: whatever was interrupted, the files on disk are entries
  \<open>New\<close> accepts.\<close>

lemma restart_accepts_outbox:
  assumes "inj sha" "accounted base db0"
    and "(ledger_step SettleApiKeyBilling billing_others sha)\<^sup>*\<^sup>* (fresh_process db0) p"
  shows "\<exists>l. ledger_New sha (lg_store (pr_ledger p)) (lg_disk (pr_ledger p)) = Inr l"
  by (rule redis_billing.disk_ok_loads) (rule redis_billing.ledger_invD(2) [OF ledger_run_inv [OF assms]])


text \<open>A settlement whose answer is lost and whose process then restarts; the replay charges it once.\<close>

definition outage_db :: billing_db where
  "outage_db = (\<lambda>_. \<lparr>bk_row = Some \<lparr>row_period_days = 0, row_period_started_at = [], row_updated_at = []\<rparr>,
     bk_limit = 10, bk_used = 0, bk_holds = [], bk_holds_expire = None, bk_receipts = [], bk_legacy = None\<rparr>)"

definition outage_event :: string where "outage_event = EventID unix_epoch ''r''"

definition outage_env :: "trip \<Rightarrow> billing_env" where
  "outage_env t = \<lparr>be_now = unix_epoch, be_clock = 0, be_trip = t\<rparr>"

definition outage_entry :: entry where
  "outage_entry = \<lparr>KeyID = 1, EventKey = outage_event, Amount = 4\<rparr>"

definition outage_first :: "billing_db ledger" where
  "outage_first = snd (ledger_Settle SettleApiKeyBilling (\<lambda>x. x) Written (outage_env (Trip_lost True)) Erased 1 outage_event 4
     (pr_ledger (fresh_process outage_db)))"

lemma outage_lost:
  "lg_pending outage_first = [(entry_name (\<lambda>x. x) outage_entry, outage_entry)]"
  "booked_amount (lg_store outage_first) 1 outage_event = Some 4"
  "fst (ledger_Settle SettleApiKeyBilling (\<lambda>x. x) Written (outage_env (Trip_lost True)) Erased 1 outage_event 4
     (pr_ledger (fresh_process outage_db))) = Some transport_error"
  by code_simp+

lemma outage_replayed:
  "lg_pending (Replay SettleApiKeyBilling (\<lambda>x. x) [(unix_epoch, outage_env Trip_ok, Erased)] outage_first) = []"
  "bk_used (lg_store (Replay SettleApiKeyBilling (\<lambda>x. x) [(unix_epoch, outage_env Trip_ok, Erased)] outage_first) 1) = 4"
  by code_simp+


lemma outage_run:
  "\<exists>p. (ledger_step SettleApiKeyBilling billing_others (\<lambda>x. x))\<^sup>*\<^sup>* (fresh_process outage_db) p \<and> pr_ledger p = outage_first"
  unfolding outage_first_def
  by (rule ledger_Settle_steps) (simp add: valid_entry_def outage_event_def EventID_def max_int64_def)

lemma outage_accounted: "accounted (\<lambda>_. 0) outage_db"
  by (simp add: accounted_def outage_db_def receipts_total_def)


section \<open>A replay empties the outbox\<close>

definition settleable :: "billing_env \<Rightarrow> billing_db \<Rightarrow> entry \<Rightarrow> bool" where
  "settleable env db e \<longleftrightarrow> valid_entry e \<and>
     (case EventExpiry (EventKey e) (be_now env) of Inl _ \<Rightarrow> False | Inr x \<Rightarrow> be_clock env div 1000 * 1000 < unix_milli x) \<and>
     bk_row (db (KeyID e)) \<noteq> None \<and>
     (case booked_amount db (KeyID e) (EventKey e) of None \<Rightarrow> True | Some a \<Rightarrow> a = Amount e)"

lemma trim_space_eq_Nil: "trim_space s = [] \<longleftrightarrow> (\<forall>c \<in> set s. is_space c)"
  unfolding trim_space_def by (auto simp: dropWhile_eq_Nil_conv dest: set_dropWhileD)
     (metis dropWhile_eq_Nil_conv hd_dropWhile list.set_sel(1))

lemma event_not_blank: "EventExpiry event now = Inr x \<Longrightarrow> trim_space event \<noteq> []"
proof
  assume "EventExpiry event now = Inr x" and blank: "trim_space event = []"
  then have "takeWhile (\<lambda>d. d \<noteq> CHR '':'') event = ''v2''"
    by (auto simp: EventExpiry_def split3_def split_once_def split: option.splits if_splits prod.splits)
  then have "CHR ''v'' \<in> set event" by (metis list.set_intros(1) set_takeWhileD)
  moreover have "\<not> is_space CHR ''v''" by code_simp
  ultimately show False using blank trim_space_eq_Nil by blast
qed

lemma settle_script_succeeds:
  assumes "bk_row k \<noteq> None" "clock div 1000 * 1000 < expiry" "bk_used k + amount \<le> max_int64"
    and "case map_of (bk_receipts k) event of None \<Rightarrow> True | Some (a, _) \<Rightarrow> a = amount"
  shows "\<exists>n k'. settleApiKeyBillingScript clock event amount expiry retention k = (Inr n, k') \<and> 0 \<le> n \<and>
    bk_row k' = bk_row k \<and> (bk_used k' = bk_used k \<or> bk_used k' = bk_used k + amount)"
  using assms
  by (cases "map_of (bk_receipts k) event")
    (auto simp: settleApiKeyBillingScript_def Let_def receipt_at_def not_le split: prod.splits)


lemma settle_succeeds:
  assumes "settleable env db e" "be_trip env = Trip_ok" "bk_used (db (KeyID e)) + Amount e \<le> max_int64"
    and run: "SettleApiKeyBilling env (KeyID e) (EventKey e) (Amount e) db = (r, db')"
  shows "r = None \<and> (\<forall>i. bk_row (db' i) = bk_row (db i)) \<and> (\<forall>i. bk_used (db' i) \<le> bk_used (db i) + Amount e)"
proof -
  have e: "KeyID e \<noteq> 0" "0 \<le> Amount e" "bk_row (db (KeyID e)) \<noteq> None"
    using assms(1) by (auto simp: settleable_def valid_entry_def)
  obtain x where x: "EventExpiry (EventKey e) (be_now env) = Inr x" "be_clock env div 1000 * 1000 < unix_milli x"
    using assms(1) by (auto simp: settleable_def split: sum.splits)
  have "case map_of (bk_receipts (db (KeyID e))) (EventKey e) of None \<Rightarrow> True | Some (a, _) \<Rightarrow> a = Amount e"
    using assms(1) by (auto simp: settleable_def booked_amount_def split: option.splits)
  from settle_script_succeeds [OF e(3) x(2) assms(3) this, of "Retention div second"] obtain n k' where
    s: "settleApiKeyBillingScript (be_clock env) (EventKey e) (Amount e) (unix_milli x) (Retention div second) (db (KeyID e)) = (Inr n, k')"
    "0 \<le> n" "bk_row k' = bk_row (db (KeyID e))" "bk_used k' = bk_used (db (KeyID e)) \<or> bk_used k' = bk_used (db (KeyID e)) + Amount e"
    by blast
  have "r = None \<and> db' = db(KeyID e := k')"
    using run e(1,2) x(1) event_not_blank [OF x(1)] s(1,2) assms(2)
    by (auto simp: SettleApiKeyBilling_def run_script_def Let_def)
  with s(3,4) e(2) show ?thesis by auto
qed

lemma settleable_later:
  assumes "accounted base db" "settleable env db d" "SettleApiKeyBilling env' (KeyID e) (EventKey e) (Amount e) db = (r, db')"
    and "\<forall>i. bk_row (db' i) = bk_row (db i)" "\<not> (KeyID d = KeyID e \<and> EventKey d = EventKey e)"
  shows "settleable env db' d"
proof -
  have "booked_amount db' (KeyID d) (EventKey d) = booked_amount db (KeyID d) (EventKey d)"
    using SettleApiKeyBilling_laws(2) [OF assms(1,3)] assms(5) by auto
  with assms(2,4) show ?thesis by (simp add: settleable_def)
qed

lemma remove_erases:
  "lg_pending (snd (remove_entry sha Erased e l)) = AList.delete (entry_name sha e) (lg_pending l)"
  "lg_store (snd (remove_entry sha Erased e l)) = lg_store l"
  by (auto simp: remove_entry_def Let_def delete_id map_of_eq_None_iff)

lemma replay_drains:
  fixes l :: "billing_db ledger"
  assumes "be_trip env = Trip_ok"
  shows "accounted base (lg_store l) \<Longrightarrow> distinct (map (entry_name sha) es) \<Longrightarrow> \<forall>e \<in> set es. settleable env (lg_store l) e \<Longrightarrow>
    \<forall>i. bk_used (lg_store l i) + sum_list (map Amount es) \<le> max_int64 \<Longrightarrow>
    l' = fold (replay_entry SettleApiKeyBilling sha) (zip es (replicate (length es) (be_now env, env, Erased))) l \<Longrightarrow>
    lg_pending l' = fold AList.delete (map (entry_name sha) es) (lg_pending l) \<and>
    (\<forall>e \<in> set es. booked_amount (lg_store l') (KeyID e) (EventKey e) = Some (Amount e)) \<and>
    (\<forall>i ev a. booked_amount (lg_store l) i ev = Some a \<longrightarrow> booked_amount (lg_store l') i ev = Some a)"
proof (induction es arbitrary: l)
  case (Cons e es)
  obtain r db' where run: "SettleApiKeyBilling env (KeyID e) (EventKey e) (Amount e) (lg_store l) = (r, db')" by fastforce
  have nonneg: "0 \<le> Amount d" if "d \<in> set (e # es)" for d using Cons.prems(3) that by (auto simp: settleable_def valid_entry_def)
  then have "0 \<le> sum_list (map Amount es)" by (intro sum_list_nonneg) auto
  with Cons.prems(4) have "bk_used (lg_store l (KeyID e)) + Amount e \<le> max_int64" by (metis (no_types, lifting) add.assoc add_increasing2 add_le_cancel_left list.simps(9) order_trans sum_list.Cons le_add_same_cancel1)
  with settle_succeeds [OF _ assms _ run] Cons.prems(3) have ok: "r = None" "\<forall>i. bk_row (db' i) = bk_row (lg_store l i)"
    "\<forall>i. bk_used (db' i) \<le> bk_used (lg_store l i) + Amount e" by auto
  note laws = SettleApiKeyBilling_laws [OF Cons.prems(1) run]
  let ?l1 = "snd (remove_entry sha Erased e (l\<lparr>lg_store := db'\<rparr>))"
  have l1: "lg_pending ?l1 = AList.delete (entry_name sha e) (lg_pending l)" "lg_store ?l1 = db'"
    by (simp_all add: remove_erases)
  obtain x where "EventExpiry (EventKey e) (be_now env) = Inr x"
    using Cons.prems(3) by (auto simp: settleable_def split: sum.splits)
  then have first: "replay_entry SettleApiKeyBilling sha (e, be_now env, env, Erased) l = ?l1"
    using run ok(1) by (simp add: replay_entry_def)
  have "\<forall>d \<in> set es. settleable env (lg_store ?l1) d"
  proof
    fix d assume d: "d \<in> set es"
    then have "entry_name sha d \<noteq> entry_name sha e" using Cons.prems(2) by (auto simp: rev_image_eqI)
    then have "\<not> (KeyID d = KeyID e \<and> EventKey d = EventKey e)" by (auto simp: entry_name_def)
    with settleable_later [OF Cons.prems(1) _ run ok(2)] Cons.prems(3) d l1(2) show "settleable env (lg_store ?l1) d" by simp
  qed
  moreover have "\<forall>i. bk_used (lg_store ?l1 i) + sum_list (map Amount es) \<le> max_int64"
    using ok(3) Cons.prems(4) l1(2) by (smt (verit) list.simps(9) sum_list.Cons)
  ultimately have rest: "lg_pending l' = fold AList.delete (map (entry_name sha) es) (lg_pending ?l1) \<and>
      (\<forall>e \<in> set es. booked_amount (lg_store l') (KeyID e) (EventKey e) = Some (Amount e)) \<and>
      (\<forall>i ev a. booked_amount (lg_store ?l1) i ev = Some a \<longrightarrow> booked_amount (lg_store l') i ev = Some a)"
    using Cons.prems(2,5) first l1(2) laws(1) by (intro Cons.IH) auto
  moreover have "booked_amount db' i ev = Some a" if "booked_amount (lg_store l) i ev = Some a" for i ev a
    using redis_billing.booked_stays [OF Cons.prems(1) run that] .
  ultimately show ?case using laws(3) ok(1) l1 by auto
qed auto

lemma fold_delete_all: "fold AList.delete ns xs = filter (\<lambda>x. fst x \<notin> set ns) xs"
  by (induction ns arbitrary: xs) (auto simp: AList.delete_eq filter_filter intro: filter_cong)

text \<open>C34.
  Once the store answers again a replay empties the outbox: when every pending entry is inside its
  retention window, names a known key and was not charged a different amount, one replay without
  failures charges each entry its own amount and leaves nothing pending.\<close>

theorem replay_empties_outbox:
  fixes l :: "billing_db ledger"
  assumes "accounted base (lg_store l)" "distinct (map fst (lg_pending l))"
    and "\<forall>(name, e) \<in> set (lg_pending l). name = entry_name sha e \<and> settleable env (lg_store l) e"
    and "be_trip env = Trip_ok"
    and "\<forall>i. bk_used (lg_store l i) + sum_list (map (Amount \<circ> snd) (lg_pending l)) \<le> max_int64"
    and "l' = Replay SettleApiKeyBilling sha (replicate (length (lg_pending l)) (be_now env, env, Erased)) l"
  shows "lg_pending l' = [] \<and>
    (\<forall>(name, e) \<in> set (lg_pending l). booked_amount (lg_store l') (KeyID e) (EventKey e) = Some (Amount e))"
proof -
  let ?es = "map snd (lg_pending l)"
  have names: "map (entry_name sha) ?es = map fst (lg_pending l)" using assms(3) by (auto simp: comp_def)
  have "lg_pending l' = fold AList.delete (map (entry_name sha) ?es) (lg_pending l) \<and>
    (\<forall>e \<in> set ?es. booked_amount (lg_store l') (KeyID e) (EventKey e) = Some (Amount e)) \<and>
    (\<forall>i ev a. booked_amount (lg_store l) i ev = Some a \<longrightarrow> booked_amount (lg_store l') i ev = Some a)"
  proof (rule replay_drains [OF assms(4,1)])
    show "distinct (map (entry_name sha) ?es)" unfolding names by (rule assms(2))
    show "\<forall>e \<in> set ?es. settleable env (lg_store l) e" using assms(3) by fastforce
    show "\<forall>i. bk_used (lg_store l i) + sum_list (map Amount ?es) \<le> max_int64" using assms(5) by (simp add: comp_def)
  qed (simp add: assms(6) Replay_def)
  then have "lg_pending l' = fold AList.delete (map fst (lg_pending l)) (lg_pending l)"
    "\<forall>e \<in> set ?es. booked_amount (lg_store l') (KeyID e) (EventKey e) = Some (Amount e)" unfolding names by blast+
  then show ?thesis by (auto simp: fold_delete_all filter_empty_conv)
qed

lemma queue_store: "queue sha w e l = (err, l') \<Longrightarrow> lg_store l' = lg_store l"
  by (auto simp: queue_def Let_def split: option.splits write_outcome.splits)

lemma remove_store: "lg_store (snd (remove_entry sha r e l)) = lg_store l"
  by (auto simp: remove_entry_def Let_def split: remove_outcome.split)

lemma ledger_Settle_store:
  "lg_store (snd (ledger_Settle settle sha w env r i event amount l)) \<in>
     {lg_store l, snd (settle env i event amount (lg_store l))}"
  by (auto simp: ledger_Settle_def Let_def remove_store queue_store split: prod.splits option.splits)

lemma settle_other_keys: "j \<noteq> i \<Longrightarrow> snd (SettleApiKeyBilling env i event amount db) j = db j"
  by (auto simp: SettleApiKeyBilling_def run_script_def Let_def split: sum.splits trip.splits prod.splits)

lemma outage_used: "bk_used (lg_store outage_first i) \<le> 4"
proof (cases "i = 1")
  case True
  have "bk_used (lg_store outage_first 1) = 4" by code_simp
  with True show ?thesis by simp
next
  case False
  then have "lg_store outage_first i = outage_db i"
    using ledger_Settle_store [of SettleApiKeyBilling "\<lambda>x. x" Written "outage_env (Trip_lost True)" Erased 1 outage_event 4
        "pr_ledger (fresh_process outage_db)"] settle_other_keys [of i 1]
    by (auto simp: outage_first_def fresh_process_def)
  then show ?thesis by (simp add: outage_db_def)
qed

lemma outage_settleable: "settleable (outage_env Trip_ok) (lg_store outage_first) outage_entry"
  by code_simp

theorem replay_empties_outbox_witness:
  "lg_pending (Replay SettleApiKeyBilling (\<lambda>x. x) [(unix_epoch, outage_env Trip_ok, Erased)] outage_first) = []"
proof -
  have acc: "accounted (\<lambda>_. 0) (lg_store outage_first)"
    using outage_run ledger_run_inv [OF _ outage_accounted, of "\<lambda>x. x"] redis_billing.ledger_invD(1) by (force simp: inj_def)
  have "bk_used (lg_store outage_first i) + Amount outage_entry \<le> max_int64" for i
    using outage_used [of i] by (simp add: outage_entry_def max_int64_def)
  with replay_empties_outbox [OF acc, where env = "outage_env Trip_ok" and sha = "\<lambda>x. x", OF _ _ _ _ refl] outage_settleable
  show ?thesis by (simp add: outage_lost(1) outage_env_def)
qed

section \<open>The outbox is a settlement store\<close>

lemma ledger_Settle_effect:
  assumes "ledger_Settle settle sha w env r i event amount l = (res, l')"
  shows "lg_store l' = lg_store l \<and> res \<noteq> None \<or>
    (\<exists>e. settle env i event amount (lg_store l) = (e, lg_store l') \<and> (res = None \<longrightarrow> e = None))"
proof -
  let ?e = "\<lparr>KeyID = i, EventKey = event, Amount = amount\<rparr>"
  obtain err l1 where q: "queue sha w ?e l = (err, l1)" by fastforce
  obtain err2 s where s: "settle env i event amount (lg_store l) = (err2, s)" by fastforce
  have st: "lg_store l1 = lg_store l" using q by (rule queue_store)
  show ?thesis
  proof (cases "err = None \<and> err2 = None")
    case True
    then have "(res, l') = remove_entry sha r ?e (l1\<lparr>lg_store := s\<rparr>)" using assms q s st by (simp add: ledger_Settle_def)
    then have "lg_store l' = s" using remove_store [of sha r ?e "l1\<lparr>lg_store := s\<rparr>"] by (metis ledger.select_convs(1) ledger.surjective ledger.update_convs(1) snd_conv)
    with s True show ?thesis by blast
  next
    case False
    with assms q s st show ?thesis by (cases err; cases err2) (auto simp: ledger_Settle_def)
  qed
qed

lemma outbox_laws:
  assumes "accounted base (lg_store l)" "ledger_Settle SettleApiKeyBilling sha w env r i event amount l = (res, l')"
  shows "accounted base (lg_store l')"
    and "res = None \<Longrightarrow> booked_amount (lg_store l') i event = Some amount"
    and "booked_amount (lg_store l') = booked_amount (lg_store l) \<or>
      (booked_amount (lg_store l) i event = None \<and>
       booked_amount (lg_store l') = (booked_amount (lg_store l))(i := (booked_amount (lg_store l) i)(event \<mapsto> amount)))"
  using ledger_Settle_effect [OF assms(2)] assms(1) SettleApiKeyBilling_laws [OF assms(1)] by metis+

interpretation outbox: billing_store
  "\<lambda>(w, env, r). ledger_Settle SettleApiKeyBilling sha w env r" "\<lambda>l. booked_amount (lg_store l)" "\<lambda>l. accounted base (lg_store l)"
  for sha base
  by unfold_locales (auto dest: outbox_laws split: prod.splits)

end
