(* ===== verification/Billing_Middleware.thy ===== *)
theory Billing_Middleware
  imports Billing_Ledger Pricing Channel
begin

text \<open>
  The request path of the spending limit, \<^verbatim>\<open>internal/middleware/billing.go\<close>: a hold is taken before the
  handler, the handler settles it, and what nothing settled is released when the request ends.

  \<^item> A store is given by its settle, reserve and release operations on a world \<open>'w\<close>; a settle takes an
    environment \<open>'e\<close> for each round trip, as in the contract \<open>billing_store\<close>.
  \<^item> A handler is the list of settlements it makes.
\<close>

section \<open>Settlement\<close>

record BillingReservation =
  rv_KeyID :: int
  rv_EventID :: string
  rv_Amount :: int
  rv_settled :: bool
  rv_pending :: bool
  rv_priced :: Result

type_synonym ('e, 'w) settler = "'e \<Rightarrow> int \<Rightarrow> string \<Rightarrow> int \<Rightarrow> 'w \<Rightarrow> string option \<times> 'w"

definition UsageSourceUpstream :: string where "UsageSourceUpstream = ''upstream''"

text \<open>The loop \<open>for range 3\<close>, one environment for each round.\<close>

fun settle_rounds :: "('e, 'w) settler \<Rightarrow> 'e list \<Rightarrow> int \<Rightarrow> string \<Rightarrow> int \<Rightarrow> string option \<Rightarrow> 'w \<Rightarrow> string option \<times> 'w" where
  "settle_rounds settle [] i event amount err w = (err, w)"
| "settle_rounds settle (e # es) i event amount err w =
     (case settle e i event amount w of
        (None, w') \<Rightarrow> (None, w')
      | (Some err', w') \<Rightarrow> settle_rounds settle es i event amount (Some err') w')"

type_synonym 'e rounds = "'e \<times> 'e \<times> 'e"

definition book :: "('e, 'w) settler \<Rightarrow> 'e rounds \<Rightarrow> Result \<Rightarrow> BillingReservation \<Rightarrow> 'w \<Rightarrow> bool \<times> BillingReservation \<times> 'w" where
  "book settle rounds result rv w =
     (let rv1 = rv\<lparr>rv_pending := True, rv_priced := result\<rparr>;
          (e1, e2, e3) = rounds;
          (err, w') = settle_rounds settle [e1, e2, e3] (rv_KeyID rv) (rv_EventID rv) (CostInUSDTicks result) None w
      in if err \<noteq> None then (False, rv1, w')
         else (True, rv1\<lparr>rv_settled := True, rv_pending := False\<rparr>, w'))"

definition billable :: "('e, 'w) settler option \<Rightarrow> BillingReservation option \<Rightarrow> (('e, 'w) settler \<times> BillingReservation) option" where
  "billable settler reservation =
     (case (settler, reservation) of
        (Some settle, Some rv) \<Rightarrow> if rv_KeyID rv = 0 \<or> rv_EventID rv = [] then None else Some (settle, rv)
      | _ \<Rightarrow> None)"

definition SettleAPIKeyBilling ::
  "('e, 'w) settler option \<Rightarrow> bool \<Rightarrow> 'e rounds \<Rightarrow> string \<Rightarrow> string \<Rightarrow> int \<Rightarrow> int \<Rightarrow> int \<Rightarrow>
   BillingReservation option \<Rightarrow> 'w \<Rightarrow> (Result \<times> bool) \<times> BillingReservation option \<times> 'w" where
  "SettleAPIKeyBilling settler allowEstimates rounds model usageSource inputTokens cachedInputTokens outputTokens reservation w =
     (if usageSource \<noteq> UsageSourceUpstream \<and> \<not> allowEstimates then ((no_result, False), reservation, w)
      else
        let (result, priced) = EstimateCost model inputTokens cachedInputTokens outputTokens inputTokens in
        if \<not> priced then ((no_result, False), reservation, w)
        else case billable settler reservation of
          None \<Rightarrow> ((result, True), reservation, w)
        | Some (settle, rv) \<Rightarrow>
            if rv_settled rv then ((rv_priced rv, True), reservation, w)
            else
              let result = (if rv_pending rv then rv_priced rv else result);
                  (ok, rv', w') = book settle rounds result rv w
              in ((result, ok), Some rv', w'))"

definition SettleAPIKeyBillingResult ::
  "('e, 'w) settler option \<Rightarrow> 'e rounds \<Rightarrow> Result \<Rightarrow> BillingReservation option \<Rightarrow> 'w \<Rightarrow> bool \<times> BillingReservation option \<times> 'w" where
  "SettleAPIKeyBillingResult settler rounds result reservation w =
     (if CostInUSDTicks result \<le> 0 \<or> trim_space (Model result) = [] then (False, reservation, w)
      else case billable settler reservation of
        None \<Rightarrow> (True, reservation, w)
      | Some (settle, rv) \<Rightarrow>
          if rv_settled rv then (True, reservation, w)
          else let (ok, rv', w') = book settle rounds result rv w in (ok, Some rv', w'))"

section \<open>The middleware\<close>

definition trim_right_char :: "char \<Rightarrow> string \<Rightarrow> string" where
  "trim_right_char c s = rev (dropWhile (\<lambda>d. d = c) (rev s))"

definition billingRequestPath :: "string \<Rightarrow> bool" where
  "billingRequestPath path =
     (case EndpointFromPath path of
        None \<Rightarrow> False
      | Some (_, endpoint) \<Rightarrow>
          List.member [''messages'', ''chat/completions'', ''responses'', ''responses/compact''] (trim_right_char (CHR ''/'') endpoint))"

text \<open>A body that could not be read, one that is not JSON, and the document of a body of \<open>n\<close> bytes.\<close>

datatype request_body = Body_unreadable | Body_empty | Body_invalid | Body_json nat json

record billing_request =
  br_principal :: "(int \<times> int) option"
  br_method :: string
  br_path :: string
  br_body :: request_body
  br_request_id :: string
  br_trace_id :: string
  br_now :: time
  br_now2 :: time

text \<open>The settlements a handler makes while it serves the request.\<close>

datatype 'e settlement =
    Settle_usage bool "'e rounds" string string int int int
  | Settle_result "'e rounds" Result

fun settle_call :: "('e, 'w) settler option \<Rightarrow> 'e settlement \<Rightarrow> BillingReservation option \<Rightarrow> 'w \<Rightarrow> BillingReservation option \<times> 'w" where
  "settle_call settler (Settle_usage allow rounds model source i c out) rv w =
     snd (SettleAPIKeyBilling settler allow rounds model source i c out rv w)"
| "settle_call settler (Settle_result rounds result) rv w =
     snd (SettleAPIKeyBillingResult settler rounds result rv w)"

fun serve :: "('e, 'w) settler option \<Rightarrow> 'e settlement list \<Rightarrow> BillingReservation option \<Rightarrow> 'w \<Rightarrow> BillingReservation option \<times> 'w" where
  "serve settler [] rv w = (rv, w)"
| "serve settler (c # cs) rv w = (case settle_call settler c rv w of (rv', w') \<Rightarrow> serve settler cs rv' w')"

datatype response = Served | Refused int string

record 'w reserver =
  op_reserve :: "int \<Rightarrow> string \<Rightarrow> int \<Rightarrow> time \<Rightarrow> 'w \<Rightarrow> (string + bool) \<times> 'w"
  op_release :: "int \<Rightarrow> string \<Rightarrow> 'w \<Rightarrow> (string + bool) \<times> 'w"

definition DefaultBillingReservationTTL :: duration where "DefaultBillingReservationTTL = 30 * minute"

text \<open>The deferred cleanup.\<close>

definition cleanup :: "'w reserver \<Rightarrow> BillingReservation option \<Rightarrow> 'w \<Rightarrow> 'w" where
  "cleanup rs held w =
     (case held of
        None \<Rightarrow> w
      | Some rv \<Rightarrow> if rv_settled rv \<or> rv_pending rv then w else snd (op_release rs (rv_KeyID rv) (rv_EventID rv) w))"

definition APIKeyBillingReservation ::
  "('e, 'w) settler option \<Rightarrow> ('w \<Rightarrow> string option) \<Rightarrow> 'w reserver option \<Rightarrow> duration \<Rightarrow> 'e settlement list \<Rightarrow>
   billing_request \<Rightarrow> 'w \<Rightarrow> response \<times> BillingReservation option \<times> 'w" where
  "APIKeyBillingReservation settler ready reserver ttl0 calls req w =
     (let ttl = (if ttl0 \<le> 0 then DefaultBillingReservationTTL else ttl0);
          unbilled = (Served, serve settler calls None w)
      in case (br_principal req, reserver) of
        (Some (key, limit), Some rs) \<Rightarrow>
          if key = 0 \<or> limit \<le> 0 then unbilled
          else if br_method req \<noteq> ''POST'' \<and> br_method req \<noteq> ''PUT'' then unbilled
          else if \<not> billingRequestPath (br_path req) then unbilled
          else (case br_body req of
            Body_unreadable \<Rightarrow> (Refused 400 ''invalid_request_body'', None, w)
          | Body_empty \<Rightarrow> unbilled
          | Body_invalid \<Rightarrow> (Refused 400 ''invalid_request_body'', None, w)
          | Body_json n doc \<Rightarrow>
              let (reservation, priced) = EstimateTextReservationFromBody n doc in
              if \<not> priced then unbilled
              else
                let requestID = (if br_request_id req = [] then br_trace_id req else br_request_id req);
                    eventID = EventID (br_now req) requestID
                in if settler \<noteq> None \<and> ready w \<noteq> None then (Refused 503 ''billing_unavailable'', None, w)
                   else (case op_reserve rs key eventID (CostInUSDTicks reservation) (br_now2 req + ttl) w of
                     (Inl _, w1) \<Rightarrow> (Refused 503 ''billing_unavailable'', None, w1)
                   | (Inr False, w1) \<Rightarrow> (Refused 402 ''billing_limit_exceeded'', None, w1)
                   | (Inr True, w1) \<Rightarrow>
                       let held = \<lparr>rv_KeyID = key, rv_EventID = eventID, rv_Amount = CostInUSDTicks reservation,
                                   rv_settled = False, rv_pending = False, rv_priced = no_result\<rparr>;
                           (held', w2) = serve settler calls (Some held) w1
                       in (Served, held', cleanup rs held' w2)))
      | _ \<Rightarrow> unbilled)"


section \<open>One request, one charge\<close>

lemma serve_unheld: "serve settler calls None w = (None, w)"
proof (induction calls)
  case (Cons c cs)
  then show ?case
    by (cases c) (auto simp: SettleAPIKeyBilling_def SettleAPIKeyBillingResult_def billable_def Let_def split: prod.splits option.splits)
qed simp

lemma serve_settled: "rv_settled rv \<Longrightarrow> serve settler calls (Some rv) w = (Some rv, w)"
proof (induction calls)
  case (Cons c cs)
  then show ?case
    by (cases c) (auto simp: SettleAPIKeyBilling_def SettleAPIKeyBillingResult_def billable_def Let_def split: prod.splits option.splits)
qed simp

lemma serve_append: "serve settler (cs @ ds) h w = (case serve settler cs h w of (h', w') \<Rightarrow> serve settler ds h' w')"
  by (induction cs arbitrary: h w) (auto split: prod.splits)

text \<open>The contract of the store a request is billed against: a settlement store whose reservations and
  releases charge nothing.\<close>

locale billing_backend = billing_store settle booked sound
  for settle :: "('e, 'w) settler" and booked :: "'w \<Rightarrow> int \<Rightarrow> string \<Rightarrow> int option" and sound :: "'w \<Rightarrow> bool" +
  fixes rs :: "'w reserver"
  assumes reserve_keeps: "sound w \<Longrightarrow> op_reserve rs i event amount expires w = (r, w') \<Longrightarrow> sound w' \<and> booked w' = booked w"
    and release_keeps: "sound w \<Longrightarrow> op_release rs i event w = (r', w') \<Longrightarrow> sound w' \<and> booked w' = booked w"
begin

lemma settle_rounds_effect:
  assumes "sound w" "settle_rounds settle es i event amount err w = (r, w')"
  shows "sound w' \<and> (\<forall>j ev. j \<noteq> i \<or> ev \<noteq> event \<longrightarrow> booked w' j ev = booked w j ev) \<and>
    (r = None \<and> es \<noteq> [] \<longrightarrow> booked w' i event = Some amount)"
  using assms
proof (induction es arbitrary: err w)
  case (Cons e es)
  obtain r1 w1 where run: "settle e i event amount w = (r1, w1)" by fastforce
  have w1: "sound w1" "\<forall>j ev. j \<noteq> i \<or> ev \<noteq> event \<longrightarrow> booked w1 j ev = booked w j ev"
    using settle_sound [OF Cons.prems(1) run] settle_once [OF Cons.prems(1) run] by (auto simp: fun_upd_def)
  show ?case
  proof (cases r1)
    case None
    with Cons.prems run w1 settle_booked [OF Cons.prems(1)] show ?thesis by auto
  next
    case (Some x)
    with Cons.prems(2) run have rest: "settle_rounds settle es i event amount (Some x) w1 = (r, w')" by simp
    have "es = [] \<Longrightarrow> r \<noteq> None" using rest by auto
    with Cons.IH [OF w1(1) rest] w1(2) show ?thesis by auto
  qed
qed simp

text \<open>What holds of a reservation while its request is served, against the receipts \<open>b0\<close> at its start.\<close>

definition held_ok :: "(int \<Rightarrow> string \<Rightarrow> int option) \<Rightarrow> int \<Rightarrow> string \<Rightarrow> BillingReservation \<Rightarrow> 'w \<Rightarrow> bool" where
  "held_ok b0 i event rv w \<longleftrightarrow> sound w \<and> rv_KeyID rv = i \<and> rv_EventID rv = event \<and>
     (\<forall>j ev. j \<noteq> i \<or> ev \<noteq> event \<longrightarrow> booked w j ev = b0 j ev) \<and>
     (rv_settled rv \<longrightarrow> booked w i event = Some (CostInUSDTicks (rv_priced rv))) \<and>
     (\<not> rv_settled rv \<and> \<not> rv_pending rv \<longrightarrow> booked w = b0)"

lemma book_ok:
  assumes "held_ok b0 i event rv w" "\<not> rv_settled rv" "book settle rounds result rv w = (ok, rv', w')"
  shows "held_ok b0 i event rv' w'"
proof -
  obtain e1 e2 e3 where rounds: "rounds = (e1, e2, e3)" by (metis prod_cases3)
  obtain err w1 where run: "settle_rounds settle [e1, e2, e3] (rv_KeyID rv) (rv_EventID rv) (CostInUSDTicks result) None w = (err, w1)"
    by fastforce
  have "sound w" using assms(1) by (simp add: held_ok_def)
  from settle_rounds_effect [OF this run] assms rounds run show ?thesis
    by (auto simp: held_ok_def book_def Let_def simp del: settle_rounds.simps split: if_splits)
qed

lemma settle_call_ok:
  assumes "held_ok b0 i event rv w" "settle_call (Some settle) c (Some rv) w = (held', w')"
  shows "\<exists>rv'. held' = Some rv' \<and> held_ok b0 i event rv' w'"
proof (cases c)
  case (Settle_usage allow rounds model source inp cached out)
  with assms show ?thesis
    by (auto simp: SettleAPIKeyBilling_def billable_def Let_def dest: book_ok split: if_splits prod.splits)
next
  case (Settle_result rounds result)
  with assms show ?thesis
    by (auto simp: SettleAPIKeyBillingResult_def billable_def Let_def dest: book_ok split: if_splits prod.splits)
qed

lemma serve_ok:
  "held_ok b0 i event rv w \<Longrightarrow> serve (Some settle) cs (Some rv) w = (held', w') \<Longrightarrow>
     \<exists>rv'. held' = Some rv' \<and> held_ok b0 i event rv' w'"
proof (induction cs arbitrary: rv w)
  case (Cons c cs)
  obtain h1 w1 where c: "settle_call (Some settle) c (Some rv) w = (h1, w1)" by fastforce
  from settle_call_ok [OF Cons.prems(1) c] obtain rv1 where "h1 = Some rv1" "held_ok b0 i event rv1 w1" by blast
  with Cons.IH Cons.prems(2) c show ?case by simp
qed auto

lemma cleanup_ok:
  assumes "held_ok b0 i event rv w"
  shows "held_ok b0 i event rv (cleanup rs (Some rv) w)"
proof -
  obtain r w' where rel: "op_release rs (rv_KeyID rv) (rv_EventID rv) w = (r, w')" by fastforce
  with assms release_keeps [OF _ rel] show ?thesis by (auto simp: held_ok_def cleanup_def)
qed

lemma request_ok:
  assumes "sound w"
    and run: "APIKeyBillingReservation (Some settle) ready (Some rs) ttl calls req w = (Served, Some rv, w')"
  shows "\<exists>key limit. br_principal req = Some (key, limit) \<and>
    held_ok (booked w) key (EventID (br_now req) (if br_request_id req = [] then br_trace_id req else br_request_id req)) rv w'"
proof -
  define ev where "ev = EventID (br_now req) (if br_request_id req = [] then br_trace_id req else br_request_id req)"
  from run obtain key limit w1 held w2 and result :: Result where
    p: "br_principal req = Some (key, limit)"
    and r: "op_reserve rs key ev (CostInUSDTicks result) (br_now2 req + (if ttl \<le> 0 then DefaultBillingReservationTTL else ttl)) w = (Inr True, w1)"
    and s: "serve (Some settle) calls (Some \<lparr>rv_KeyID = key, rv_EventID = ev, rv_Amount = CostInUSDTicks result,
       rv_settled = False, rv_pending = False, rv_priced = no_result\<rparr>) w1 = (held, w2)"
    and f: "held = Some rv" "w' = cleanup rs held w2"
    unfolding APIKeyBillingReservation_def Let_def ev_def [symmetric]
    by (auto simp: serve_unheld split: option.splits prod.splits if_splits request_body.splits sum.splits bool.splits)
  from reserve_keeps [OF assms(1) r] have "held_ok (booked w) key ev \<lparr>rv_KeyID = key, rv_EventID = ev, rv_Amount = CostInUSDTicks result,
       rv_settled = False, rv_pending = False, rv_priced = no_result\<rparr> w1" by (simp add: held_ok_def)
  from serve_ok [OF this s] f have "held_ok (booked w) key ev rv w2" by auto
  from cleanup_ok [OF this] p f show ?thesis by (auto simp: ev_def)
qed

end


section \<open>The gateway's instance\<close>

text \<open>Reservations and releases go to the store directly, settlements through the outbox over it.\<close>

definition redis_reserver :: "billing_env \<Rightarrow> billing_db ledger reserver" where
  "redis_reserver env =
     \<lparr>op_reserve = (\<lambda>i event amount expires l. case ReserveApiKeyBilling env i event amount expires (lg_store l) of
          (r, db) \<Rightarrow> (r, l\<lparr>lg_store := db\<rparr>)),
      op_release = (\<lambda>i event l. case ReleaseApiKeyBilling env i event (lg_store l) of (r, db) \<Rightarrow> (r, l\<lparr>lg_store := db\<rparr>))\<rparr>"

definition outbox_settle :: "(string \<Rightarrow> string) \<Rightarrow> (write_outcome \<times> billing_env \<times> remove_outcome, billing_db ledger) settler" where
  "outbox_settle sha = (\<lambda>(w, env, r). ledger_Settle SettleApiKeyBilling sha w env r)"

lemma reserve_frame:
  "ReserveApiKeyBilling e i event amount expires db = (r, db') \<Longrightarrow>
     accounted base db' = accounted base db \<and> booked_amount db' = booked_amount db"
  using accounted_frame [where db = db and db' = db'] billing_others_frame [of db db'] unfolding billing_others_def
  by (metis snd_conv)

lemma release_frame:
  "ReleaseApiKeyBilling e i event db = (r, db') \<Longrightarrow>
     accounted base db' = accounted base db \<and> booked_amount db' = booked_amount db"
  using accounted_frame [where db = db and db' = db'] billing_others_frame [of db db'] unfolding billing_others_def
  by (metis snd_conv)

interpretation gateway: billing_backend "outbox_settle sha" "\<lambda>l. booked_amount (lg_store l)" "\<lambda>l. accounted base (lg_store l)"
  "redis_reserver env" for sha base env
  by (unfold_locales; (unfold outbox_settle_def)?)
    (auto simp: redis_reserver_def dest: outbox_laws reserve_frame release_frame split: prod.splits)


text \<open>The first settlement wins: once a request's reservation is settled, whatever further settlements its
  handler attempts leave the reservation, the outbox and the store as they are.\<close>

lemma first_settlement_wins:
  assumes "serve settler cs (Some rv) w = (Some rv', w')" "rv_settled rv'"
  shows "serve settler (cs @ ds) (Some rv) w = (Some rv', w')"
  using assms by (simp add: serve_append serve_settled)


text \<open>A request of an unlimited budget's size, its first settlement lost on the wire and then repeated.\<close>

definition demo_gateway_db :: billing_db where
  "demo_gateway_db = (\<lambda>_. \<lparr>bk_row = Some \<lparr>row_period_days = 0, row_period_started_at = [], row_updated_at = []\<rparr>,
     bk_limit = 10000000000, bk_used = 0, bk_holds = [], bk_holds_expire = None, bk_receipts = [], bk_legacy = None\<rparr>)"

definition demo_ledger :: "billing_db ledger" where
  "demo_ledger = \<lparr>lg_store = demo_gateway_db, lg_disk = [], lg_pending = [], lg_disk_err = None\<rparr>"

definition demo_round :: "trip \<Rightarrow> write_outcome \<times> billing_env \<times> remove_outcome" where
  "demo_round t = (Written, outage_env t, Erased)"

definition demo_calls :: "(write_outcome \<times> billing_env \<times> remove_outcome) settlement list" where
  "demo_calls = [Settle_usage False (demo_round (Trip_lost True), demo_round Trip_ok, demo_round Trip_ok) ''grok-4.5'' ''upstream'' 200 50 100]"

definition demo_request :: billing_request where
  "demo_request = \<lparr>br_principal = Some (1, 10000000000), br_method = ''POST'', br_path = ''/grok/messages'',
     br_body = Body_json 40 (JObj [(''model'', JStr ''grok-4.5'')]), br_request_id = ''r'', br_trace_id = [],
     br_now = unix_epoch, br_now2 = unix_epoch\<rparr>"

definition demo_served :: "response \<times> BillingReservation option \<times> billing_db ledger" where
  "demo_served = APIKeyBillingReservation (Some (outbox_settle (\<lambda>x. x))) (Ready unix_epoch) (Some (redis_reserver (outage_env Trip_ok)))
     0 demo_calls demo_request demo_ledger"

lemma demo_served_values:
  "case demo_served of (r, Some v, _) \<Rightarrow> r = Served \<and> rv_settled v \<and> CostInUSDTicks (rv_priced v) = 9150000 | _ \<Rightarrow> False"
  by code_simp

lemma demo_accounted: "accounted (\<lambda>_. 0) (lg_store demo_ledger)"
  by (simp add: accounted_def demo_ledger_def demo_gateway_db_def receipts_total_def)


section \<open>Admission\<close>

lemma reserve_loop_fresh:
  "event \<notin> fst ` set es \<Longrightarrow> fst (reserve_loop event amount now es hs live latest) = None"
  by (induction event amount now es hs live latest rule: reserve_loop.induct) (auto split: option.split)

definition over_limit :: "int \<Rightarrow> int \<Rightarrow> int \<Rightarrow> billing_key \<Rightarrow> bool" where
  "over_limit clock now amount k \<longleftrightarrow>
     0 < bk_limit k \<and> bk_limit k < bk_used k + live_held now (bk_holds (billing_at clock k)) + amount"

lemma reserve_script_fresh:
  assumes "event \<notin> fst ` set (bk_holds (billing_at clock k))"
  shows "fst (reserveApiKeyBillingScript clock event amount now expires k) = Inr (if over_limit clock now amount k then 0 else 1)"
proof -
  let ?hs = "bk_holds (billing_at clock k)"
  obtain own hs live latest where loop: "reserve_loop event amount now ?hs ?hs 0 expires = (own, hs, live, latest)"
    by (metis prod_cases4)
  with reserve_loop_fresh [OF assms, of amount now ?hs 0 expires] have "own = None" by simp
  moreover from reserve_loop_holds [OF loop] this have "live = live_held now ?hs" by simp
  ultimately show ?thesis using loop
    by (auto simp: reserveApiKeyBillingScript_def Let_def over_limit_def)
qed

lemma EventID_not_blank: "trim_space (EventID now r) \<noteq> []"
proof -
  have "\<not> is_space CHR ''v''" by code_simp
  moreover have "CHR ''v'' \<in> set (EventID now r)" by (simp add: EventID_def)
  ultimately show ?thesis using trim_space_eq_Nil by blast
qed

text \<open>C36.
  A billed request is refused exactly for lack of budget: with the store reachable and the outbox ready,
  it is answered 402 when what is settled, the live holds and its worst-case cost together exceed the
  key's limit, and is served otherwise.\<close>

theorem refused_exactly_over_limit:
  assumes "br_principal req = Some (key, limit)" "key \<noteq> 0" "0 < limit" "br_method req = ''POST''" "billingRequestPath (br_path req)"
    and "br_body req = Body_json n doc" "EstimateTextReservationFromBody n doc = (price, True)" "0 < CostInUSDTicks price"
    and "ready l = None" "be_trip env = Trip_ok" "\<not> is_zero (br_now2 req + (if ttl \<le> 0 then DefaultBillingReservationTTL else ttl))"
    and "EventID (br_now req) (if br_request_id req = [] then br_trace_id req else br_request_id req)
           \<notin> fst ` set (bk_holds (billing_at (be_clock env) (lg_store l key)))"
  shows "fst (APIKeyBillingReservation settler ready (Some (redis_reserver env)) ttl calls req l) =
    (if over_limit (be_clock env) (unix_second (be_now env)) (CostInUSDTicks price) (lg_store l key)
     then Refused 402 ''billing_limit_exceeded'' else Served)"
proof -
  define ev where "ev = EventID (br_now req) (if br_request_id req = [] then br_trace_id req else br_request_id req)"
  define expires where "expires = br_now2 req + (if ttl \<le> 0 then DefaultBillingReservationTTL else ttl)"
  obtain res k where script: "reserveApiKeyBillingScript (be_clock env) ev (CostInUSDTicks price) (unix_second (be_now env))
      (unix_second expires) (lg_store l key) = (res, k)" by fastforce
  with reserve_script_fresh [OF assms(12) [folded ev_def], of "CostInUSDTicks price" "unix_second (be_now env)" "unix_second expires"]
  have res: "res = Inr (if over_limit (be_clock env) (unix_second (be_now env)) (CostInUSDTicks price) (lg_store l key) then 0 else 1)"
    by simp
  have "ReserveApiKeyBilling env key ev (CostInUSDTicks price) expires (lg_store l) =
     (Inr (\<not> over_limit (be_clock env) (unix_second (be_now env)) (CostInUSDTicks price) (lg_store l key)), (lg_store l)(key := k))"
    using assms(2,8,10,11) script res EventID_not_blank unfolding expires_def [symmetric]
    by (simp add: ReserveApiKeyBilling_def run_script_def ev_def)
  then have op: "op_reserve (redis_reserver env) key ev (CostInUSDTicks price) expires l =
     (Inr (\<not> over_limit (be_clock env) (unix_second (be_now env)) (CostInUSDTicks price) (lg_store l key)), l\<lparr>lg_store := (lg_store l)(key := k)\<rparr>)"
    by (simp add: redis_reserver_def)
  show ?thesis
    using assms(1-7,9) op
    unfolding APIKeyBillingReservation_def Let_def ev_def [symmetric] expires_def [symmetric]
    by (auto simp: split: prod.splits)
qed

text \<open>A key of limit 100 is far below the worst case of any request.\<close>

definition poor_ledger :: "billing_db ledger" where
  "poor_ledger = demo_ledger\<lparr>lg_store := (demo_gateway_db)(1 := (demo_gateway_db 1)\<lparr>bk_limit := 100\<rparr>)\<rparr>"

theorem refused_exactly_over_limit_witness:
  "fst (APIKeyBillingReservation (None :: (unit, billing_db ledger) settler option) (\<lambda>_. None)
      (Some (redis_reserver (outage_env Trip_ok))) 0 [] demo_request poor_ledger) = Refused 402 ''billing_limit_exceeded''"
proof -
  have path: "billingRequestPath ''/grok/messages''" by code_simp
  have price: "EstimateTextReservationFromBody 40 (JObj [(''model'', JStr ''grok-4.5'')]) = (\<lparr>Model = ''grok-4.5'', CostInUSDTicks = 988160000\<rparr>, True)"
    by code_simp
  have over: "over_limit 0 0 988160000 (lg_store poor_ledger 1)" by code_simp
  have fresh: "bk_holds (billing_at 0 (lg_store poor_ledger 1)) = []" by code_simp
  have zero: "\<not> is_zero (unix_epoch + DefaultBillingReservationTTL)" "unix_second unix_epoch = 0" by code_simp+
  from refused_exactly_over_limit [where req = demo_request and key = 1 and limit = 10000000000 and n = 40
      and doc = "JObj [(''model'', JStr ''grok-4.5'')]" and price = "\<lparr>Model = ''grok-4.5'', CostInUSDTicks = 988160000\<rparr>"
      and ready = "\<lambda>_. None" and l = poor_ledger and env = "outage_env Trip_ok" and ttl = 0
      and settler = "None :: (unit, billing_db ledger) settler option" and calls = "[]"]
  show ?thesis using path price over fresh zero by (simp add: demo_request_def outage_env_def)
qed

end
