(* ===== verification/Account_Selection.thy ===== *)
theory Account_Selection
  imports Load_Balancer
begin

text \<open>
  How a request gets an account and its slot: \<^verbatim>\<open>internal/handler/account_selection.go\<close>, the waiting
  rules of \<^verbatim>\<open>internal/handler/refusal_wait.go\<close> with \<^verbatim>\<open>internal/config/inference_limits.go\<close>, and the
  capability lookups of \<^verbatim>\<open>internal/provider/capabilities.go\<close>.

  \<^item> A connection tracker is the record \<open>tracker\<close> of its operations on a state \<open>'t\<close>; \<open>mem_tracker\<close> is the
    memory tracker. The registered capabilities of the channels are the argument \<open>caps\<close>.
  \<^item> Every round of the selection reads a \<open>sel_env\<close>: the clock, the context, what the store and the
    random source answer, whether a client could be built, and what ends a wait. A list of rounds bounds
    the loop; \<open>None\<close> is a loop that has not ended within it.
  \<^item> A client is represented by the account it was built for.
\<close>

section \<open>Waiting rules\<close>

definition SharedRefusalWaitBudget :: duration where "SharedRefusalWaitBudget = 60 * second"
definition AccountReservationWaitBudget :: duration where "AccountReservationWaitBudget = 2 * second"
definition GenerationMaxRetries :: int where "GenerationMaxRetries = 20"
definition MaxAccountSwitches :: int where "MaxAccountSwitches = 20"

text \<open>\<open>override\<close> is the configured number of milliseconds, \<open>None\<close> without a configuration.\<close>

definition boundedWaitBudget :: "int option \<Rightarrow> duration \<Rightarrow> duration" where
  "boundedWaitBudget override limit =
     (case override of
        None \<Rightarrow> limit
      | Some ms \<Rightarrow> if ms = 0 then limit else min (max ms 0) (limit div millisecond) * millisecond)"

definition RefusalWaitBudget :: "int option \<Rightarrow> duration" where
  "RefusalWaitBudget override = boundedWaitBudget override SharedRefusalWaitBudget"

definition ReservationWaitBudget :: "int option \<Rightarrow> duration" where
  "ReservationWaitBudget override = boundedWaitBudget override AccountReservationWaitBudget"

definition upstreamRetryAfter :: "go_error \<Rightarrow> duration" where
  "upstreamRetryAfter err =
     (case err_RetryAfter err of None \<Rightarrow> 0 | Some delay \<Rightarrow> if delay \<le> 0 then 0 else delay)"

definition computeRetryDelay :: "duration \<Rightarrow> int \<Rightarrow> string \<Rightarrow> duration" where
  "computeRetryDelay base attempt0 category =
     (if base \<le> 0 then 0
      else
        let attempt = (if attempt0 < 1 then 1 else attempt0);
            attempt = (if attempt > 4 then 4 else attempt);
            delay = wrap64 (base * 2 ^ nat (attempt - 1));
            delay = (if category = ''rate_limit'' \<and> delay < 2 * second then 2 * second else delay)
        in if delay > 30 * second then 30 * second else delay)"

definition shouldRetryCurrentAccountWhenNoAlternative :: "string \<Rightarrow> bool" where
  "shouldRetryCurrentAccountWhenNoAlternative category =
     (let c = trim_space category in
      c = ''network'' \<or> c = ''timeout'' \<or> c = ''server'' \<or> c = ''model_unavailable'' \<or> c = ''unknown'')"

definition isSharedUpstreamRefusalClass :: "UpstreamErrorClass \<Rightarrow> bool" where
  "isSharedUpstreamRefusalClass c = (\<not> UpstreamErrorClass.SwitchAccount c \<and> Category c = ''rate_limit'')"

definition sharedRefusalWaitAllowedWithin :: "duration \<Rightarrow> duration \<Rightarrow> duration \<Rightarrow> bool" where
  "sharedRefusalWaitAllowedWithin already next budget0 =
     (if next \<le> 0 then False
      else let budget = (if budget0 \<le> 0 then SharedRefusalWaitBudget else budget0)
           in already \<ge> 0 \<and> already \<le> budget \<and> next \<le> budget - already)"

text \<open>The fractions 1/16, 1/4 and 3/4 of the hint; their \<open>float64\<close> products are exact below \<open>2^51\<close> ns.\<close>

definition sharedRefusalWait :: "duration \<Rightarrow> int \<Rightarrow> duration" where
  "sharedRefusalWait hint retry =
     (if hint \<le> 0 then 0
      else let scaled = (if retry = 1 then hint div 16 else if retry = 2 then hint div 4
                         else if retry = 3 then hint * 3 div 4 else hint)
           in min (max scaled second) hint)"

text \<open>\<open>rand n\<close> is the value of \<open>rand.Int63n(n)\<close>.\<close>

definition sharedRefusalJitter :: "(int \<Rightarrow> int) \<Rightarrow> duration \<Rightarrow> duration" where
  "sharedRefusalJitter rand delay =
     (if delay \<le> 0 then 0
      else let jitter = min (delay div 5) (5 * second) in if jitter \<le> 0 then 0 else rand jitter)"

section \<open>Capabilities\<close>

record Capabilities =
  cap_SupportsModel :: "Account \<Rightarrow> string \<Rightarrow> bool"
  cap_IsFreeModel :: "Account \<Rightarrow> string \<Rightarrow> bool"
  cap_HonorsModelCooldown :: bool

type_synonym registry = "string \<Rightarrow> Capabilities option"

definition SupportsModel :: "registry \<Rightarrow> string \<Rightarrow> Account \<Rightarrow> string \<Rightarrow> bool" where
  "SupportsModel caps typ acc model =
     (case caps typ of None \<Rightarrow> True | Some c \<Rightarrow> cap_SupportsModel c acc model)"

definition IsFreeModel :: "registry \<Rightarrow> string \<Rightarrow> Account \<Rightarrow> string \<Rightarrow> bool" where
  "IsFreeModel caps typ acc model =
     (case caps typ of None \<Rightarrow> False | Some c \<Rightarrow> cap_IsFreeModel c acc model)"

definition HonorsModelCooldown :: "registry \<Rightarrow> string \<Rightarrow> bool" where
  "HonorsModelCooldown caps typ =
     (case caps typ of None \<Rightarrow> False | Some c \<Rightarrow> cap_HonorsModelCooldown c)"

definition honorsModelCooldown :: "registry \<Rightarrow> string \<Rightarrow> bool" where
  "honorsModelCooldown caps channel = HonorsModelCooldown caps channel"

section \<open>Slots\<close>

record 't tracker =
  tk_Try :: "(int \<Rightarrow> int \<Rightarrow> 't \<Rightarrow> bool \<times> 't) option"
  tk_Count :: "int \<Rightarrow> 't \<Rightarrow> int"
  tk_Acquire :: "int \<Rightarrow> 't \<Rightarrow> 't"
  tk_Release :: "int \<Rightarrow> 't \<Rightarrow> 't"

definition mem_tracker :: "mem_conns tracker" where
  "mem_tracker = \<lparr>tk_Try = Some mem_TryAcquire, tk_Count = mem_GetCount, tk_Acquire = mem_Acquire, tk_Release = mem_Release\<rparr>"

text \<open>\<open>hd_balancer\<close> is the tracker inside the load balancer, \<open>None\<close> without a load balancer;
  \<open>hd_client\<close> says that there is a default client.\<close>

record 't handler =
  hd_caps :: registry
  hd_connTracker :: "'t tracker option"
  hd_balancer :: "'t tracker option"
  hd_client :: bool
  hd_reservation_ms :: "int option"
  hd_refusal_ms :: "int option"

definition tryAcquireTrackedAccount :: "'t handler \<Rightarrow> Account option \<Rightarrow> 't \<Rightarrow> (int \<times> bool) \<times> 't" where
  "tryAcquireTrackedAccount h acc tk =
     (case acc of
        None \<Rightarrow> ((0, True), tk)
      | Some a \<Rightarrow>
          if ID a = 0 then ((0, True), tk)
          else
            let limit = EffectiveAccountConcurrencyLimit (Some a) in
            case hd_connTracker h of
              Some t \<Rightarrow>
                (case (if limit > 0 then tk_Try t else None) of
                   Some try \<Rightarrow>
                     (case try (ID a) limit tk of
                        (False, tk') \<Rightarrow> ((0, False), tk')
                      | (True, tk') \<Rightarrow> ((ID a, True), tk'))
                 | None \<Rightarrow>
                     if limit > 0 \<and> tk_Count t (ID a) tk \<ge> limit then ((0, False), tk)
                     else ((ID a, True), tk_Acquire t (ID a) tk))
            | None \<Rightarrow>
                (case hd_balancer h of
                   Some t \<Rightarrow> ((ID a, True), tk_Acquire t (ID a) tk)
                 | None \<Rightarrow> ((0, True), tk)))"

definition releaseTrackedAccount :: "'t handler \<Rightarrow> int \<Rightarrow> 't \<Rightarrow> 't" where
  "releaseTrackedAccount h i tk =
     (if i = 0 then tk
      else case hd_connTracker h of
        Some t \<Rightarrow> tk_Release t i tk
      | None \<Rightarrow> (case hd_balancer h of Some t \<Rightarrow> tk_Release t i tk | None \<Rightarrow> tk))"

section \<open>Selection\<close>

record sel_env =
  se_now :: time
  se_ctx :: "nat \<Rightarrow> string option"
  se_claim :: "int \<Rightarrow> bool"
  se_loaded :: "string + Account list"
  se_pick :: "nat \<Rightarrow> nat"
  se_counts :: "nat \<Rightarrow> int \<Rightarrow> int"
  se_client_built :: bool
  se_wait_ended :: "string option"

definition account_filter :: "registry \<Rightarrow> string \<Rightarrow> string \<Rightarrow> time \<Rightarrow> Account \<Rightarrow> reject option" where
  "account_filter caps channel model now acc =
     (if \<not> SupportsModel caps channel acc model then Some ErrModelUnavailable
      else
        let kind = (if honorsModelCooldown caps channel then ModelCooldownKind (Some acc) model now else []) in
        if kind = ModelCooldownUnavailable then Some ErrModelUnavailable
        else if kind = ModelCooldownThrottled then Some ErrModelThrottled
        else if trim_space (StatusCode acc) \<in> {''402'', AccountStatusWorkBuddyQuotaExhausted} then
          (if channel = ''workbuddy'' \<and> IsFreeModel caps ''workbuddy'' acc model then None else Some ErrAccountNotEligible)
        else None)"

definition selectAccountRecord ::
  "'t handler \<Rightarrow> sel_env \<Rightarrow> string \<Rightarrow> int list \<Rightarrow> string \<Rightarrow> LoadBalancer \<Rightarrow> (string + Account) \<times> LoadBalancer" where
  "selectAccountRecord h e targetChannel failedAccountIDs modelID lb =
     (if hd_balancer h = None then (Inl ''load balancer not configured'', lb)
      else
        let model = trim_space modelID;
            channel = to_lower (trim_space targetChannel);
            needsFilter = (model \<noteq> [] \<and> (honorsModelCooldown (hd_caps h) channel \<or> channel = ''cline''))
        in getNextAccountWithFilter
             \<lparr>rq_now = se_now e, rq_ctx = se_ctx e, rq_exclude = failedAccountIDs, rq_channel = targetChannel,
              rq_filter = (if needsFilter then Some (account_filter (hd_caps h) channel model (se_now e)) else None),
              rq_prepare = None, rq_claim = se_claim e\<rparr>
             (se_loaded e) (se_pick e) (se_counts e) lb)"

definition acquireAccountSelection ::
  "'t handler \<Rightarrow> sel_env \<Rightarrow> string \<Rightarrow> bool \<Rightarrow> int list \<Rightarrow> string \<Rightarrow> LoadBalancer \<Rightarrow>
   (string + Account option) \<times> LoadBalancer" where
  "acquireAccountSelection h e targetChannel channelRequired failedAccountIDs modelID lb =
     (if hd_balancer h \<noteq> None then
        (case selectAccountRecord h e targetChannel failedAccountIDs modelID lb of
           (Inl err, lb') \<Rightarrow>
             if channelRequired then (Inl err, lb')
             else if hd_client h then (Inr None, lb')
             else (Inl err, lb')
         | (Inr account, lb') \<Rightarrow>
             if \<not> se_client_built e then (Inl ''no client configured'', lb') else (Inr (Some account), lb'))
      else if hd_client h then (Inr None, lb)
      else (Inl ''no client configured'', lb))"

definition at_limits :: string where
  "at_limits = ''all matching accounts are at their concurrency limit''"

definition all_busy :: "string \<Rightarrow> string" where
  "all_busy channel = pool_error channel '' (all matching accounts are at their concurrency limit)''"

text \<open>The loop of \<open>acquireReservedAccountSelection\<close>.\<close>

fun selection_loop ::
  "'t handler \<Rightarrow> string \<Rightarrow> bool \<Rightarrow> int list \<Rightarrow> string \<Rightarrow> sel_env list \<Rightarrow> int list \<Rightarrow> int list \<Rightarrow> duration \<Rightarrow>
   LoadBalancer \<times> 't \<Rightarrow> ((string + Account option \<times> int) \<times> LoadBalancer \<times> 't) option" where
  "selection_loop h channel required failed model [] excluded full waited w = None"
| "selection_loop h channel required failed model (e # es) excluded full waited (lb, tk) =
     (let budget = ReservationWaitBudget (hd_reservation_ms h) in
      case acquireAccountSelection h e channel required excluded model lb of
        (Inl err, lb') \<Rightarrow>
          if waited < budget \<and> contains err at_limits then
            (case se_wait_ended e of
               Some cause \<Rightarrow> Some (Inl cause, lb', tk)
             | None \<Rightarrow>
                 selection_loop h channel required failed model es failed []
                   (waited + min (250 * millisecond) (budget - waited)) (lb', tk))
          else if full \<noteq> [] then Some (Inl (all_busy channel), lb', tk)
          else Some (Inl err, lb', tk)
      | (Inr account, lb') \<Rightarrow>
          (case tryAcquireTrackedAccount h account tk of
             ((i, True), tk') \<Rightarrow> Some (Inr (account, i), lb', tk')
           | ((_, False), tk') \<Rightarrow>
               (case account of
                  None \<Rightarrow> Some (Inl ''failed to reserve an account concurrency slot'', lb', tk')
                | Some a \<Rightarrow>
                    if ID a = 0 then Some (Inl ''failed to reserve an account concurrency slot'', lb', tk')
                    else if ID a \<in> set full then Some (Inl (all_busy channel), lb', tk')
                    else selection_loop h channel required failed model es (excluded @ [ID a]) (full @ [ID a]) waited (lb', tk'))))"

definition acquireReservedAccountSelection ::
  "'t handler \<Rightarrow> sel_env list \<Rightarrow> string \<Rightarrow> bool \<Rightarrow> int list \<Rightarrow> string \<Rightarrow> LoadBalancer \<times> 't \<Rightarrow>
   ((string + Account option \<times> int) \<times> LoadBalancer \<times> 't) option" where
  "acquireReservedAccountSelection h es channel required failedAccountIDs model w =
     selection_loop h channel required failedAccountIDs model es failedAccountIDs [] 0 w"


section \<open>The snapshot under selection\<close>

text \<open>An index that fits the snapshot, whose identifiers are among \<open>ids\<close>.\<close>

definition snapshot_in :: "int set \<Rightarrow> LoadBalancer \<Rightarrow> bool" where
  "snapshot_in ids lb \<longleftrightarrow> index_ok lb \<and> ID ` set (cachedAccounts lb) \<subseteq> ids"

lemma channel_index_update:
  assumes "\<And>a. ID (f a) = ID a \<and> AccountType (f a) = AccountType a \<and> AgentMode (f a) = AgentMode a"
  shows "channel_index n (update_cached i f as) index = channel_index n as index"
  using assms by (induction as arbitrary: n index) (simp_all add: Let_def)

lemma update_cached_ids:
  assumes "\<And>a. ID (f a) = ID a"
  shows "ID ` set (update_cached i f as) = ID ` set as"
  using assms by (induction as) auto

lemma snapshot_frame:
  "cachedAccounts lb' = cachedAccounts lb \<Longrightarrow> cachedByChannel lb' = cachedByChannel lb \<Longrightarrow> snapshot_in ids lb' = snapshot_in ids lb"
  by (simp add: snapshot_in_def index_ok_def split: option.split)

lemma snapshot_cursor [simp]:
  "snapshot_in ids (lb\<lparr>scanCursor := n\<rparr>) = snapshot_in ids lb"
  "snapshot_in ids (lb\<lparr>lastSelected := l\<rparr>) = snapshot_in ids lb"
  by (rule snapshot_frame; simp)+

lemma snapshot_update:
  assumes "\<And>a. ID (f a) = ID a \<and> AccountType (f a) = AccountType a \<and> AgentMode (f a) = AgentMode a"
    and "snapshot_in ids lb"
    and "cachedAccounts lb' = update_cached i f (cachedAccounts lb)" "cachedByChannel lb' = cachedByChannel lb"
  shows "snapshot_in ids lb'"
  using assms channel_index_update [of f 0 i "cachedAccounts lb" "[]"] update_cached_ids [of f i "cachedAccounts lb"]
  by (simp add: snapshot_in_def index_ok_def split: option.splits)

lemma clear_snapshot: "snapshot_in ids lb \<Longrightarrow> snapshot_in ids (snd (clearAccountStatus acc lb))"
  by (rule snapshot_update [of resetAccountRuntimeState _ lb])
    (simp_all add: clearAccountStatus_def resetAccountRuntimeState_def persistAccountStatus_def Let_def)

lemma available_snapshot:
  "isAccountAvailable now claim acc lb = (av, acc', lb') \<Longrightarrow> snapshot_in ids lb \<Longrightarrow> snapshot_in ids lb'"
  using clear_snapshot [of ids lb acc]
  by (auto simp: isAccountAvailable_def Let_def split: prod.splits if_splits)

lemma rotate_snapshot: "rotateScanCursor n lb = (s, lb') \<Longrightarrow> snapshot_in ids lb \<Longrightarrow> snapshot_in ids lb'"
  by (auto simp: rotateScanCursor_def Let_def split: if_splits)

lemma scan_loop_snapshot:
  "snapshot_in ids lb \<Longrightarrow> snapshot_in ids (snd (snd (scan_loop rq cs c passed k lb)))"
  by (induction cs arbitrary: c passed k lb)
    (auto simp: Let_def split: option.splits prod.splits if_splits dest: available_snapshot)

lemma scan_snapshot: "snapshot_in ids lb \<Longrightarrow> snapshot_in ids (snd (snd (scan rq cs k lb)))"
  using scan_loop_snapshot by (auto simp: scan_def split: option.splits)

lemma scan_fallback_snapshot:
  assumes "snapshot_in ids lb" shows "snapshot_in ids (snd (scan_with_fallback rq xs lb))"
proof -
  obtain scanned lb1 where w: "scan_window xs lb = (scanned, lb1)" by fastforce
  have 1: "snapshot_in ids lb1" using assms w rotate_snapshot by (auto simp: scan_window_def split: if_splits prod.splits)
  obtain first k lb2 where s: "scan rq scanned 1 lb1 = (first, k, lb2)" by (metis prod_cases3)
  have 2: "snapshot_in ids lb2" using scan_snapshot [OF 1, of rq scanned 1] s by simp
  show ?thesis using w s 2 scan_snapshot [OF 2, of rq xs k]
    by (auto simp: scan_with_fallback_def split: sum.splits prod.splits)
qed

lemma window_snapshot: "snapshot_in ids lb \<Longrightarrow> snapshot_in ids (snd (select_in_window now pick counts xs lb))"
  by (simp add: select_in_window_def Let_def split: prod.split)

lemma windows_snapshot: "snapshot_in ids lb \<Longrightarrow> snapshot_in ids (snd (select_windows now pick counts k ws lb))"
proof (induction ws arbitrary: k lb)
  case (Cons w ws)
  with window_snapshot [of ids lb now pick "counts k" w] show ?case
    by (auto split: prod.splits option.splits)
qed simp

lemma select_snapshot: "snapshot_in ids lb \<Longrightarrow> snapshot_in ids (snd (selectAccountWithTracker now pick counts xs lb))"
  using windows_snapshot window_snapshot rotate_snapshot
  by (auto simp: selectAccountWithTracker_def split: prod.splits)

lemma enabled_snapshot:
  assumes "snapshot_in ids lb" "\<forall>rows. loaded = Inr rows \<longrightarrow> ID ` set rows \<subseteq> ids"
  shows "snapshot_in ids (snd (getEnabledAccounts now loaded lb))"
proof (cases "getEnabledAccounts now loaded lb")
  case (Pair r lb1)
  then show ?thesis
    using assms by (auto simp: getEnabledAccounts_def snapshot_in_def index_ok_def split: option.splits sum.splits)
qed

lemma next_account_snapshot:
  assumes "snapshot_in ids lb" "\<forall>rows. loaded = Inr rows \<longrightarrow> ID ` set rows \<subseteq> ids"
  shows "snapshot_in ids (snd (getNextAccountWithFilter rq loaded pick counts lb))"
proof (cases "rq_ctx rq 0")
  case (Some _)
  with assms show ?thesis by (simp add: getNextAccountWithFilter_def)
next
  case None
  obtain r lb1 where e: "getEnabledAccounts (rq_now rq) loaded lb = (r, lb1)" by fastforce
  then have 1: "snapshot_in ids lb1" using enabled_snapshot [OF assms, of "rq_now rq"] by simp
  show ?thesis
  proof (cases r)
    case (Inl _)
    with None e 1 show ?thesis by (simp add: getNextAccountWithFilter_def)
  next
    case (Inr enabled)
    let ?accounts = "if rq_channel rq \<noteq> [] then indexed_accounts (rq_channel rq) enabled lb1 else enabled"
    obtain r2 lb2 where s: "scan_with_fallback rq ?accounts lb1 = (r2, lb2)" by fastforce
    then have 2: "snapshot_in ids lb2" using scan_fallback_snapshot [OF 1, of rq ?accounts] by simp
    show ?thesis
      using None e Inr s 2 select_snapshot [OF 2, of "rq_now rq" pick counts]
      by (simp add: getNextAccountWithFilter_def Let_def split: sum.splits prod.splits option.splits) (metis snd_conv)
  qed
qed

lemma select_any_counts:
  assumes "\<And>n. 0 < n \<Longrightarrow> pick n < n" "fst (selectAccountWithTracker now pick counts xs lb) = Some a"
  shows "a \<in> set xs \<and> (\<exists>k. \<not> at_limit (counts k) a)"
proof (cases "length xs > accountScanWindow")
  case True
  then have n: "0 < length xs" by linarith
  obtain start lb' where r: "rotateScanCursor (length xs) lb = (start, lb')" by fastforce
  define ws where "ws = chunks accountScanWindow (map (\<lambda>i. xs ! ((start + i) mod length xs)) [0..<length xs])"
  have ws: "set (concat ws) = set xs"
    unfolding ws_def by (subst concat_chunks) (simp_all only: set_rotated [OF n] accountScanWindow_def zero_less_numeral)
  have "selectAccountWithTracker now pick counts xs lb = select_windows now pick counts 0 ws lb'"
    using True r by (auto simp: selectAccountWithTracker_def ws_def)
  with assms(2) select_windows_spec [OF assms(1), where now = now and counts = counts and k = 0 and ws = ws and lb = lb']
  obtain j where "j < length ws" "fair_choice (counts j) (map_of (lastSelected lb')) (ws ! j) a" by auto
  then have "\<exists>w \<in> set ws. a \<in> set w" "\<not> at_limit (counts j) a" using nth_mem by (auto simp: fair_choice_def)
  with ws show ?thesis by auto
next
  case False
  with assms(2) have "fst (select_in_window now pick (counts 0) xs lb) = Some a"
    by (auto simp: selectAccountWithTracker_def split: if_splits)
  with select_in_window_fair [OF assms(1), where now = now and counts = "counts 0" and xs = xs and lb = lb]
  show ?thesis by (auto simp: fair_choice_def split: prod.splits)
qed

lemma next_account_spec:
  assumes "snapshot_in ids lb" "\<forall>rows. loaded = Inr rows \<longrightarrow> ID ` set rows \<subseteq> ids" "\<And>n. 0 < n \<Longrightarrow> pick n < n"
    and "getNextAccountWithFilter rq loaded pick counts lb = (Inr a, lb')"
  shows "ID a \<in> ids \<and> ID a \<notin> set (rq_exclude rq) \<and>
    (\<exists>acc. wanted rq acc \<and> rejected rq acc = None \<and> fst (availability (rq_now rq) (rq_claim rq (ID acc)) acc) \<and> a = served rq acc) \<and>
    (\<exists>k. \<not> at_limit (counts k) a)"
proof -
  from assms(4) obtain enabled lb1 accounts c passed lb2 where
    e: "getEnabledAccounts (rq_now rq) loaded lb = (Inr enabled, lb1)" and
    p: "accounts = (if rq_channel rq \<noteq> [] then indexed_accounts (rq_channel rq) enabled lb1 else enabled)" and
    s: "scan_with_fallback rq accounts lb1 = (Inr (c, passed), lb2)" and
    a: "fst (selectAccountWithTracker (rq_now rq) pick counts passed lb2) = Some a"
    by (rule getNext_cases)
  have ok: "index_ok lb" using assms(1) by (simp add: snapshot_in_def)
  have lim: "a \<in> set passed" "\<exists>k. \<not> at_limit (counts k) a" using select_any_counts [OF assms(3) a] by auto
  obtain cs where "set cs \<subseteq> set accounts" "passed = map (served rq) (filter (admits rq) cs)"
    using scan_with_fallback_result [of rq accounts lb1 c passed] s by auto
  with lim obtain acc where acc: "acc \<in> set accounts" "admits rq acc" "a = served rq acc" by auto
  have "acc \<in> set enabled" using scan_pool(1) [OF ok e, of rq] acc(1) p by auto
  moreover have "ID ` set enabled \<subseteq> ids"
    using getEnabled_ok [OF ok e] enabled_snapshot [OF assms(1,2), of "rq_now rq"] e by (simp add: snapshot_in_def)
  moreover have "ID a = ID acc" using acc(3) by (simp add: served_def resetAccountRuntimeState_def)
  ultimately show ?thesis using acc(2,3) lim by (auto simp: admits_def wanted_def)
qed


section \<open>A selection takes one slot or none, and ends\<close>

text \<open>Counters below the 64-bit bound.\<close>

definition roomy :: "mem_conns \<Rightarrow> bool" where
  "roomy m \<longleftrightarrow> (\<forall>i. 0 \<le> mem_GetCount i m \<and> mem_GetCount i m < max_int64)"

lemma mem_try_room:
  assumes "roomy m" "mem_TryAcquire i limit m = (got, m')"
  shows "mem_GetCount j m' = mem_GetCount j m + of_bool (got \<and> i = j)"
    and "got \<longleftrightarrow> \<not> (0 < limit \<and> limit \<le> mem_GetCount i m)"
proof -
  have "0 \<le> mem_GetCount i m" "mem_GetCount i m < max_int64" using assms(1) by (auto simp: roomy_def)
  then have wrap: "wrap64 (mem_GetCount i m + 1) = mem_GetCount i m + 1" by (intro wrap64_id) (auto simp: min_int64_def)
  have the: "the (load_or_store i m i) = mem_GetCount i m"
    by (auto simp: load_or_store_def mem_GetCount_def split: option.splits)
  show "got \<longleftrightarrow> \<not> (0 < limit \<and> limit \<le> mem_GetCount i m)"
    using assms(2) by (auto simp: mem_TryAcquire_def Let_def the split: if_splits)
  show "mem_GetCount j m' = mem_GetCount j m + of_bool (got \<and> i = j)"
    using assms(2) wrap
    by (auto simp: mem_TryAcquire_def Let_def the mem_GetCount_def load_or_store_def split: if_splits option.splits)
qed

lemma mem_acquire_room:
  assumes "roomy m" shows "mem_GetCount j (mem_Acquire i m) = mem_GetCount j m + of_bool (i = j)"
proof -
  have "0 \<le> mem_GetCount i m" "mem_GetCount i m < max_int64" using assms(1) by (auto simp: roomy_def)
  then have wrap: "wrap64 (mem_GetCount i m + 1) = mem_GetCount i m + 1" by (intro wrap64_id) (auto simp: min_int64_def)
  have "the (load_or_store i m i) = mem_GetCount i m"
    by (auto simp: load_or_store_def mem_GetCount_def split: option.splits)
  with wrap show ?thesis
    by (auto simp: mem_Acquire_def Let_def mem_GetCount_def load_or_store_def split: if_splits option.splits)
qed

lemma tracked_slot:
  assumes h: "hd_connTracker h = Some mem_tracker" and "roomy m"
    and run: "tryAcquireTrackedAccount h acc m = ((i, got), m')"
  shows "mem_GetCount j m' = mem_GetCount j m + of_bool (i = j \<and> i \<noteq> 0)"
    and "got \<Longrightarrow> i = (case acc of None \<Rightarrow> 0 | Some a \<Rightarrow> ID a)"
    and "\<not> got \<Longrightarrow> i = 0"
    and "got \<Longrightarrow> acc = Some a \<Longrightarrow> ID a \<noteq> 0 \<Longrightarrow> 0 < EffectiveAccountConcurrencyLimit acc \<Longrightarrow>
       mem_GetCount i m' \<le> EffectiveAccountConcurrencyLimit acc"
proof -
  have "mem_GetCount j m' = mem_GetCount j m + of_bool (i = j \<and> i \<noteq> 0) \<and>
    (got \<longrightarrow> i = (case acc of None \<Rightarrow> 0 | Some a \<Rightarrow> ID a)) \<and> (\<not> got \<longrightarrow> i = 0) \<and>
    (got \<longrightarrow> (\<forall>a. acc = Some a \<and> ID a \<noteq> 0 \<and> 0 < EffectiveAccountConcurrencyLimit acc \<longrightarrow>
       mem_GetCount i m' \<le> EffectiveAccountConcurrencyLimit acc))"
  proof (cases "acc = None \<or> ID (the acc) = 0")
    case True
    with run show ?thesis by (auto simp: tryAcquireTrackedAccount_def split: option.splits if_splits)
  next
    case False
    then obtain a where a: "acc = Some a" "ID a \<noteq> 0" by auto
    let ?limit = "EffectiveAccountConcurrencyLimit (Some a)"
    obtain g m1 where t: "mem_TryAcquire (ID a) ?limit m = (g, m1)" by fastforce
    show ?thesis
    proof (cases "?limit > 0")
      case True
      with run h a t have "got = g" "m' = m1" "i = (if g then ID a else 0)"
        by (auto simp: tryAcquireTrackedAccount_def mem_tracker_def Let_def split: prod.splits bool.splits)
      with a mem_try_room [OF assms(2) t] True show ?thesis by (auto simp: of_bool_def)
    next
      case False
      with run h a have "got" "m' = mem_Acquire (ID a) m" "i = ID a"
        by (auto simp: tryAcquireTrackedAccount_def mem_tracker_def Let_def)
      with a False mem_acquire_room [OF assms(2)] show ?thesis by auto
    qed
  qed
  then show "mem_GetCount j m' = mem_GetCount j m + of_bool (i = j \<and> i \<noteq> 0)"
    "got \<Longrightarrow> i = (case acc of None \<Rightarrow> 0 | Some a \<Rightarrow> ID a)" "\<not> got \<Longrightarrow> i = 0"
    "got \<Longrightarrow> acc = Some a \<Longrightarrow> ID a \<noteq> 0 \<Longrightarrow> 0 < EffectiveAccountConcurrencyLimit acc \<Longrightarrow>
       mem_GetCount i m' \<le> EffectiveAccountConcurrencyLimit acc" by blast+
qed

text \<open>A round sees rows with identifiers among \<open>ids\<close> and draws below its bound.\<close>

definition env_ok :: "int set \<Rightarrow> sel_env \<Rightarrow> bool" where
  "env_ok ids e \<longleftrightarrow> (\<forall>rows. se_loaded e = Inr rows \<longrightarrow> ID ` set rows \<subseteq> ids) \<and> (\<forall>n > 0. se_pick e n < n)"

lemma acquire_spec:
  assumes "snapshot_in ids lb" "env_ok ids e" "acquireAccountSelection h e channel required excluded model lb = (r, lb')"
  shows "snapshot_in ids lb' \<and> (\<forall>a. r = Inr (Some a) \<longrightarrow> ID a \<in> ids \<and> ID a \<notin> set excluded) \<and>
    (r = Inr None \<longrightarrow> \<not> (required \<and> hd_balancer h \<noteq> None))"
proof (cases "hd_balancer h = None")
  case True
  with assms show ?thesis by (auto simp: acquireAccountSelection_def split: if_splits)
next
  case False
  obtain r1 lb1 where s: "selectAccountRecord h e channel excluded model lb = (r1, lb1)" by fastforce
  from assms(2) have loaded: "\<forall>rows. se_loaded e = Inr rows \<longrightarrow> ID ` set rows \<subseteq> ids" and pick: "\<And>n. 0 < n \<Longrightarrow> se_pick e n < n"
    by (auto simp: env_ok_def)
  have "snapshot_in ids lb1 \<and> (\<forall>a. r1 = Inr a \<longrightarrow> ID a \<in> ids \<and> ID a \<notin> set excluded)"
    using s False next_account_snapshot [OF assms(1) loaded] next_account_spec [OF assms(1) loaded pick]
    unfolding selectAccountRecord_def Let_def by (simp split: if_splits) (metis (no_types, lifting) request.select_convs(3) snd_conv)+
  with s False assms(3) show ?thesis
    by (auto simp: acquireAccountSelection_def split: sum.splits if_splits)
qed

lemma selection_loop_returns:
  assumes "finite ids" "\<And>e. e \<in> set es \<Longrightarrow> env_ok ids e" "snapshot_in ids lb" "set full \<subseteq> ids" "distinct full"
    and "ReservationWaitBudget (hd_reservation_ms h) - waited \<le> int waits * (250 * millisecond)"
    and "waits * (card ids + 1) + (card ids - length full) < length es"
  shows "\<exists>r. selection_loop h channel required failed model es excluded full waited (lb, tk) = Some r"
  using assms(2-)
proof (induction es arbitrary: waits excluded full waited lb tk)
  case (Cons e es)
  let ?budget = "ReservationWaitBudget (hd_reservation_ms h)"
  obtain r lb1 where a: "acquireAccountSelection h e channel required excluded model lb = (r, lb1)" by fastforce
  note spec = acquire_spec [OF Cons.prems(2) Cons.prems(1) [of e] a]
  show ?case
  proof (cases r)
    case (Inl err)
    show ?thesis
    proof (cases "waited < ?budget \<and> contains err at_limits \<and> se_wait_ended e = None")
      case False
      with a Inl show ?thesis by (auto simp: Let_def split: option.splits)
    next
      case True
      then obtain w where w: "waits = Suc w" using Cons.prems(5) by (cases waits) auto
      let ?waited = "waited + min (250 * millisecond) (?budget - waited)"
      have "?budget - ?waited \<le> int w * (250 * millisecond)"
        using Cons.prems(5) w True by (simp add: algebra_simps min_def millisecond_def)
      moreover have "w * (card ids + 1) + (card ids - length ([] :: int list)) < length es"
        using Cons.prems(6) w by simp
      ultimately have "\<exists>r. selection_loop h channel required failed model es failed [] ?waited (lb1, tk) = Some r"
        using Cons.prems(1) spec by (intro Cons.IH) auto
      with a Inl True show ?thesis by (simp add: Let_def)
    qed
  next
    case (Inr account)
    obtain i got tk1 where t: "tryAcquireTrackedAccount h account tk = ((i, got), tk1)" by (metis prod.exhaust)
    show ?thesis
    proof (cases "got \<or> account = None \<or> ID (the account) = 0 \<or> ID (the account) \<in> set full")
      case True
      with a Inr t show ?thesis by (cases got; cases account) (auto simp: Let_def)
    next
      case False
      then obtain ac where ac: "account = Some ac" "\<not> got" "ID ac \<noteq> 0" "ID ac \<notin> set full" by auto
      have "ID ac \<in> ids" using spec Inr ac(1) by simp
      then have "length (full @ [ID ac]) \<le> card ids"
        using card_mono [OF assms(1), of "set (full @ [ID ac])"] ac(4) Cons.prems(3,4) distinct_card [of "full @ [ID ac]"]
        by simp
      with Cons.prems(6) have "waits * (card ids + 1) + (card ids - length (full @ [ID ac])) < length es" by simp
      then have "\<exists>r. selection_loop h channel required failed model es (excluded @ [ID ac]) (full @ [ID ac]) waited (lb1, tk1) = Some r"
        using Cons.prems(1,3,4,5) spec ac \<open>ID ac \<in> ids\<close> by (intro Cons.IH [where waits = waits]) auto
      with a Inr t ac show ?thesis by (simp add: Let_def)
    qed
  qed
qed simp

lemma reservation_budget: "ReservationWaitBudget ms \<le> 2 * second" "0 \<le> ReservationWaitBudget ms"
  by (auto simp: ReservationWaitBudget_def boundedWaitBudget_def AccountReservationWaitBudget_def second_def millisecond_def
      split: option.split)

lemma selection_loop_slot:
  assumes "hd_connTracker h = Some mem_tracker" "\<And>e. e \<in> set es \<Longrightarrow> env_ok ids e" "snapshot_in ids lb" "roomy m"
    and "set failed \<subseteq> set excluded"
    and "selection_loop h channel required failed model es excluded full waited (lb, m) = Some (r, lb', m')"
  shows "snapshot_in ids lb' \<and>
    (case r of
       Inl _ \<Rightarrow> \<forall>j. mem_GetCount j m' = mem_GetCount j m
     | Inr (account, i) \<Rightarrow>
         (\<forall>j. mem_GetCount j m' = mem_GetCount j m + of_bool (i = j \<and> i \<noteq> 0)) \<and>
         (case account of
            None \<Rightarrow> i = 0 \<and> \<not> (required \<and> hd_balancer h \<noteq> None)
          | Some a \<Rightarrow> i = ID a \<and> ID a \<in> ids \<and> ID a \<notin> set failed \<and>
              (ID a \<noteq> 0 \<and> 0 < EffectiveAccountConcurrencyLimit account \<longrightarrow>
                 mem_GetCount i m' \<le> EffectiveAccountConcurrencyLimit account)))"
  using assms(2-)
proof (induction es arbitrary: excluded full waited lb m)
  case (Cons e es)
  let ?budget = "ReservationWaitBudget (hd_reservation_ms h)"
  obtain r1 lb1 where a: "acquireAccountSelection h e channel required excluded model lb = (r1, lb1)" by fastforce
  note spec = acquire_spec [OF Cons.prems(2) Cons.prems(1) [of e] a]
  show ?case
  proof (cases r1)
    case (Inl err)
    show ?thesis
    proof (cases "waited < ?budget \<and> contains err at_limits \<and> se_wait_ended e = None")
      case False
      with a Inl Cons.prems(5) spec show ?thesis by (auto simp: Let_def split: option.splits if_splits)
    next
      case True
      with a Inl Cons.prems(5) have "selection_loop h channel required failed model es failed []
          (waited + min (250 * millisecond) (?budget - waited)) (lb1, m) = Some (r, lb', m')" by (simp add: Let_def)
      with Cons.prems spec show ?thesis by (intro Cons.IH) auto
    qed
  next
    case (Inr account)
    obtain i got tk1 where t: "tryAcquireTrackedAccount h account m = ((i, got), tk1)" by (metis prod.exhaust)
    note slot = tracked_slot [OF assms(1) Cons.prems(3) t]
    show ?thesis
    proof (cases got)
      case True
      with a Inr t Cons.prems(5) have "r = Inr (account, i)" "lb' = lb1" "m' = tk1" by (auto simp: Let_def)
      with slot True spec Inr Cons.prems(4) show ?thesis by (auto split: option.splits)
    next
      case False
      have same: "mem_GetCount j tk1 = mem_GetCount j m" for j using slot(1,3) False by simp
      have rest: "roomy tk1" using Cons.prems(3) same by (simp add: roomy_def)
      show ?thesis
      proof (cases "account = None \<or> ID (the account) = 0 \<or> ID (the account) \<in> set full")
        case True
        with a Inr t False Cons.prems(5) same spec show ?thesis by (cases account) (auto simp: Let_def split: if_splits)
      next
        case go: False
        then obtain ac where ac: "account = Some ac" "ID ac \<noteq> 0" "ID ac \<notin> set full" by auto
        with a Inr t False Cons.prems(5) have
          "selection_loop h channel required failed model es (excluded @ [ID ac]) (full @ [ID ac]) waited (lb1, tk1) = Some (r, lb', m')"
          by (simp add: Let_def)
        note next_round = this
        have "set failed \<subseteq> set (excluded @ [ID ac])" "snapshot_in ids lb1" "\<And>e. e \<in> set es \<Longrightarrow> env_ok ids e"
          using Cons.prems(1,4) spec by auto
        from Cons.IH [OF this(3,2) rest this(1) next_round] show ?thesis unfolding same .
      qed
    qed
  qed
qed simp


text \<open>The two accounts of the cline pool, and the first round of a request for it.\<close>

definition cline_handler :: "mem_conns handler" where
  "cline_handler = \<lparr>hd_caps = (\<lambda>_. None), hd_connTracker = Some mem_tracker, hd_balancer = Some mem_tracker, hd_client = False,
     hd_reservation_ms = None, hd_refusal_ms = None\<rparr>"

definition cline_round :: sel_env where
  "cline_round = \<lparr>se_now = 100, se_ctx = (\<lambda>_. None), se_claim = (\<lambda>_. False), se_loaded = Inr cline_rows, se_pick = (\<lambda>_. 0),
     se_counts = (\<lambda>_ _. 0), se_client_built = True, se_wait_ended = None\<rparr>"

text \<open>A selection ends: with every round seeing accounts of a finite set, whatever happens to their slots
  meanwhile, nine rounds for each account (and nine more) are enough for an account or an error.\<close>

lemma selection_returns:
  assumes "finite ids" "snapshot_in ids lb" "\<forall>e \<in> set es. env_ok ids e" "9 * (card ids + 1) \<le> length es"
  shows "\<exists>r. acquireReservedAccountSelection h es channel required failed model (lb, tk) = Some r"
  unfolding acquireReservedAccountSelection_def
proof (rule selection_loop_returns [where waits = 8, OF assms(1) _ assms(2)])
  show "ReservationWaitBudget (hd_reservation_ms h) - 0 \<le> int 8 * (250 * millisecond)"
    using reservation_budget(1) [of "hd_reservation_ms h"] by (simp add: second_def millisecond_def)
qed (use assms in auto)



lemma cline_reserved:
  "case acquireReservedAccountSelection cline_handler [cline_round] ''cline'' True [1] ''m'' (NewWithCacheTTL 0, Map.empty) of
     Some (Inr (Some a, i), _) \<Rightarrow> i = 2 \<and> MaxConcurrent a = 0 | _ \<Rightarrow> False"
  by code_simp


end
