(* ===== verification/Request_Attempts.thy ===== *)
theory Request_Attempts
  imports Account_Selection
begin

text \<open>
  The retry loop of a generation request, \<^verbatim>\<open>internal/handler/request_attempts.go\<close>, with the attempt
  budget of \<^verbatim>\<open>internal/upstream/attempt_budget.go\<close>: call the upstream with an account, judge the error,
  mark the account, and retry on it or on another one within every budget of the request.

  \<^item> The state \<open>execution\<close> is \<open>messageExecution\<close> with the locals of \<open>run\<close>, the balancer and the tracker;
    \<open>ex_calls\<close> records the account of every upstream call and whether output had been seen after it.
  \<^item> An attempt reads an \<open>attempt_env\<close>: what the upstream client and the stream handler did, the clock,
    the context at each look, and the rounds of a selection. \<open>None\<close> is a selection that has not
    ended within its rounds.
  \<^item> A request ends with a \<open>finish\<close>: answered, already terminal, a failure reported with its category,
    message and Retry-After, or closed with \<open>end_turn\<close>. Logging and diagnostics are left out.
\<close>

section \<open>The attempt budget\<close>

text \<open>One call of \<open>BeginAttempt\<close> on a live context: whether it may go ahead, and the calls used.\<close>

definition BeginAttempt :: "int \<Rightarrow> int \<Rightarrow> bool \<times> int" where
  "BeginAttempt limit used = (if used \<ge> limit then (False, used) else (True, used + 1))"

fun begin_attempts :: "nat \<Rightarrow> int \<Rightarrow> int \<Rightarrow> int" where
  "begin_attempts 0 limit used = used"
| "begin_attempts (Suc n) limit used = begin_attempts n limit (snd (BeginAttempt limit used))"

definition WithAttemptBudget :: "int \<Rightarrow> int" where
  "WithAttemptBudget limit = (if limit < 1 then 1 else limit)"

definition Remaining :: "int \<Rightarrow> int \<Rightarrow> int" where
  "Remaining limit used = limit - used"

section \<open>A refusal met twice\<close>

record blockedRefusal =
  bl_status :: string
  bl_fingerprint :: string
  bl_accountID :: int

definition is_lower_hex :: "char \<Rightarrow> bool" where
  "is_lower_hex c = (is_digit c \<or> (97 \<le> byte_of c \<and> byte_of c \<le> 102))"

text \<open>\<open>refusalVolatile.ReplaceAllString(text, "#")\<close> for \<open>[0-9a-f]{8,}|\d+\<close>.\<close>

function refusal_fingerprint :: "string \<Rightarrow> string" where
  "refusal_fingerprint [] = []"
| "refusal_fingerprint (c # s) =
     (if length (takeWhile is_lower_hex (c # s)) \<ge> 8 then CHR ''#'' # refusal_fingerprint (dropWhile is_lower_hex s)
      else if is_digit c then CHR ''#'' # refusal_fingerprint (dropWhile is_digit s)
      else c # refusal_fingerprint s)"
  by pat_completeness auto

termination
  by (relation "measure length") (auto simp: le_imp_less_Suc length_dropWhile_le)

definition sameRefusalOnAnotherAccount ::
  "Verdict \<Rightarrow> string \<Rightarrow> Account option \<Rightarrow> blockedRefusal \<Rightarrow> bool \<times> blockedRefusal" where
  "sameRefusalOnAnotherAccount v errStr acc previous =
     (case acc of
        None \<Rightarrow> (False, previous)
      | Some a \<Rightarrow>
          if v_Scope v \<noteq> ScopeAccount \<or> (v_Status v \<noteq> ''403'' \<and> v_Status v \<noteq> ''404'') then (False, previous)
          else
            let text = take 512 (to_lower errStr);
                current = \<lparr>bl_status = v_Status v, bl_fingerprint = refusal_fingerprint text, bl_accountID = ID a\<rparr>
            in (bl_accountID previous \<noteq> 0 \<and> bl_accountID previous \<noteq> bl_accountID current \<and>
                bl_status previous = bl_status current \<and> bl_fingerprint previous = bl_fingerprint current, current))"

section \<open>Marking the account\<close>

text \<open>What \<open>Apply\<close> and the cooldown map change through the pointer the snapshot shares with the request.\<close>

definition share_state :: "Account \<Rightarrow> LoadBalancer \<Rightarrow> LoadBalancer" where
  "share_state acc lb = lb\<lparr>cachedAccounts := update_cached (ID acc)
     (\<lambda>cached. cached\<lparr>StatusCode := StatusCode acc, StatusMessage := StatusMessage acc, LastAttempt := LastAttempt acc,
        AuthStatus := AuthStatus acc, RateLimitFailures := RateLimitFailures acc, QuotaResetAt := QuotaResetAt acc,
        VerifiedAt := VerifiedAt acc, WorkBuddyRestrictedUntil := WorkBuddyRestrictedUntil acc,
        ModelCooldowns := ModelCooldowns acc, ModelCooldownReasons := ModelCooldownReasons acc\<rparr>) (cachedAccounts lb)\<rparr>"

definition freeTierMaxHold :: duration where "freeTierMaxHold = 6 * hour"

definition free_tier_hold :: "time \<Rightarrow> time \<Rightarrow> duration" where
  "free_tier_hold now reset =
     (if reset > now \<and> time_sub reset now < freeTierMaxHold then time_sub reset now else freeTierMaxHold)"

definition mark_account ::
  "registry \<Rightarrow> time \<Rightarrow> time \<Rightarrow> string \<Rightarrow> Verdict \<Rightarrow> Account \<Rightarrow> LoadBalancer \<Rightarrow> Account \<times> LoadBalancer" where
  "mark_account caps now quotaReset model v acc lb =
     (if v_Scope v = ScopeModel \<and> v_Model v \<noteq> [] \<and> v_Cooldown v > 0 then
        let acc' = the (RecordModelCooldownWithReason now (Some acc) (v_Model v) (now + v_Cooldown v) (v_ModelCooldownKind v))
        in (acc', persistAccountStatus acc' (share_state acc' lb))
      else if v_Status v \<noteq> [] then
        let a1 = Apply now v acc;
            a2 = (if v_Status v = AccountStatusWorkBuddyQuotaExhausted \<and> IsFreeModel caps ''workbuddy'' a1 model
                  then the (RecordModelCooldownWithReason now (Some a1) model (now + free_tier_hold now quotaReset)
                              ModelCooldownUnavailable)
                  else a1)
        in (a2, PersistAppliedAccountStatus a2 (share_state a2 lb))
      else (acc, lb))"

section \<open>The state of a request\<close>

datatype finish = Answered | Terminal_already | Failed string string duration | Ended

record 't execution =
  ex_lb :: LoadBalancer
  ex_tracker :: 't
  ex_current :: "Account option"
  ex_tracked :: int
  ex_failed :: "int list"
  ex_blocked :: blockedRefusal
  ex_attempted :: "int list"
  ex_waited :: duration
  ex_used :: int
  ex_calls :: "(int \<times> bool) list"

record request_params =
  rp_channel :: string
  rp_model :: string
  rp_mapped :: string
  rp_max_retries :: int
  rp_retry_delay :: duration

record attempt_env =
  at_returned :: bool
  at_tries :: nat
  at_error :: "go_error option"
  at_terminal :: "bool \<times> bool"
  at_output :: bool
  at_ctx :: "nat \<Rightarrow> string option"
  at_now :: time
  at_quota_reset :: time
  at_select :: "sel_env list"
  at_rand :: "int \<Rightarrow> int"
  at_fits :: bool
  at_cancelled :: "string option"

definition PoolRetriesExhaustedMessage :: string where
  "PoolRetriesExhaustedMessage =
     ''Request failed: retries exhausted and no available accounts. Please check account statuses in Admin UI or add valid accounts.''"

definition InjectNoAvailableAccountError :: "string \<Rightarrow> string option \<Rightarrow> finish" where
  "InjectNoAvailableAccountError lastErr selectErr =
     (let out = ClassifyPoolExhaustion selectErr lastErr in
      if Empty out then Failed (Category (ClassifyUpstreamError lastErr)) PoolRetriesExhaustedMessage 0
      else Failed (pe_Category out) (pe_Message out) 0)"

section \<open>Steps of an attempt\<close>

definition insert_once :: "int \<Rightarrow> int list \<Rightarrow> int list" where
  "insert_once i is = (if List.member is i then is else is @ [i])"

definition call_upstream :: "int \<Rightarrow> attempt_env \<Rightarrow> 't execution \<Rightarrow> 't execution" where
  "call_upstream limit e x =
     x\<lparr>ex_attempted := (case ex_current x of None \<Rightarrow> ex_attempted x | Some a \<Rightarrow> insert_once (ID a) (ex_attempted x)),
       ex_used := begin_attempts (at_tries e) limit (ex_used x),
       ex_calls := ex_calls x @ [(case ex_current x of None \<Rightarrow> 0 | Some a \<Rightarrow> ID a, at_output e)]\<rparr>"

text \<open>The failed request as it is reported for the upstream's own error.\<close>

definition report :: "go_error \<Rightarrow> finish" where
  "report err = Failed (Category (ClassifyUpstreamError (err_Error err))) (PublicMessage (err_Error err)) (upstreamRetryAfter err)"

text \<open>From the error to the account's mark: how the request ends, if it ends here.\<close>

definition judge_error ::
  "'t handler \<Rightarrow> request_params \<Rightarrow> attempt_env \<Rightarrow> go_error \<Rightarrow> 't execution \<Rightarrow> (finish option \<times> Verdict) \<times> 't execution" where
  "judge_error h rp e err x =
     (let v = Classify (at_now e) (ex_current x) (Some err) (rp_model rp) in
      if fst (at_terminal e) then ((Some (if snd (at_terminal e) then Terminal_already else Answered), v), x)
      else case at_ctx e 0 of
        Some category \<Rightarrow> ((Some (Failed category (CategoryMessage category) 0), v), x)
      | None \<Rightarrow>
          if at_output e then ((Some (report err), v), x)
          else
            let (same, blocked) = sameRefusalOnAnotherAccount v (err_Error err) (ex_current x) (ex_blocked x);
                x1 = x\<lparr>ex_blocked := blocked\<rparr>
            in if same then ((Some (report err), v), x1)
               else
                 let x2 = (case ex_current x1 of
                             None \<Rightarrow> x1
                           | Some a \<Rightarrow>
                               if hd_balancer h = None then x1
                               else (let (a', lb') = mark_account (hd_caps h) (at_now e) (at_quota_reset e) (rp_mapped rp) v a (ex_lb x1)
                                     in x1\<lparr>ex_current := Some a', ex_lb := lb'\<rparr>))
                 in if \<not> v_Retryable v then
                      ((Some (if Category (ClassifyUpstreamError (err_Error err)) = ''canceled'' then
                                (if at_ctx e 1 \<noteq> None then Ended
                                 else Failed ''server'' ''Upstream request was canceled unexpectedly'' 0)
                              else report err), v), x2)
                    else if at_ctx e 1 \<noteq> None then ((Some Ended, v), x2)
                    else ((None, v), x2))"

text \<open>The switch to another account, or back to the current one when there is none.\<close>

definition switch_account ::
  "'t handler \<Rightarrow> request_params \<Rightarrow> attempt_env \<Rightarrow> go_error \<Rightarrow> 't execution \<Rightarrow> (finish option \<times> 't execution) option" where
  "switch_account h rp e err x =
     (case ex_current x of
        None \<Rightarrow> Some (None, x)
      | Some prev \<Rightarrow>
          if hd_balancer h = None then Some (None, x)
          else
            let x1 = x\<lparr>ex_failed := insert_once (ID prev) (ex_failed x),
                       ex_tracker := releaseTrackedAccount h (ex_tracked x) (ex_tracker x), ex_tracked := 0\<rparr>
            in case acquireReservedAccountSelection h (at_select e) (rp_channel rp) True (ex_failed x1) (rp_mapped rp)
                      (ex_lb x1, ex_tracker x1) of
                 None \<Rightarrow> None
               | Some (Inr (account, i), lb', tk') \<Rightarrow>
                   Some (None, x1\<lparr>ex_current := account, ex_tracked := i, ex_lb := lb', ex_tracker := tk'\<rparr>)
               | Some (Inl retryErr, lb', tk') \<Rightarrow>
                   let x2 = x1\<lparr>ex_lb := lb', ex_tracker := tk'\<rparr> in
                   if shouldRetryCurrentAccountWhenNoAlternative (Category (ClassifyUpstreamError (err_Error err))) then
                     (case tryAcquireTrackedAccount h (Some prev) tk' of
                        ((_, False), tk2) \<Rightarrow>
                          Some (Some (InjectNoAvailableAccountError (err_Error err) (Some retryErr)), x2\<lparr>ex_tracker := tk2\<rparr>)
                      | ((i, True), tk2) \<Rightarrow> Some (None, x2\<lparr>ex_tracker := tk2, ex_tracked := i\<rparr>))
                   else Some (Some (InjectNoAvailableAccountError (err_Error err) (Some retryErr)), x2))"

text \<open>The wait before the next attempt.\<close>

definition wait_to_retry ::
  "'t handler \<Rightarrow> request_params \<Rightarrow> nat \<Rightarrow> attempt_env \<Rightarrow> go_error \<Rightarrow> 't execution \<Rightarrow> finish option \<times> 't execution" where
  "wait_to_retry h rp attempt e err x =
     (let errClass = ClassifyUpstreamError (err_Error err);
          delay0 = computeRetryDelay (rp_retry_delay rp) (int attempt + 1) (Category errClass);
          hinted = upstreamRetryAfter err;
          delay1 = (if hinted > delay0 then hinted else delay0);
          sharedRefusal = isSharedUpstreamRefusalClass errClass;
          refusalWait = (if delay1 > 0 \<and> sharedRefusal then sharedRefusalWait delay1 (int attempt + 1) else 0);
          waitBudget = RefusalWaitBudget (hd_refusal_ms h)
      in if sharedRefusal \<and> (waitBudget = 0 \<or> (refusalWait > 0 \<and> \<not> sharedRefusalWaitAllowedWithin (ex_waited x) refusalWait waitBudget))
         then (Some (report err), x)
         else
           let delay = (if refusalWait > 0
                        then min (refusalWait + sharedRefusalJitter (at_rand e) refusalWait) (waitBudget - ex_waited x)
                        else delay1)
           in if \<not> at_fits e then (Some (report err), x)
              else
                let released = (delay > 0 \<and> sharedRefusal \<and> ex_tracked x \<noteq> 0);
                    x1 = (if released then x\<lparr>ex_tracker := releaseTrackedAccount h (ex_tracked x) (ex_tracker x), ex_tracked := 0\<rparr> else x)
                in case (if delay > 0 then at_cancelled e else None) of
                     Some category \<Rightarrow> (Some (Failed category (CategoryMessage category) 0), x1)
                   | None \<Rightarrow>
                       let x2 = (if sharedRefusal then x1\<lparr>ex_waited := ex_waited x1 + delay\<rparr> else x1) in
                       if released \<and> ex_current x2 \<noteq> None then
                         (case tryAcquireTrackedAccount h (ex_current x2) (ex_tracker x2) of
                            ((_, False), tk') \<Rightarrow> (Some (Failed ''rate_limit'' PoolBusyMessage 0), x2\<lparr>ex_tracker := tk'\<rparr>)
                          | ((i, True), tk') \<Rightarrow> (None, x2\<lparr>ex_tracker := tk', ex_tracked := i\<rparr>))
                       else (None, x2))"

section \<open>The loop\<close>

text \<open>\<open>retriesRemaining\<close> bounds the loop: an attempt that is retried has taken one.\<close>

fun attempts ::
  "'t handler \<Rightarrow> request_params \<Rightarrow> int \<Rightarrow> (nat \<Rightarrow> attempt_env) \<Rightarrow> nat \<Rightarrow> nat \<Rightarrow> 't execution \<Rightarrow> (finish \<times> 't execution) option" where
  "attempts h rp limit env attempt retriesRemaining x =
     (let e = env attempt in
      if at_returned e then Some (Terminal_already, x)
      else
        let x0 = call_upstream limit e x in
        case at_error e of
          None \<Rightarrow> Some (Answered, x0)
        | Some err \<Rightarrow>
            (case judge_error h rp e err x0 of
               ((Some fin, v), x1) \<Rightarrow> Some (fin, x1)
             | ((None, v), x1) \<Rightarrow>
                 (case retriesRemaining of
                    0 \<Rightarrow> Some (report err, x1)
                  | Suc retries \<Rightarrow>
                      if Remaining limit (ex_used x1) \<le> 0 then Some (report err, x1)
                      else if v_SwitchAccount v \<and> int (length (ex_attempted x1)) \<ge> MaxAccountSwitches then Some (report err, x1)
                      else
                        (case (if v_SwitchAccount v then switch_account h rp e err x1 else Some (None, x1)) of
                           None \<Rightarrow> None
                         | Some (Some fin, x2) \<Rightarrow> Some (fin, x2)
                         | Some (None, x2) \<Rightarrow>
                             (case wait_to_retry h rp attempt e err x2 of
                                (Some fin, x3) \<Rightarrow> Some (fin, x3)
                              | (None, x3) \<Rightarrow> attempts h rp limit env (attempt + 1) retries x3)))))"

definition run ::
  "'t handler \<Rightarrow> request_params \<Rightarrow> (nat \<Rightarrow> attempt_env) \<Rightarrow> 't execution \<Rightarrow> (finish \<times> 't execution) option" where
  "run h rp env x =
     (let maxRetries = min (max (rp_max_retries rp) 0) GenerationMaxRetries in
      attempts h rp (WithAttemptBudget (maxRetries + 1)) env 0 (nat maxRetries)
        (x\<lparr>ex_blocked := \<lparr>bl_status = [], bl_fingerprint = [], bl_accountID = 0\<rparr>, ex_attempted := [], ex_waited := 0,
           ex_used := 0, ex_calls := []\<rparr>))"

section \<open>A whole request\<close>

text \<open>What \<open>HandleMessages\<close> does with the pool: the first selection, the attempts, and the deferred release of
  the slot the request holds at its end.\<close>

definition PoolNoAccountsMessage :: string where
  "PoolNoAccountsMessage =
     ''Request failed: no account in this channel can serve the request. Please check the account pool in Admin UI or add valid accounts.''"

definition writePoolExhaustion :: "PoolExhaustion \<Rightarrow> finish" where
  "writePoolExhaustion out =
     (if Empty out then Failed ''configuration'' PoolNoAccountsMessage 0 else Failed (pe_Category out) (pe_Message out) 0)"

definition serve_request ::
  "'t handler \<Rightarrow> request_params \<Rightarrow> sel_env list \<Rightarrow> (nat \<Rightarrow> attempt_env) \<Rightarrow> LoadBalancer \<times> 't \<Rightarrow>
   (finish \<times> LoadBalancer \<times> 't) option" where
  "serve_request h rp es env w =
     (case acquireReservedAccountSelection h es (rp_channel rp) True [] (trim_space (rp_model rp)) w of
        None \<Rightarrow> None
      | Some (Inl err, lb, tk) \<Rightarrow> Some (writePoolExhaustion (ClassifyPoolExhaustion (Some err) err), lb, tk)
      | Some (Inr (account, i), lb, tk) \<Rightarrow>
          (case run h rp env \<lparr>ex_lb = lb, ex_tracker = tk, ex_current = account, ex_tracked = i, ex_failed = [],
                   ex_blocked = \<lparr>bl_status = [], bl_fingerprint = [], bl_accountID = 0\<rparr>, ex_attempted = [],
                   ex_waited = 0, ex_used = 0, ex_calls = []\<rparr> of
             None \<Rightarrow> None
           | Some (fin, y) \<Rightarrow> Some (fin, ex_lb y, releaseTrackedAccount h (ex_tracked y) (ex_tracker y))))"

section \<open>What the steps keep\<close>

declare attempts.simps [simp del]

lemma record_cooldown_frame [simp]:
  "ID (the (RecordModelCooldownWithReason now (Some a) model until reason)) = ID a"
  by (simp add: RecordModelCooldownWithReason_def Let_def split: option.split)

lemma Apply_id [simp]: "ID (Apply now v a) = ID a"
  by (simp add: Apply_unfold Let_def)

lemma share_snapshot: "snapshot_in ids lb \<Longrightarrow> snapshot_in ids (share_state acc lb)"
  by (rule snapshot_update [of _ _ lb _ "ID acc"]) (simp_all add: share_state_def)

lemma persist_snapshot: "snapshot_in ids lb \<Longrightarrow> snapshot_in ids (persistAccountStatus acc lb)"
  by (simp add: persistAccountStatus_def snapshot_in_def index_ok_def split: option.splits)

lemma persist_applied_snapshot: "snapshot_in ids lb \<Longrightarrow> snapshot_in ids (PersistAppliedAccountStatus acc lb)"
  unfolding PersistAppliedAccountStatus_def
  by (rule persist_snapshot, rule snapshot_update [of _ _ lb _ "ID acc"]) simp_all

lemma mark_frame:
  assumes "mark_account caps now reset model v acc lb = (acc', lb')"
  shows "ID acc' = ID acc" "snapshot_in ids lb \<Longrightarrow> snapshot_in ids lb'"
  using assms by (auto simp: mark_account_def Let_def share_snapshot persist_snapshot persist_applied_snapshot split: if_splits)

lemma judge_frame:
  assumes "judge_error h rp e err x = ((f, v), x')"
  shows "ex_tracker x' = ex_tracker x" "ex_tracked x' = ex_tracked x" "ex_attempted x' = ex_attempted x"
    "ex_waited x' = ex_waited x" "ex_used x' = ex_used x" "ex_calls x' = ex_calls x" "ex_failed x' = ex_failed x"
    "map_option ID (ex_current x') = map_option ID (ex_current x)"
    "snapshot_in ids (ex_lb x) \<Longrightarrow> snapshot_in ids (ex_lb x')"
    "f = None \<Longrightarrow> \<not> at_output e"
proof -
  have "ex_tracker x' = ex_tracker x \<and> ex_tracked x' = ex_tracked x \<and> ex_attempted x' = ex_attempted x \<and>
    ex_waited x' = ex_waited x \<and> ex_used x' = ex_used x \<and> ex_calls x' = ex_calls x \<and> ex_failed x' = ex_failed x \<and>
    map_option ID (ex_current x') = map_option ID (ex_current x) \<and>
    (snapshot_in ids (ex_lb x) \<longrightarrow> snapshot_in ids (ex_lb x')) \<and> (f = None \<longrightarrow> \<not> at_output e)"
    using assms
    by (auto simp: judge_error_def Let_def mark_frame split: if_splits option.splits prod.splits)
  then show "ex_tracker x' = ex_tracker x" "ex_tracked x' = ex_tracked x" "ex_attempted x' = ex_attempted x"
    "ex_waited x' = ex_waited x" "ex_used x' = ex_used x" "ex_calls x' = ex_calls x" "ex_failed x' = ex_failed x"
    "map_option ID (ex_current x') = map_option ID (ex_current x)"
    "snapshot_in ids (ex_lb x) \<Longrightarrow> snapshot_in ids (ex_lb x')"
    "f = None \<Longrightarrow> \<not> at_output e" by blast+
qed

text \<open>The request after the account has been given up.\<close>

definition given_up :: "'t handler \<Rightarrow> Account \<Rightarrow> 't execution \<Rightarrow> 't execution" where
  "given_up h prev x = x\<lparr>ex_failed := insert_once (ID prev) (ex_failed x),
     ex_tracker := releaseTrackedAccount h (ex_tracked x) (ex_tracker x), ex_tracked := 0\<rparr>"

lemma switch_cases:
  assumes "switch_account h rp e err x = Some (f, x')"
  obtains
    (stays) "f = None" "x' = x" "ex_current x = None \<or> hd_balancer h = None"
  | (next_account) prev account i lb tk where "ex_current x = Some prev" "hd_balancer h \<noteq> None"
      "acquireReservedAccountSelection h (at_select e) (rp_channel rp) True (ex_failed (given_up h prev x)) (rp_mapped rp)
         (ex_lb x, ex_tracker (given_up h prev x)) = Some (Inr (account, i), lb, tk)" "f = None"
      "x' = (given_up h prev x)\<lparr>ex_current := account, ex_tracked := i, ex_lb := lb, ex_tracker := tk\<rparr>"
  | (no_account) prev retryErr lb tk where "ex_current x = Some prev" "hd_balancer h \<noteq> None"
      "acquireReservedAccountSelection h (at_select e) (rp_channel rp) True (ex_failed (given_up h prev x)) (rp_mapped rp)
         (ex_lb x, ex_tracker (given_up h prev x)) = Some (Inl retryErr, lb, tk)" "f \<noteq> None"
      "x' = (given_up h prev x)\<lparr>ex_lb := lb, ex_tracker := tk\<rparr>"
  | (same_account) prev retryErr lb tk i got tk2 where "ex_current x = Some prev" "hd_balancer h \<noteq> None"
      "acquireReservedAccountSelection h (at_select e) (rp_channel rp) True (ex_failed (given_up h prev x)) (rp_mapped rp)
         (ex_lb x, ex_tracker (given_up h prev x)) = Some (Inl retryErr, lb, tk)"
      "tryAcquireTrackedAccount h (Some prev) tk = ((i, got), tk2)" "f = None \<longleftrightarrow> got"
      "x' = (given_up h prev x)\<lparr>ex_lb := lb, ex_tracker := tk2, ex_tracked := if got then i else 0\<rparr>"
proof (cases "ex_current x = None \<or> hd_balancer h = None")
  case True
  with assms stays show ?thesis by (auto simp: switch_account_def split: option.splits)
next
  case False
  then obtain prev where prev: "ex_current x = Some prev" "hd_balancer h \<noteq> None" by auto
  let ?x1 = "given_up h prev x"
  obtain r lb tk where acq: "acquireReservedAccountSelection h (at_select e) (rp_channel rp) True (ex_failed ?x1) (rp_mapped rp)
      (ex_lb x, ex_tracker ?x1) = Some (r, lb, tk)"
    using assms prev by (cases "acquireReservedAccountSelection h (at_select e) (rp_channel rp) True (ex_failed ?x1) (rp_mapped rp)
      (ex_lb x, ex_tracker ?x1)") (auto simp: switch_account_def Let_def given_up_def)
  note sw = assms [unfolded switch_account_def prev(1) option.case if_not_P [OF prev(2)] Let_def given_up_def [symmetric]]
  have lb: "ex_lb ?x1 = ex_lb x" by (simp add: given_up_def)
  note sw = sw [unfolded lb acq option.case prod.case]
  show ?thesis
  proof (cases r)
    case (Inr p)
    with sw acq prev next_account show ?thesis by (cases p) auto
  next
    case (Inl retryErr)
    show ?thesis
    proof (cases "shouldRetryCurrentAccountWhenNoAlternative (Category (ClassifyUpstreamError (err_Error err)))")
      case False
      with sw Inl acq prev no_account show ?thesis by auto
    next
      case True
      obtain i got tk2 where t: "tryAcquireTrackedAccount h (Some prev) tk = ((i, got), tk2)" by (metis prod.exhaust)
      have "(f = None \<longleftrightarrow> got) \<and> x' = ?x1\<lparr>ex_lb := lb, ex_tracker := tk2, ex_tracked := if got then i else 0\<rparr>"
        using sw Inl True t by (cases got) (auto simp: given_up_def)
      with acq Inl prev t same_account show ?thesis by blast
    qed
  qed
qed

lemma switch_frame:
  assumes "switch_account h rp e err x = Some (f, x')"
  shows "ex_attempted x' = ex_attempted x" "ex_waited x' = ex_waited x" "ex_used x' = ex_used x" "ex_calls x' = ex_calls x"
  using assms by (cases rule: switch_cases; simp add: given_up_def)+

lemma wait_frame:
  assumes "wait_to_retry h rp k e err x = (f, x')"
  shows "ex_attempted x' = ex_attempted x" "ex_used x' = ex_used x" "ex_calls x' = ex_calls x"
    "ex_current x' = ex_current x" "ex_lb x' = ex_lb x"
  using assms
  by (auto simp: wait_to_retry_def Let_def split: if_splits option.splits prod.splits bool.splits)


text \<open>The end of an attempt, or the next one.\<close>

definition advances ::
  "'t handler \<Rightarrow> request_params \<Rightarrow> int \<Rightarrow> attempt_env \<Rightarrow> nat \<Rightarrow> 't execution \<Rightarrow> go_error \<Rightarrow> Verdict \<Rightarrow>
   't execution \<Rightarrow> 't execution \<Rightarrow> 't execution \<Rightarrow> finish option \<Rightarrow> bool" where
  "advances h rp limit e k x err v x1 x2 x3 f \<longleftrightarrow>
     judge_error h rp e err (call_upstream limit e x) = ((None, v), x1) \<and> 0 < Remaining limit (ex_used x1) \<and>
     (if v_SwitchAccount v then int (length (ex_attempted x1)) < MaxAccountSwitches \<and> switch_account h rp e err x1 = Some (None, x2)
      else x2 = x1) \<and>
     wait_to_retry h rp k e err x2 = (f, x3)"

lemma attempts_cases:
  assumes "attempts h rp limit env k r x = Some (fin, y)"
  obtains
    (returned) "y = x"
  | (answered) "y = call_upstream limit (env k) x"
  | (judged) err f v where "judge_error h rp (env k) err (call_upstream limit (env k) x) = ((f, v), y)"
  | (switched) err v x1 f where "judge_error h rp (env k) err (call_upstream limit (env k) x) = ((None, v), x1)"
      "switch_account h rp (env k) err x1 = Some (Some f, y)" "int (length (ex_attempted x1)) < MaxAccountSwitches" "0 < r"
  | (waited) err v x1 x2 f r' where "r = Suc r'" "advances h rp limit (env k) k x err v x1 x2 y (Some f)"
  | (retried) err v x1 x2 x3 r' where "r = Suc r'" "advances h rp limit (env k) k x err v x1 x2 x3 None"
      "attempts h rp limit env (Suc k) r' x3 = Some (fin, y)"
proof -
  note a = assms [unfolded attempts.simps [of h rp limit env k r x] Let_def]
  show ?thesis
  proof (cases "at_returned (env k)")
    case True
    with a returned show ?thesis by simp
  next
    case False
    note a1 = a [unfolded if_not_P [OF False]]
    show ?thesis
    proof (cases "at_error (env k)")
      case None
      with a1 answered show ?thesis by simp
    next
      case (Some err)
      obtain f v x1 where j: "judge_error h rp (env k) err (call_upstream limit (env k) x) = ((f, v), x1)"
        by (metis prod.exhaust)
      note a2 = a1 [unfolded Some option.case j prod.case]
      show ?thesis
      proof (cases "(\<exists>fin'. f = Some fin') \<or> r = 0 \<or> Remaining limit (ex_used x1) \<le> 0 \<or>
          v_SwitchAccount v \<and> MaxAccountSwitches \<le> int (length (ex_attempted x1))")
        case True
        with a2 have "y = x1" by (cases f; cases r) (simp_all split: if_splits)
        with j judged show ?thesis by blast
      next
        case False
        then obtain r' where go: "f = None" "r = Suc r'" "0 < Remaining limit (ex_used x1)"
          "v_SwitchAccount v \<Longrightarrow> int (length (ex_attempted x1)) < MaxAccountSwitches"
          by (cases r) (auto simp: not_le)
        show ?thesis
        proof (cases "if v_SwitchAccount v then switch_account h rp (env k) err x1 else Some (None, x1)")
          case None
          with a2 go show ?thesis by (simp split: if_splits)
        next
          case (Some p)
          obtain g x2 where p: "p = (g, x2)" by fastforce
          show ?thesis
          proof (cases g)
            case (Some f')
            with a2 go \<open>_ = Some p\<close> p have "y = x2" "v_SwitchAccount v" by (auto split: if_splits)
            with \<open>_ = Some p\<close> p Some go j switched show ?thesis by simp
          next
            case None
            obtain f3 x3 where w: "wait_to_retry h rp k (env k) err x2 = (f3, x3)" by fastforce
            have adv: "advances h rp limit (env k) k x err v x1 x2 x3 f3"
              using j go \<open>_ = Some p\<close> p None w by (auto simp: advances_def split: if_splits)
            show ?thesis
            proof (cases f3)
              case None
              with a2 go \<open>_ = Some p\<close> p \<open>g = None\<close> w have "attempts h rp limit env (Suc k) r' x3 = Some (fin, y)"
                by (auto split: if_splits)
              with go(2) adv None retried show ?thesis by blast
            next
              case (Some f')
              with a2 go \<open>_ = Some p\<close> p \<open>g = None\<close> w have "y = x3" by (auto split: if_splits)
              with go(2) adv Some waited show ?thesis by blast
            qed
          qed
        qed
      qed
    qed
  qed
qed


section \<open>Every budget of a request holds\<close>

lemma begin_attempts_bound: "used \<le> limit \<Longrightarrow> begin_attempts n limit used \<le> limit"
  by (induction n arbitrary: used) (auto simp: BeginAttempt_def)

lemma sharedRefusalWait_pos: "0 < delay \<Longrightarrow> 0 < sharedRefusalWait delay n"
  by (auto simp: sharedRefusalWait_def Let_def second_def)

lemma retryAfter_nonneg: "0 \<le> upstreamRetryAfter err"
  by (simp add: upstreamRetryAfter_def split: option.split)

text \<open>A shared refusal waits within its budget; any other retry adds nothing to the shared wait.\<close>

lemma wait_bound:
  assumes "wait_to_retry h rp k e err x = (f, x')" "ex_waited x \<le> RefusalWaitBudget (hd_refusal_ms h)"
  shows "ex_waited x' \<le> RefusalWaitBudget (hd_refusal_ms h)"
proof -
  let ?budget = "RefusalWaitBudget (hd_refusal_ms h)"
  define delay0 where "delay0 = computeRetryDelay (rp_retry_delay rp) (int k + 1) (Category (ClassifyUpstreamError (err_Error err)))"
  define delay1 where "delay1 = (if upstreamRetryAfter err > delay0 then upstreamRetryAfter err else delay0)"
  define shared where "shared = isSharedUpstreamRefusalClass (ClassifyUpstreamError (err_Error err))"
  define refusal where "refusal = (if delay1 > 0 \<and> shared then sharedRefusalWait delay1 (int k + 1) else 0)"
  define delay where "delay = (if refusal > 0 then min (refusal + sharedRefusalJitter (at_rand e) refusal) (?budget - ex_waited x) else delay1)"
  note w = assms(1) [unfolded wait_to_retry_def Let_def, folded delay0_def, folded delay1_def, folded shared_def,
      folded refusal_def, folded delay_def]
  have "0 \<le> delay1" using retryAfter_nonneg [of err] by (auto simp: delay1_def)
  then have "shared \<Longrightarrow> refusal > 0 \<or> delay = 0"
    using sharedRefusalWait_pos [of delay1 "int k + 1"] by (auto simp: refusal_def delay_def)
  then have "shared \<Longrightarrow> ex_waited x + delay \<le> ?budget" using assms(2) by (auto simp: delay_def)
  moreover have "ex_waited x' = ex_waited x \<or> shared \<and> ex_waited x' = ex_waited x + delay"
    using w by (simp split: if_splits option.splits prod.splits bool.splits) auto
  ultimately show ?thesis using assms(2) by auto
qed

definition within_budget :: "'t handler \<Rightarrow> int \<Rightarrow> 't execution \<Rightarrow> bool" where
  "within_budget h limit x \<longleftrightarrow>
     ex_used x \<le> limit \<and> ex_waited x \<le> RefusalWaitBudget (hd_refusal_ms h) \<and>
     distinct (ex_attempted x) \<and> int (length (ex_attempted x)) \<le> MaxAccountSwitches \<and>
     fst ` set (ex_calls x) - {0} \<subseteq> set (ex_attempted x)"

definition may_call :: "'t execution \<Rightarrow> bool" where
  "may_call x \<longleftrightarrow> (\<forall>c \<in> set (ex_calls x). \<not> snd c) \<and>
     (int (length (ex_attempted x)) < MaxAccountSwitches \<or> (\<forall>a. ex_current x = Some a \<longrightarrow> ID a \<in> set (ex_attempted x)))"

lemma call_within:
  assumes "within_budget h limit x" "may_call x"
  shows "within_budget h limit (call_upstream limit e x)"
    "\<forall>a. ex_current x = Some a \<longrightarrow> ID a \<in> set (ex_attempted (call_upstream limit e x))"
    "\<forall>c \<in> set (butlast (ex_calls (call_upstream limit e x))). \<not> snd c"
    "last (ex_calls (call_upstream limit e x)) = (case ex_current x of None \<Rightarrow> 0 | Some a \<Rightarrow> ID a, at_output e)"
    "ex_calls (call_upstream limit e x) \<noteq> []" "length (ex_calls (call_upstream limit e x)) = Suc (length (ex_calls x))"
  using assms begin_attempts_bound [of "ex_used x" limit]
  by (auto simp: within_budget_def may_call_def call_upstream_def insert_once_def split: option.splits)

lemma retry_may_call:
  assumes "advances h rp limit e k x err v x1 x2 x3 None" "within_budget h limit x" "may_call x"
  shows "within_budget h limit x3" "may_call x3" "length (ex_calls x3) = Suc (length (ex_calls x))"
proof -
  let ?x = "call_upstream limit e x"
  from assms(1) have j: "judge_error h rp e err ?x = ((None, v), x1)" and w: "wait_to_retry h rp k e err x2 = (None, x3)"
    and s: "if v_SwitchAccount v then int (length (ex_attempted x1)) < MaxAccountSwitches \<and> switch_account h rp e err x1 = Some (None, x2)
      else x2 = x1" by (auto simp: advances_def)
  note judge = judge_frame [OF j] and call = call_within [OF assms(2,3), of e] and wait = wait_frame [OF w]
  have kept: "ex_attempted x2 = ex_attempted x1" "ex_waited x2 = ex_waited x1" "ex_used x2 = ex_used x1" "ex_calls x2 = ex_calls x1"
    using s switch_frame [of h rp e err x1 None x2] by (auto split: if_splits)
  show "within_budget h limit x3"
    using call(1) judge wait kept wait_bound [OF w] by (simp add: within_budget_def)
  show "length (ex_calls x3) = Suc (length (ex_calls x))" using call(6) judge wait kept by simp
  have "\<forall>c \<in> set (ex_calls ?x). \<not> snd c"
    using call(3,4,5) judge(10) append_butlast_last_id [OF call(5)] by (metis Un_iff empty_iff list.set(1,2) set_append insert_iff snd_conv)
  moreover have "int (length (ex_attempted x3)) < MaxAccountSwitches \<or> (\<forall>a. ex_current x3 = Some a \<longrightarrow> ID a \<in> set (ex_attempted x3))"
  proof (cases "v_SwitchAccount v")
    case True
    with s wait kept show ?thesis by simp
  next
    case False
    have "ex_current (call_upstream limit e x) = ex_current x" by (simp add: call_upstream_def)
    with False s wait(5) judge(8) have "map_option ID (ex_current x3) = map_option ID (ex_current x)"
      using wait(4) by simp
    then have "\<exists>b. ex_current x = Some b \<and> ID b = ID a" if "ex_current x3 = Some a" for a
      using that by (cases "ex_current x") auto
    with False s wait(1) kept(1) judge(3) call(2) show ?thesis by metis
  qed
  ultimately show "may_call x3" using judge wait kept by (simp add: may_call_def)
qed

lemma attempts_within:
  assumes "attempts h rp limit env k r x = Some (fin, y)" "within_budget h limit x" "may_call x"
  shows "within_budget h limit y \<and> length (ex_calls y) \<le> length (ex_calls x) + r + 1 \<and> (\<forall>c \<in> set (butlast (ex_calls y)). \<not> snd c)"
  using assms
proof (induction r arbitrary: k x rule: less_induct)
  case (less r)
  note call = call_within [OF less.prems(2,3)]
  from less.prems(1) show ?case
  proof (cases rule: attempts_cases)
    case returned
    with less.prems(2,3) show ?thesis by (auto simp: may_call_def dest: in_set_butlastD)
  next
    case answered
    with call show ?thesis by auto
  next
    case (judged err f v)
    with call judge_frame [OF judged] show ?thesis by (simp add: within_budget_def)
  next
    case (switched err v x1 f)
    with call judge_frame [OF switched(1)] switch_frame [OF switched(2)] show ?thesis by (simp add: within_budget_def)
  next
    case (waited err v x1 x2 f r')
    then have j: "judge_error h rp (env k) err (call_upstream limit (env k) x) = ((None, v), x1)"
      and w: "wait_to_retry h rp k (env k) err x2 = (Some f, y)"
      and s: "x2 = x1 \<or> switch_account h rp (env k) err x1 = Some (None, x2)" by (auto simp: advances_def split: if_splits)
    have "ex_attempted x2 = ex_attempted x1" "ex_waited x2 = ex_waited x1" "ex_used x2 = ex_used x1" "ex_calls x2 = ex_calls x1"
      using s switch_frame by auto
    with call judge_frame [OF j] wait_frame [OF w] wait_bound [OF w] show ?thesis by (simp add: within_budget_def)
  next
    case (retried err v x1 x2 x3 r')
    note step = retry_may_call [OF retried(2) less.prems(2,3)]
    with less.IH [of r' "Suc k" x3] retried(1,3) show ?thesis by simp
  qed
qed

lemma refusal_budget: "0 \<le> RefusalWaitBudget ms" "RefusalWaitBudget ms \<le> 60 * second"
  by (auto simp: RefusalWaitBudget_def boundedWaitBudget_def SharedRefusalWaitBudget_def second_def millisecond_def split: option.split)

lemma run_within_budgets:
  assumes "run h rp env x = Some (fin, y)"
  shows "within_budget h (min (max (rp_max_retries rp) 0) 20 + 1) y"
    and "int (length (ex_calls y)) \<le> min (max (rp_max_retries rp) 0) 20 + 1"
    and "\<forall>c \<in> set (butlast (ex_calls y)). \<not> snd c"
proof -
  let ?n = "min (max (rp_max_retries rp) 0) 20"
  let ?x = "x\<lparr>ex_blocked := \<lparr>bl_status = [], bl_fingerprint = [], bl_accountID = 0\<rparr>, ex_attempted := [], ex_waited := 0,
    ex_used := 0, ex_calls := []\<rparr>"
  have limit: "WithAttemptBudget (?n + 1) = ?n + 1" by (auto simp: WithAttemptBudget_def min_def max_def)
  have "attempts h rp (?n + 1) env 0 (nat ?n) ?x = Some (fin, y)"
    using assms unfolding run_def Let_def GenerationMaxRetries_def limit .
  from attempts_within [OF this] have "within_budget h (?n + 1) y \<and> length (ex_calls y) \<le> nat ?n + 1 \<and>
      (\<forall>c \<in> set (butlast (ex_calls y)). \<not> snd c)"
    using refusal_budget(1) by (simp add: within_budget_def may_call_def MaxAccountSwitches_def)
  then show "within_budget h (?n + 1) y" "int (length (ex_calls y)) \<le> ?n + 1"
    "\<forall>c \<in> set (butlast (ex_calls y)). \<not> snd c" by linarith+
qed

text \<open>A request of two attempts: the first account answers 429, the second serves it.\<close>

definition cline_params :: request_params where
  "cline_params = \<lparr>rp_channel = ''cline'', rp_model = ''m'', rp_mapped = ''m'', rp_max_retries = 3, rp_retry_delay = 0\<rparr>"

definition cline_attempts :: "nat \<Rightarrow> attempt_env" where
  "cline_attempts n = \<lparr>at_returned = False, at_tries = 1,
     at_error = (if n = 0 then Some \<lparr>err_Error = ''http 429'', err_RetryAfter = None\<rparr> else None),
     at_terminal = (False, False), at_output = (n > 0), at_ctx = (\<lambda>_. None), at_now = 100, at_quota_reset = 0,
     at_select = replicate 27 cline_round, at_rand = (\<lambda>_. 0), at_fits = True, at_cancelled = None\<rparr>"

definition cline_start :: "mem_conns execution" where
  "cline_start = \<lparr>ex_lb = NewWithCacheTTL 0, ex_tracker = Map.empty, ex_current = Some (hd cline_rows), ex_tracked = 0,
     ex_failed = [], ex_blocked = \<lparr>bl_status = [], bl_fingerprint = [], bl_accountID = 0\<rparr>, ex_attempted = [],
     ex_waited = 0, ex_used = 0, ex_calls = []\<rparr>"

lemma cline_run:
  "case run cline_handler cline_params cline_attempts cline_start of
     Some (fin, y) \<Rightarrow> fin = Answered \<and> ex_calls y = [(1, False), (2, True)] | None \<Rightarrow> False"
  by code_simp

lemma cline_served:
  "case serve_request cline_handler cline_params [cline_round] cline_attempts (NewWithCacheTTL 0, Map.empty) of
     Some (fin, lb, m) \<Rightarrow> fin = Answered \<and> map StatusCode (cachedAccounts lb) = [''429'', []] | None \<Rightarrow> False"
  by code_simp

lemma cline_env: "snapshot_in {1, 2} (NewWithCacheTTL 0)" "env_ok {1, 2} cline_round" "roomy Map.empty"
  "at_select (cline_attempts n) = replicate 27 cline_round"
  by (simp_all add: snapshot_in_def index_ok_def NewWithCacheTTL_def env_ok_def cline_rows_def sample_account_def cline_round_def
      roomy_def mem_GetCount_def max_int64_def cline_attempts_def)

text \<open>C11.
  Whatever the upstream and the pool answer, a request makes at most \<open>MaxRetries\<close> + 1 attempts (\<open>MaxRetries\<close>
  cut to 20) and starts no more upstream calls than that, tries at most 20 accounts, and spends at most
  sixty seconds waiting out refusals that every account shares.\<close>

theorem request_within_budgets:
  assumes "run h rp env x = Some (fin, y)"
  shows "int (length (ex_calls y)) \<le> min (max (rp_max_retries rp) 0) 20 + 1 \<and>
    ex_used y \<le> min (max (rp_max_retries rp) 0) 20 + 1 \<and>
    card (fst ` set (ex_calls y) - {0}) \<le> 20 \<and>
    ex_waited y \<le> 60 * second"
proof (intro conjI)
  note w = run_within_budgets [OF assms]
  from w(2) show "int (length (ex_calls y)) \<le> min (max (rp_max_retries rp) 0) 20 + 1" .
  from w(1) show "ex_used y \<le> min (max (rp_max_retries rp) 0) 20 + 1" by (simp add: within_budget_def)
  have "card (fst ` set (ex_calls y) - {0}) \<le> card (set (ex_attempted y))"
    using w(1) by (intro card_mono) (auto simp: within_budget_def)
  then show "card (fst ` set (ex_calls y) - {0}) \<le> 20"
    using w(1) distinct_card [of "ex_attempted y"] by (simp add: within_budget_def MaxAccountSwitches_def)
  show "ex_waited y \<le> 60 * second"
    using w(1) refusal_budget(2) [of "hd_refusal_ms h"] by (simp add: within_budget_def)
qed

theorem request_within_budgets_witness:
  "\<exists>y :: mem_conns execution. run cline_handler cline_params cline_attempts cline_start = Some (Answered, y) \<and>
     ex_calls y = [(1, False), (2, True)] \<and> ex_used y \<le> 4 \<and> ex_waited y \<le> 60 * second"
proof -
  obtain y where y: "run cline_handler cline_params cline_attempts cline_start = Some (Answered, y)"
      "ex_calls y = [(1, False), (2, True)]"
    using cline_run by (auto split: option.splits)
  from request_within_budgets [OF y(1)] y show ?thesis by (auto simp: cline_params_def)
qed

text \<open>C10.
  No output is ever bought twice: once an attempt has delivered output to the client, no further upstream
  call is made, so only the last call of a request can have delivered any.\<close>

theorem no_call_after_output:
  assumes "run h rp env x = Some (fin, y)" "c \<in> set (butlast (ex_calls y))"
  shows "\<not> snd c"
  using run_within_budgets(3) [OF assms(1)] assms(2) by blast

theorem no_call_after_output_witness:
  "\<exists>y c :: int \<times> bool. run cline_handler cline_params cline_attempts cline_start = Some (Answered, y :: mem_conns execution) \<and>
     c \<in> set (butlast (ex_calls y)) \<and> \<not> snd c"
proof -
  obtain y where y: "run cline_handler cline_params cline_attempts cline_start = Some (Answered, y)"
      "ex_calls y = [(1, False), (2, True)]"
    using cline_run by (auto split: option.splits)
  have c: "(1, False) \<in> set (butlast (ex_calls y))" using y(2) by simp
  from no_call_after_output [OF y(1) c] y(1) c show ?thesis by blast
qed


section \<open>The slot of a request\<close>

text \<open>The counters are those of the others, \<open>base\<close>, and the slot the request holds.\<close>

definition holds_slot :: "int set \<Rightarrow> (int \<Rightarrow> int) \<Rightarrow> mem_conns execution \<Rightarrow> bool" where
  "holds_slot ids base x \<longleftrightarrow> snapshot_in ids (ex_lb x) \<and> (\<forall>j. 0 \<le> base j \<and> base j < max_int64) \<and>
     (\<forall>j. mem_GetCount j (ex_tracker x) = base j + of_bool (ex_tracked x = j \<and> ex_tracked x \<noteq> 0))"

lemma release_slot:
  assumes "hd_connTracker h = Some mem_tracker" "holds_slot ids base x"
  shows "mem_GetCount j (releaseTrackedAccount h (ex_tracked x) (ex_tracker x)) = base j"
    "roomy (releaseTrackedAccount h (ex_tracked x) (ex_tracker x))"
proof -
  have "mem_GetCount j (releaseTrackedAccount h (ex_tracked x) (ex_tracker x)) = base j" for j
  proof (cases "ex_tracked x = 0")
    case False
    have "0 \<le> base (ex_tracked x)" "\<And>j. mem_GetCount j (ex_tracker x) = base j + of_bool (ex_tracked x = j)"
      using assms(2) False by (auto simp: holds_slot_def)
    then show ?thesis using assms(1) False
      by (auto simp: releaseTrackedAccount_def mem_tracker_def mem_Release_count max_def)
  qed (use assms in \<open>simp add: releaseTrackedAccount_def holds_slot_def\<close>)
  then show "mem_GetCount j (releaseTrackedAccount h (ex_tracked x) (ex_tracker x)) = base j"
    "roomy (releaseTrackedAccount h (ex_tracked x) (ex_tracker x))"
    using assms(2) by (auto simp: roomy_def holds_slot_def)
qed

lemma switch_slot:
  assumes "hd_connTracker h = Some mem_tracker" "\<forall>e' \<in> set (at_select e). env_ok ids e'" "holds_slot ids base x"
    and "switch_account h rp e err x = Some (f, x')"
  shows "holds_slot ids base x'"
  using assms(4)
proof (cases rule: switch_cases)
  case (next_account prev account i lb tk)
  note sel = selection_loop_slot [OF assms(1) _ _ _ order_refl next_account(3) [unfolded acquireReservedAccountSelection_def], of ids]
  show ?thesis
    using sel release_slot [OF assms(1,3)] assms(2,3) next_account(5)
    by (auto simp: given_up_def holds_slot_def)
next
  case (no_account prev retryErr lb tk)
  note sel = selection_loop_slot [OF assms(1) _ _ _ order_refl no_account(3) [unfolded acquireReservedAccountSelection_def], of ids]
  show ?thesis
    using sel release_slot [OF assms(1,3)] assms(2,3) no_account(5)
    by (auto simp: given_up_def holds_slot_def)
next
  case (same_account prev retryErr lb tk i got tk2)
  note sel = selection_loop_slot [OF assms(1) _ _ _ order_refl same_account(3) [unfolded acquireReservedAccountSelection_def], of ids]
  have counts: "snapshot_in ids lb" "\<And>j. mem_GetCount j tk = base j"
    using sel release_slot [OF assms(1,3)] assms(2,3) by (auto simp: given_up_def holds_slot_def)
  then have "roomy tk" using assms(3) by (simp add: roomy_def holds_slot_def)
  note slot = tracked_slot [OF assms(1) this same_account(4)]
  show ?thesis
    using slot(1,3) counts assms(3) same_account(6) by (auto simp: given_up_def holds_slot_def)
qed (use assms in simp)

lemma wait_slot:
  assumes "hd_connTracker h = Some mem_tracker" "holds_slot ids base x" "wait_to_retry h rp k e err x = (f, x')"
  shows "holds_slot ids base x'"
proof -
  let ?rel = "releaseTrackedAccount h (ex_tracked x) (ex_tracker x)"
  note rel = release_slot [OF assms(1,2)]
  have lb: "ex_lb x' = ex_lb x" using wait_frame [OF assms(3)] by simp
  consider "ex_tracker x' = ex_tracker x" "ex_tracked x' = ex_tracked x"
    | "ex_tracker x' = ?rel" "ex_tracked x' = 0"
    | i got tk where "tryAcquireTrackedAccount h (ex_current x) ?rel = ((i, got), tk)" "ex_tracker x' = tk"
        "ex_tracked x' = (if got then i else 0)"
    using assms(3) by (auto simp: wait_to_retry_def Let_def split: if_splits option.splits prod.splits bool.splits)
  then show ?thesis
  proof cases
    case 1
    with assms(2) lb show ?thesis by (simp add: holds_slot_def)
  next
    case 2
    with assms(2) lb rel(1) show ?thesis by (simp add: holds_slot_def)
  next
    case (3 i got tk)
    with assms(2) lb rel(1) tracked_slot(1,3) [OF assms(1) rel(2) 3(1)] show ?thesis by (auto simp: holds_slot_def)
  qed
qed

lemma attempts_slot:
  assumes "attempts h rp limit env k r x = Some (fin, y)" "hd_connTracker h = Some mem_tracker" "holds_slot ids base x"
    and "\<And>n. \<forall>e \<in> set (at_select (env n)). env_ok ids e"
  shows "holds_slot ids base y"
  using assms(1,3)
proof (induction r arbitrary: k x rule: less_induct)
  case (less r)
  have call: "holds_slot ids base (call_upstream limit e x)" for e
    using less.prems(2) by (simp add: holds_slot_def call_upstream_def)
  have judge: "holds_slot ids base x1" if "judge_error h rp (env k) err (call_upstream limit (env k) x) = ((f, v), x1)" for err f v x1
    using judge_frame [OF that] call [of "env k"] by (simp add: holds_slot_def)
  from less.prems(1) show ?case
  proof (cases rule: attempts_cases)
    case (switched err v x1 f)
    then show ?thesis using switch_slot [OF assms(2,4) judge] by blast
  next
    case (waited err v x1 x2 f r')
    then have "holds_slot ids base x2" using switch_slot [OF assms(2,4) judge] judge by (auto simp: advances_def split: if_splits)
    with waited show ?thesis using wait_slot [OF assms(2)] by (auto simp: advances_def)
  next
    case (retried err v x1 x2 x3 r')
    then have "holds_slot ids base x2" using switch_slot [OF assms(2,4) judge] judge by (auto simp: advances_def split: if_splits)
    with retried have "holds_slot ids base x3" using wait_slot [OF assms(2)] by (auto simp: advances_def)
    with less.IH retried(1,3) show ?thesis by blast
  qed (use less.prems call judge in auto)
qed


lemma run_slot:
  assumes "run h rp env x = Some (fin, y)" "hd_connTracker h = Some mem_tracker" "holds_slot ids base x"
    and "\<And>n. \<forall>e \<in> set (at_select (env n)). env_ok ids e"
  shows "holds_slot ids base y"
  by (rule attempts_slot [OF assms(1) [unfolded run_def Let_def] assms(2) _ assms(4)])
    (use assms(3) in \<open>simp add: holds_slot_def\<close>)




section \<open>A request ends\<close>

lemma selection_loop_snapshot:
  assumes "\<And>e. e \<in> set es \<Longrightarrow> env_ok ids e" "snapshot_in ids lb"
    and "selection_loop h channel required failed model es excluded full waited (lb, tk) = Some (r, lb', tk')"
  shows "snapshot_in ids lb'"
  using assms
proof (induction es arbitrary: excluded full waited lb tk)
  case (Cons e es)
  obtain r1 lb1 where a: "acquireAccountSelection h e channel required excluded model lb = (r1, lb1)" by fastforce
  with acquire_spec [OF Cons.prems(2) Cons.prems(1) a] have lb1: "snapshot_in ids lb1" by simp
  have rest: "e \<in> set es \<Longrightarrow> env_ok ids e" for e using Cons.prems(1) by simp
  show ?case
  proof (cases r1)
    case (Inl err)
    with a lb1 Cons.prems(3) Cons.IH [OF rest lb1] show ?thesis
      by (cases "waited < ReservationWaitBudget (hd_reservation_ms h) \<and> contains err at_limits"; cases "full = []")
        (auto simp: Let_def split: option.splits)
  next
    case (Inr account)
    obtain i got tk1 where t: "tryAcquireTrackedAccount h account tk = ((i, got), tk1)" by (metis prod.exhaust)
    with a Inr lb1 Cons.prems(3) Cons.IH [OF rest lb1] show ?thesis
      by (cases got; cases account; cases "ID (the account) = 0"; cases "ID (the account) \<in> set full") (auto simp: Let_def)
  qed
qed simp

text \<open>Enough rounds for every selection.\<close>

definition enough_rounds :: "int set \<Rightarrow> sel_env list \<Rightarrow> bool" where
  "enough_rounds ids es \<longleftrightarrow> (\<forall>e \<in> set es. env_ok ids e) \<and> 9 * (card ids + 1) \<le> length es"

lemma selection_ends:
  assumes "finite ids" "enough_rounds ids es" "snapshot_in ids lb"
  shows "\<exists>r lb' tk'. acquireReservedAccountSelection h es channel required failed model (lb, tk) = Some (r, lb', tk') \<and>
    snapshot_in ids lb'"
proof -
  have waits: "ReservationWaitBudget (hd_reservation_ms h) - 0 \<le> int 8 * (250 * millisecond)"
    using reservation_budget(1) [of "hd_reservation_ms h"] by (simp add: second_def millisecond_def)
  have "\<exists>r. selection_loop h channel required failed model es failed [] 0 (lb, tk) = Some r"
    by (rule selection_loop_returns [OF assms(1) _ assms(3) _ _ waits])
      (use assms(2) in \<open>auto simp: enough_rounds_def\<close>)
  then obtain r lb' tk' where "selection_loop h channel required failed model es failed [] 0 (lb, tk) = Some (r, lb', tk')"
    by (metis prod_cases3)
  with selection_loop_snapshot [OF _ assms(3) this] assms(2) show ?thesis
    by (auto simp: acquireReservedAccountSelection_def enough_rounds_def)
qed

lemma switch_returns:
  assumes "finite ids" "enough_rounds ids (at_select e)" "snapshot_in ids (ex_lb x)"
  shows "\<exists>f x'. switch_account h rp e err x = Some (f, x') \<and> snapshot_in ids (ex_lb x')"
proof (cases "ex_current x = None \<or> hd_balancer h = None")
  case True
  with assms(3) show ?thesis by (auto simp: switch_account_def split: option.splits)
next
  case False
  then obtain prev where prev: "ex_current x = Some prev" "hd_balancer h \<noteq> None" by auto
  let ?x1 = "given_up h prev x"
  have lb: "ex_lb ?x1 = ex_lb x" by (simp add: given_up_def)
  obtain r lb' tk' where acq: "acquireReservedAccountSelection h (at_select e) (rp_channel rp) True (ex_failed ?x1) (rp_mapped rp)
      (ex_lb x, ex_tracker ?x1) = Some (r, lb', tk')" and ok: "snapshot_in ids lb'"
    using selection_ends [OF assms, of h "rp_channel rp" True "ex_failed ?x1" "rp_mapped rp" "ex_tracker ?x1"] by blast
  obtain i got tk2 where t: "tryAcquireTrackedAccount h (Some prev) tk' = ((i, got), tk2)" by (metis prod.exhaust)
  show ?thesis
    unfolding switch_account_def prev(1) option.case if_not_P [OF prev(2)] Let_def given_up_def [symmetric] lb acq prod.case
    using ok t by (cases r; cases got) (auto split: prod.split)
qed

lemma attempts_return:
  assumes "finite ids" "\<And>n. enough_rounds ids (at_select (env n))" "snapshot_in ids (ex_lb x)"
  shows "\<exists>r. attempts h rp limit env k retries x = Some r"
  using assms(3)
proof (induction retries arbitrary: k x)
  case (Suc retries)
  let ?e = "env k" and ?x = "call_upstream limit (env k) x"
  show ?case
  proof (cases "at_returned ?e \<or> at_error ?e = None")
    case True
    then show ?thesis by (auto simp: attempts.simps [of _ _ _ _ k] Let_def split: option.split)
  next
    case False
    then obtain err where err: "at_error ?e = Some err" by auto
    obtain f v x1 where j: "judge_error h rp ?e err ?x = ((f, v), x1)" by (metis prod.exhaust)
    have x1: "snapshot_in ids (ex_lb x1)" using judge_frame(9) [OF j] Suc.prems by (simp add: call_upstream_def)
    have eq: "attempts h rp limit env k (Suc retries) x =
      (case f of Some fin \<Rightarrow> Some (fin, x1) | None \<Rightarrow>
         if Remaining limit (ex_used x1) \<le> 0 then Some (report err, x1)
         else if v_SwitchAccount v \<and> int (length (ex_attempted x1)) \<ge> MaxAccountSwitches then Some (report err, x1)
         else (case (if v_SwitchAccount v then switch_account h rp ?e err x1 else Some (None, x1)) of
             None \<Rightarrow> None
           | Some (Some fin, x2) \<Rightarrow> Some (fin, x2)
           | Some (None, x2) \<Rightarrow>
               (case wait_to_retry h rp k ?e err x2 of
                  (Some fin, x3) \<Rightarrow> Some (fin, x3)
                | (None, x3) \<Rightarrow> attempts h rp limit env (k + 1) retries x3)))"
      using False err j by (cases f) (simp_all add: attempts.simps [of _ _ _ _ k] Let_def)
    obtain g x2 where g: "(if v_SwitchAccount v then switch_account h rp ?e err x1 else Some (None, x1)) = Some (g, x2)"
      and x2: "snapshot_in ids (ex_lb x2)"
      using switch_returns [OF assms(1,2) x1, of h rp k err] x1 by (cases "v_SwitchAccount v") auto
    obtain f3 x3 where w: "wait_to_retry h rp k ?e err x2 = (f3, x3)" by fastforce
    have "\<exists>r. attempts h rp limit env (k + 1) retries x3 = Some r"
      using wait_frame(5) [OF w] x2 by (intro Suc.IH) simp
    then show ?thesis unfolding eq g by (cases f; cases g; cases f3) (auto simp: w)
  qed
qed (simp add: attempts.simps Let_def split: option.split prod.split)

text \<open>C13.
  A request ends: with every round of every selection seeing accounts of a finite set, nine rounds for each
  account (and nine more) in each selection are enough for \<open>HandleMessages\<close> to finish with the pool.\<close>

theorem request_returns:
  assumes "finite ids" "snapshot_in ids lb" "enough_rounds ids es" "\<forall>n. enough_rounds ids (at_select (env n))"
  shows "\<exists>r. serve_request h rp es env (lb, tk) = Some r"
proof -
  obtain r lb1 tk1 where acq: "acquireReservedAccountSelection h es (rp_channel rp) True [] (trim_space (rp_model rp)) (lb, tk) = Some (r, lb1, tk1)"
    and lb1: "snapshot_in ids lb1"
    using selection_ends [OF assms(1,3,2), of h "rp_channel rp" True "[]" "trim_space (rp_model rp)" tk] by blast
  have "\<exists>q. run h rp env x = Some q" if "ex_lb x = lb1" for x
    unfolding run_def Let_def using that lb1 assms(4) by (intro attempts_return [OF assms(1)]) simp_all
  note runs = this
  show ?thesis
  proof (cases r)
    case (Inr p)
    obtain account i where p: "p = (account, i)" by fastforce
    show ?thesis
      using acq Inr p runs [of "\<lparr>ex_lb = lb1, ex_tracker = tk1, ex_current = account, ex_tracked = i, ex_failed = [],
          ex_blocked = \<lparr>bl_status = [], bl_fingerprint = [], bl_accountID = 0\<rparr>, ex_attempted = [],
          ex_waited = 0, ex_used = 0, ex_calls = []\<rparr>"]
      by (auto simp: serve_request_def)
  qed (use acq in \<open>simp add: serve_request_def\<close>)
qed

theorem request_returns_witness:
  "\<exists>r. serve_request cline_handler cline_params (replicate 27 cline_round) cline_attempts (NewWithCacheTTL 0, Map.empty) = Some r"
  by (rule request_returns [where ids = "{1, 2}"]) (simp_all add: cline_env enough_rounds_def)

end
