(* ===== verification/Refresh_Queue.thy ===== *)
theory Refresh_Queue
  imports Store_Account
begin

text \<open>
  Serialised credential refreshes: the per-account lease of \<^verbatim>\<open>internal/refreshqueue/refreshqueue.go\<close> and the
  per-credential gate of \<^verbatim>\<open>internal/refreshqueue/credentials.go\<close>.

  \<^item> \<open>Hub\<close> is the set \<open>inFlight\<close>; a nil hub is \<open>None\<close>. \<open>lease_step\<close> interleaves callers of \<open>WithLease\<close>: the
    critical sections of \<open>TryAcquire\<close> and \<open>Release\<close> are its atomic steps.
  \<^item> \<open>gates\<close> is \<open>credentialGates\<close>: \<open>gt_entries\<close> maps a key to a pointer into \<open>gt_heap\<close>, the gates ever allocated, since a
    caller keeps its pointer after the entry is gone. \<open>credential_step\<close> interleaves the callers of
    \<open>AcquireCredential\<close>: its steps are the two critical sections and the two channel operations.
\<close>

section \<open>The lease of an account\<close>

type_synonym Hub = "int set"

definition NewHub :: Hub where "NewHub = {}"

definition hub_TryAcquire :: "int \<Rightarrow> Hub option \<Rightarrow> bool \<times> Hub option" where
  "hub_TryAcquire accountID h =
     (case h of
        None \<Rightarrow> (True, None)
      | Some inFlight \<Rightarrow>
          if accountID = 0 then (True, h)
          else if accountID \<in> inFlight then (False, h)
          else (True, Some (insert accountID inFlight)))"

definition hub_Release :: "int \<Rightarrow> Hub option \<Rightarrow> Hub option" where
  "hub_Release accountID h =
     (case h of
        None \<Rightarrow> None
      | Some inFlight \<Rightarrow> if accountID = 0 then h else Some (inFlight - {accountID}))"

definition hub_Len :: "Hub option \<Rightarrow> int" where
  "hub_Len h = (case h of None \<Rightarrow> 0 | Some inFlight \<Rightarrow> int (card inFlight))"

text \<open>A caller of \<open>WithLease\<close>: before it, inside \<open>fn\<close>, after \<open>fn\<close>, or sent away.\<close>

datatype lease_task = Wants int | Runs int | Ran int | Merged int

record lease_state =
  ls_hub :: "Hub option"
  ls_tasks :: "lease_task list"

inductive lease_step :: "lease_state \<Rightarrow> lease_state \<Rightarrow> bool" where
  lease_call: "lease_step s (s\<lparr>ls_tasks := ls_tasks s @ [Wants a]\<rparr>)"
| lease_granted: "i < length (ls_tasks s) \<Longrightarrow> ls_tasks s ! i = Wants a \<Longrightarrow> hub_TryAcquire a (ls_hub s) = (True, h) \<Longrightarrow>
    lease_step s \<lparr>ls_hub = h, ls_tasks = (ls_tasks s)[i := Runs a]\<rparr>"
| lease_merged: "i < length (ls_tasks s) \<Longrightarrow> ls_tasks s ! i = Wants a \<Longrightarrow> hub_TryAcquire a (ls_hub s) = (False, h) \<Longrightarrow>
    lease_step s \<lparr>ls_hub = h, ls_tasks = (ls_tasks s)[i := Merged a]\<rparr>"
| lease_finished: "i < length (ls_tasks s) \<Longrightarrow> ls_tasks s ! i = Runs a \<Longrightarrow>
    lease_step s \<lparr>ls_hub = hub_Release a (ls_hub s), ls_tasks = (ls_tasks s)[i := Ran a]\<rparr>"

abbreviation lease_init :: lease_state where
  "lease_init \<equiv> \<lparr>ls_hub = Some NewHub, ls_tasks = []\<rparr>"

section \<open>The gate of a credential\<close>

record gate =
  g_token :: bool
  g_users :: int

record gates =
  gt_entries :: "string \<rightharpoonup> nat"
  gt_heap :: "gate list"

text \<open>An owner is known by its type, its address and, when it reads accounts, its \<open>GetAccount\<close>.\<close>

record credential_owner =
  ow_type :: string
  ow_ptr :: string
  ow_reader :: "(int \<Rightarrow> string + Account option) option"

definition credential_key :: "string \<Rightarrow> credential_owner \<Rightarrow> int \<Rightarrow> string" where
  "credential_key provider owner n = provider @ '':'' @ ow_type owner @ '':'' @ ow_ptr owner @ '':'' @ itoa n"

text \<open>Before the gate: an ended context, no gate at all, or the key of the gate.\<close>

definition credential_start :: "string option \<Rightarrow> string \<Rightarrow> credential_owner option \<Rightarrow> int \<Rightarrow> string + string option" where
  "credential_start ctx provider owner n =
     (case ctx of
        Some err \<Rightarrow> Inl err
      | None \<Rightarrow> (case owner of
                  None \<Rightarrow> Inr None
                | Some w \<Rightarrow> Inr (if n = 0 then None else Some (credential_key provider w n))))"

definition enter_gate :: "string \<Rightarrow> gates \<Rightarrow> nat \<times> gates" where
  "enter_gate key s =
     (let (g, s1) = (case gt_entries s key of
                       Some g \<Rightarrow> (g, s)
                     | None \<Rightarrow> (length (gt_heap s),
                         s\<lparr>gt_heap := gt_heap s @ [\<lparr>g_token = False, g_users = 0\<rparr>],
                           gt_entries := (gt_entries s)(key \<mapsto> length (gt_heap s))\<rparr>))
      in (g, s1\<lparr>gt_heap := (gt_heap s1)[g := (gt_heap s1 ! g)\<lparr>g_users := g_users (gt_heap s1 ! g) + 1\<rparr>]\<rparr>))"

definition drop_gate :: "string \<Rightarrow> nat \<Rightarrow> gates \<Rightarrow> gates" where
  "drop_gate key g s =
     (let n = g_users (gt_heap s ! g) - 1;
          s1 = s\<lparr>gt_heap := (gt_heap s)[g := (gt_heap s ! g)\<lparr>g_users := n\<rparr>]\<rparr>
      in if n = 0 then s1\<lparr>gt_entries := (gt_entries s1)(key := None)\<rparr> else s1)"

definition set_token :: "nat \<Rightarrow> bool \<Rightarrow> gates \<Rightarrow> gates" where
  "set_token g b s = s\<lparr>gt_heap := (gt_heap s)[g := (gt_heap s ! g)\<lparr>g_token := b\<rparr>]\<rparr>"

definition LatestAccount :: "credential_owner option \<Rightarrow> int \<Rightarrow> string + Account option" where
  "LatestAccount owner n =
     (case owner of
        None \<Rightarrow> Inr None
      | Some w \<Rightarrow>
          if n = 0 then Inr None
          else (case ow_reader w of
                  None \<Rightarrow> Inr None
                | Some read \<Rightarrow>
                    (case read n of
                       Inl err \<Rightarrow> Inl err
                     | Inr None \<Rightarrow> Inl ''credential account no longer exists''
                     | Inr (Some acc) \<Rightarrow> Inr (Some acc))))"

text \<open>A caller: before the gate, blocked on the token, holding it, between its token and its \<open>drop\<close>, or gone.\<close>

datatype grant =
    Asking string "credential_owner option" int
  | Waits string nat
  | Grants string nat
  | Leaves string nat
  | Gone

record credential_state =
  cs_gates :: gates
  cs_clients :: "grant list"

definition client_at :: "nat \<Rightarrow> grant \<Rightarrow> gates \<Rightarrow> credential_state \<Rightarrow> credential_state" where
  "client_at i c gs s = \<lparr>cs_gates = gs, cs_clients = (cs_clients s)[i := c]\<rparr>"

inductive credential_step :: "credential_state \<Rightarrow> credential_state \<Rightarrow> bool" where
  cred_call: "credential_step s (s\<lparr>cs_clients := cs_clients s @ [Asking provider owner n]\<rparr>)"
| cred_ungated: "i < length (cs_clients s) \<Longrightarrow> cs_clients s ! i = Asking provider owner n \<Longrightarrow>
    (\<forall>key. credential_start ctx provider owner n \<noteq> Inr (Some key)) \<Longrightarrow> credential_step s (client_at i Gone (cs_gates s) s)"
| cred_enter: "i < length (cs_clients s) \<Longrightarrow> cs_clients s ! i = Asking provider owner n \<Longrightarrow>
    credential_start ctx provider owner n = Inr (Some key) \<Longrightarrow> enter_gate key (cs_gates s) = (g, gs) \<Longrightarrow>
    credential_step s (client_at i (Waits key g) gs s)"
| cred_granted: "i < length (cs_clients s) \<Longrightarrow> cs_clients s ! i = Waits key g \<Longrightarrow> \<not> g_token (gt_heap (cs_gates s) ! g) \<Longrightarrow>
    credential_step s (client_at i (Grants key g) (set_token g True (cs_gates s)) s)"
| cred_cancelled: "i < length (cs_clients s) \<Longrightarrow> cs_clients s ! i = Waits key g \<Longrightarrow>
    credential_step s (client_at i (Leaves key g) (cs_gates s) s)"
| cred_released: "i < length (cs_clients s) \<Longrightarrow> cs_clients s ! i = Grants key g \<Longrightarrow> g_token (gt_heap (cs_gates s) ! g) \<Longrightarrow>
    credential_step s (client_at i (Leaves key g) (set_token g False (cs_gates s)) s)"
| cred_dropped: "i < length (cs_clients s) \<Longrightarrow> cs_clients s ! i = Leaves key g \<Longrightarrow>
    credential_step s (client_at i Gone (drop_gate key g (cs_gates s)) s)"

abbreviation credential_init :: credential_state where
  "credential_init \<equiv> \<lparr>cs_gates = \<lparr>gt_entries = Map.empty, gt_heap = []\<rparr>, cs_clients = []\<rparr>"

section \<open>One refresh of an account at a time\<close>

definition runs_count :: "int \<Rightarrow> lease_task list \<Rightarrow> nat" where
  "runs_count a ts = length (filter (\<lambda>t. t = Runs a) ts)"

lemma runs_count_update: "i < length ts \<Longrightarrow>
  runs_count a (ts[i := t]) + of_bool (ts ! i = Runs a) = runs_count a ts + of_bool (t = Runs a)"
  using length_filter_update [of i ts "\<lambda>t. t = Runs a" t] by (simp add: runs_count_def)

lemma runs_count_simps [simp]: "runs_count a [] = 0" "runs_count a (ts @ [Wants b]) = runs_count a ts"
  by (simp_all add: runs_count_def)

lemma runs_count_pos: "0 < runs_count a ts \<longleftrightarrow> Runs a \<in> set ts"
  by (auto simp: runs_count_def filter_empty_conv)

definition leases_match :: "lease_state \<Rightarrow> bool" where
  "leases_match s \<longleftrightarrow> (case ls_hub s of None \<Rightarrow> False | Some inFlight \<Rightarrow> 0 \<notin> inFlight \<and>
     (\<forall>a. a \<noteq> 0 \<longrightarrow> runs_count a (ls_tasks s) = of_bool (a \<in> inFlight)))"

lemma lease_inv: "lease_step\<^sup>*\<^sup>* lease_init s \<Longrightarrow> leases_match s"
proof (induction rule: rtranclp_induct)
  case base
  show ?case by (simp add: leases_match_def NewHub_def)
next
  case (step s t)
  then obtain inFlight where inv: "ls_hub s = Some inFlight" "0 \<notin> inFlight"
    "\<And>a. a \<noteq> 0 \<Longrightarrow> runs_count a (ls_tasks s) = of_bool (a \<in> inFlight)"
    by (auto simp: leases_match_def split: option.splits)
  from step.hyps(2) show ?case
  proof cases
    case (lease_call a)
    with inv show ?thesis by (auto simp: leases_match_def)
  next
    case (lease_granted i a h)
    have "runs_count b ((ls_tasks s)[i := Runs a]) = of_bool (b \<in> inFlight) + of_bool (a = b)" if "b \<noteq> 0" for b
      using runs_count_update [OF lease_granted(2), of b "Runs a"] lease_granted(3) inv(3) [OF that] by simp
    with lease_granted(1,4) inv(2,3) show ?thesis by (auto simp: leases_match_def hub_TryAcquire_def inv(1) split: if_splits)
  next
    case (lease_merged i a h)
    have "runs_count b ((ls_tasks s)[i := Merged a]) = of_bool (b \<in> inFlight)" if "b \<noteq> 0" for b
      using runs_count_update [OF lease_merged(2), of b "Merged a"] lease_merged(3) inv(3) [OF that] by simp
    with lease_merged(1,4) inv(2) show ?thesis by (auto simp: leases_match_def hub_TryAcquire_def inv(1) split: if_splits)
  next
    case (lease_finished i a)
    have "runs_count b ((ls_tasks s)[i := Ran a]) + of_bool (a = b) = of_bool (b \<in> inFlight)" if "b \<noteq> 0" for b
      using runs_count_update [OF lease_finished(2), of b "Ran a"] lease_finished(3) inv(3) [OF that] by simp
    then have "runs_count b ((ls_tasks s)[i := Ran a]) = of_bool (b \<in> inFlight - {a})" if "b \<noteq> 0" for b
      using that by (cases "a = b"; cases "b \<in> inFlight") fastforce+
    with lease_finished(1) inv(2,3) show ?thesis by (auto simp: leases_match_def hub_Release_def inv(1) split: if_splits)
  qed
qed

section \<open>One grant of a credential at a time\<close>

text \<open>The key and the gate a caller is attached to.\<close>

fun attached :: "grant \<Rightarrow> (string \<times> nat) option" where
  "attached (Waits key g) = Some (key, g)"
| "attached (Grants key g) = Some (key, g)"
| "attached (Leaves key g) = Some (key, g)"
| "attached _ = None"

definition attached_count :: "string \<Rightarrow> nat \<Rightarrow> grant list \<Rightarrow> nat" where
  "attached_count key g cs = length (filter (\<lambda>c. attached c = Some (key, g)) cs)"

definition grant_count :: "string \<Rightarrow> nat \<Rightarrow> grant list \<Rightarrow> nat" where
  "grant_count key g cs = length (filter (\<lambda>c. c = Grants key g) cs)"

text \<open>Every gate of an entry counts its callers and its token is taken exactly while one of them holds it; a caller's
  gate is the one of its key.\<close>

definition gates_ok :: "credential_state \<Rightarrow> bool" where
  "gates_ok s \<longleftrightarrow>
     (\<forall>key g. gt_entries (cs_gates s) key = Some g \<longrightarrow> g < length (gt_heap (cs_gates s)) \<and>
        g_users (gt_heap (cs_gates s) ! g) = int (attached_count key g (cs_clients s)) \<and> 0 < attached_count key g (cs_clients s) \<and>
        grant_count key g (cs_clients s) = of_bool (g_token (gt_heap (cs_gates s) ! g))) \<and>
     (\<forall>key key' g. gt_entries (cs_gates s) key = Some g \<longrightarrow> gt_entries (cs_gates s) key' = Some g \<longrightarrow> key = key') \<and>
     (\<forall>key g. 0 < attached_count key g (cs_clients s) \<longrightarrow> gt_entries (cs_gates s) key = Some g)"

lemma counts_append [simp]:
  "attached_count key g (cs @ [Asking p w n]) = attached_count key g cs"
  "grant_count key g (cs @ [Asking p w n]) = grant_count key g cs"
  by (simp_all add: attached_count_def grant_count_def)

lemma attached_count_update: "i < length cs \<Longrightarrow>
  attached_count key g (cs[i := c]) + of_bool (attached (cs ! i) = Some (key, g)) = attached_count key g cs + of_bool (attached c = Some (key, g))"
  using length_filter_update [of i cs "\<lambda>c. attached c = Some (key, g)" c] by (simp add: attached_count_def)

lemma grant_count_update: "i < length cs \<Longrightarrow>
  grant_count key g (cs[i := c]) + of_bool (cs ! i = Grants key g) = grant_count key g cs + of_bool (c = Grants key g)"
  using length_filter_update [of i cs "\<lambda>c. c = Grants key g" c] by (simp add: grant_count_def)

lemma grants_le: "grant_count key g cs \<le> attached_count key g cs"
  by (induction cs) (auto simp: grant_count_def attached_count_def)

lemma gates_okD:
  assumes "gates_ok s" "i < length (cs_clients s)" "attached (cs_clients s ! i) = Some (key, g)"
  shows "gt_entries (cs_gates s) key = Some g" "g < length (gt_heap (cs_gates s))"
    "g_users (gt_heap (cs_gates s) ! g) = int (attached_count key g (cs_clients s))" "0 < attached_count key g (cs_clients s)"
    "grant_count key g (cs_clients s) = of_bool (g_token (gt_heap (cs_gates s) ! g))"
proof -
  have "cs_clients s ! i \<in> set (filter (\<lambda>c. attached c = Some (key, g)) (cs_clients s))" using assms(2,3) by simp
  then show n: "0 < attached_count key g (cs_clients s)" unfolding attached_count_def by (rule length_pos_if_in_set)
  show e: "gt_entries (cs_gates s) key = Some g" using assms(1) n unfolding gates_ok_def by blast
  show "g < length (gt_heap (cs_gates s))" "g_users (gt_heap (cs_gates s) ! g) = int (attached_count key g (cs_clients s))"
    "grant_count key g (cs_clients s) = of_bool (g_token (gt_heap (cs_gates s) ! g))"
    using assms(1) e unfolding gates_ok_def by blast+
qed

definition gate_ok :: "credential_state \<Rightarrow> string \<Rightarrow> nat \<Rightarrow> bool" where
  "gate_ok s key g \<longleftrightarrow> g < length (gt_heap (cs_gates s)) \<and>
     g_users (gt_heap (cs_gates s) ! g) = int (attached_count key g (cs_clients s)) \<and> 0 < attached_count key g (cs_clients s) \<and>
     grant_count key g (cs_clients s) = of_bool (g_token (gt_heap (cs_gates s) ! g))"

lemma gates_ok_alt: "gates_ok s \<longleftrightarrow>
  (\<forall>key g. gt_entries (cs_gates s) key = Some g \<longrightarrow> gate_ok s key g) \<and>
  (\<forall>key key' g. gt_entries (cs_gates s) key = Some g \<longrightarrow> gt_entries (cs_gates s) key' = Some g \<longrightarrow> key = key') \<and>
  (\<forall>key g. 0 < attached_count key g (cs_clients s) \<longrightarrow> gt_entries (cs_gates s) key = Some g)"
  unfolding gates_ok_def gate_ok_def ..

lemma gates_ok_frame:
  assumes "cs_gates t = cs_gates s" "\<And>k h. attached_count k h (cs_clients t) = attached_count k h (cs_clients s)"
    "\<And>k h. grant_count k h (cs_clients t) = grant_count k h (cs_clients s)"
  shows "gates_ok t = gates_ok s"
  unfolding gates_ok_def assms ..

text \<open>A step that touches one key and its gate.\<close>

lemma gates_ok_step:
  assumes ok: "gates_ok s"
    and entries: "\<And>k. k \<noteq> key \<Longrightarrow> gt_entries (cs_gates t) k = gt_entries (cs_gates s) k"
    and heap: "\<And>h. h \<noteq> g \<Longrightarrow> h < length (gt_heap (cs_gates s)) \<Longrightarrow> gt_heap (cs_gates t) ! h = gt_heap (cs_gates s) ! h"
      "length (gt_heap (cs_gates s)) \<le> length (gt_heap (cs_gates t))"
    and counts: "\<And>k h. (k, h) \<noteq> (key, g) \<Longrightarrow> attached_count k h (cs_clients t) = attached_count k h (cs_clients s)"
      "\<And>k h. (k, h) \<noteq> (key, g) \<Longrightarrow> grant_count k h (cs_clients t) = grant_count k h (cs_clients s)"
    and mine: "gt_entries (cs_gates s) key = Some g \<or> gt_entries (cs_gates s) key = None \<and> g = length (gt_heap (cs_gates s))"
    and after: "gt_entries (cs_gates t) key = Some g \<and> gate_ok t key g \<or>
      gt_entries (cs_gates t) key = None \<and> attached_count key g (cs_clients t) = 0"
  shows "gates_ok t"
  unfolding gates_ok_alt
proof (intro conjI allI impI)
  have old: "gate_ok s k h" if "gt_entries (cs_gates s) k = Some h" for k h
    using ok that unfolding gates_ok_alt by blast
  have other: "h \<noteq> g" if "k \<noteq> key" "gt_entries (cs_gates s) k = Some h" for k h
    using ok mine that old [OF that(2)] unfolding gates_ok_alt gate_ok_def by (metis less_irrefl)
  show "gate_ok t k h" if "gt_entries (cs_gates t) k = Some h" for k h
  proof (cases "k = key")
    case False
    then have e: "gt_entries (cs_gates s) k = Some h" using entries that by simp
    from old [OF e] other [OF False e] heap counts False show ?thesis by (auto simp: gate_ok_def)
  qed (use after that in auto)
  show "k = k'" if "gt_entries (cs_gates t) k = Some h" "gt_entries (cs_gates t) k' = Some h" for k k' h
  proof (cases "k = key \<or> k' = key")
    case True
    then show ?thesis using that after other [of k'] other [of k] entries by (cases "k = key"; cases "k' = key") auto
  next
    case False
    then show ?thesis using that entries ok unfolding gates_ok_alt by metis
  qed
  show "gt_entries (cs_gates t) k = Some h" if "0 < attached_count k h (cs_clients t)" for k h
  proof (cases "(k, h) = (key, g)")
    case True
    with that after show ?thesis by auto
  next
    case False
    then have e: "gt_entries (cs_gates s) k = Some h" using that counts ok unfolding gates_ok_alt by metis
    show ?thesis
    proof (cases "k = key")
      case True
      with e False mine show ?thesis by auto
    qed (use e entries in simp)
  qed
qed

lemma gates_step_ok:
  assumes "credential_step s t" "gates_ok s"
  shows "gates_ok t"
  using assms(1)
proof cases
  case (cred_call p w n)
  with assms(2) gates_ok_frame [of t s] show ?thesis by simp
next
  case (cred_ungated i p w n ctx)
  have "attached_count key g ((cs_clients s)[i := Gone]) = attached_count key g (cs_clients s)"
    "grant_count key g ((cs_clients s)[i := Gone]) = grant_count key g (cs_clients s)" for key g
    using attached_count_update [OF cred_ungated(2), of key g Gone] grant_count_update [OF cred_ungated(2), of key g Gone]
      cred_ungated(3) by simp_all
  with assms(2) cred_ungated(1) gates_ok_frame [of t s] show ?thesis by (simp add: client_at_def)
next
  case (cred_enter i p w n ctx key g gs)
  have c: "attached_count k h ((cs_clients s)[i := Waits key g]) = attached_count k h (cs_clients s) + of_bool (k = key \<and> h = g)"
    "grant_count k h ((cs_clients s)[i := Waits key g]) = grant_count k h (cs_clients s)" for k h
    using attached_count_update [OF cred_enter(2), of k h "Waits key g"] grant_count_update [OF cred_enter(2), of k h "Waits key g"]
      cred_enter(3) by auto
  show ?thesis
  proof (cases "gt_entries (cs_gates s) key")
    case None
    then have g: "g = length (gt_heap (cs_gates s))"
      "gs = \<lparr>gt_entries = (gt_entries (cs_gates s))(key \<mapsto> g), gt_heap = gt_heap (cs_gates s) @ [\<lparr>g_token = False, g_users = 1\<rparr>]\<rparr>"
      using cred_enter(5) by (auto simp: enter_gate_def Let_def)
    have "attached_count key g (cs_clients s) = 0"
      using assms(2) None unfolding gates_ok_alt by (metis neq0_conv option.distinct(1))
    then show ?thesis
      using grants_le [of key g "cs_clients s"] None g c cred_enter(1)
      by (intro gates_ok_step [OF assms(2), of key _ g]) (auto simp: client_at_def gate_ok_def nth_append)
  next
    case (Some g')
    then have g: "g' = g" "gs = (cs_gates s)\<lparr>gt_heap := (gt_heap (cs_gates s))[g := (gt_heap (cs_gates s) ! g)
        \<lparr>g_users := g_users (gt_heap (cs_gates s) ! g) + 1\<rparr>]\<rparr>"
      using cred_enter(5) by (auto simp: enter_gate_def Let_def)
    have "gate_ok s key g" using assms(2) Some g(1) unfolding gates_ok_alt by blast
    with Some g c cred_enter(1) show ?thesis
      by (intro gates_ok_step [OF assms(2), of key _ g]) (auto simp: client_at_def gate_ok_def)
  qed
next
  case (cred_granted i key g)
  have c: "attached_count k h ((cs_clients s)[i := Grants key g]) = attached_count k h (cs_clients s)"
    "grant_count k h ((cs_clients s)[i := Grants key g]) = grant_count k h (cs_clients s) + of_bool (k = key \<and> h = g)" for k h
    using attached_count_update [OF cred_granted(2), of k h "Grants key g"] grant_count_update [OF cred_granted(2), of k h "Grants key g"]
      cred_granted(3) by auto
  have "attached (cs_clients s ! i) = Some (key, g)" using cred_granted(3) by simp
  note g = gates_okD [OF assms(2) cred_granted(2) this]
  show ?thesis
    using c g cred_granted(1,4) by (intro gates_ok_step [OF assms(2), of key _ g]) (auto simp: client_at_def gate_ok_def set_token_def)
next
  case (cred_cancelled i key g)
  have c: "attached_count k h ((cs_clients s)[i := Leaves key g]) = attached_count k h (cs_clients s)"
    "grant_count k h ((cs_clients s)[i := Leaves key g]) = grant_count k h (cs_clients s)" for k h
    using attached_count_update [OF cred_cancelled(2), of k h "Leaves key g"] grant_count_update [OF cred_cancelled(2), of k h "Leaves key g"]
      cred_cancelled(3) by auto
  with assms(2) cred_cancelled(1) gates_ok_frame [of t s] show ?thesis by (simp add: client_at_def)
next
  case (cred_released i key g)
  have c: "attached_count k h ((cs_clients s)[i := Leaves key g]) = attached_count k h (cs_clients s)"
    "grant_count k h ((cs_clients s)[i := Leaves key g]) + of_bool (k = key \<and> h = g) = grant_count k h (cs_clients s)" for k h
    using attached_count_update [OF cred_released(2), of k h "Leaves key g"] grant_count_update [OF cred_released(2), of k h "Leaves key g"]
      cred_released(3) by auto
  have "attached (cs_clients s ! i) = Some (key, g)" using cred_released(3) by simp
  note g = gates_okD [OF assms(2) cred_released(2) this]
  have "grant_count k h ((cs_clients s)[i := Leaves key g]) = grant_count k h (cs_clients s)" if "(k, h) \<noteq> (key, g)" for k h
    using c(2) [of k h] that by auto
  then show ?thesis
    using c(1) c(2) [of key g] g cred_released(1,4)
    by (intro gates_ok_step [OF assms(2), of key _ g]) (auto simp: client_at_def gate_ok_def set_token_def)
next
  case (cred_dropped i key g)
  have c: "attached_count k h ((cs_clients s)[i := Gone]) + of_bool (k = key \<and> h = g) = attached_count k h (cs_clients s)"
    "grant_count k h ((cs_clients s)[i := Gone]) = grant_count k h (cs_clients s)" for k h
    using attached_count_update [OF cred_dropped(2), of k h Gone] grant_count_update [OF cred_dropped(2), of k h Gone]
      cred_dropped(3) by auto
  have "attached (cs_clients s ! i) = Some (key, g)" using cred_dropped(3) by simp
  note g = gates_okD [OF assms(2) cred_dropped(2) this]
  have o: "attached_count k h ((cs_clients s)[i := Gone]) = attached_count k h (cs_clients s)" if "(k, h) \<noteq> (key, g)" for k h
    using c(1) [of k h] that by auto
  have n: "int (attached_count key g ((cs_clients s)[i := Gone])) = g_users (gt_heap (cs_gates s) ! g) - 1"
    using c(1) [of key g] g(3) by simp
  show ?thesis
    using o n c(2) g cred_dropped(1)
    by (intro gates_ok_step [OF assms(2), of key _ g]) (auto simp: client_at_def gate_ok_def drop_gate_def Let_def)
qed

lemma credential_inv: "credential_step\<^sup>*\<^sup>* credential_init s \<Longrightarrow> gates_ok s"
proof (induction rule: rtranclp_induct)
  case base
  show ?case by (simp add: gates_ok_def attached_count_def)
qed (rule gates_step_ok)

lemma two_in_filter:
  assumes "i < length xs" "j < length xs" "P (xs ! i)" "P (xs ! j)" "length (filter P xs) \<le> 1"
  shows "i = j"
  using assms
proof (induction xs arbitrary: i j)
  case (Cons x xs)
  have none: "\<not> P (xs ! n)" if "P x" "n < length xs" for n
    using Cons.prems(5) that by (auto simp: filter_empty_conv)
  show ?case
  proof (cases i)
    case 0
    then show ?thesis using Cons.prems none by (cases j) auto
  next
    case (Suc m)
    show ?thesis
    proof (cases j)
      case 0
      then show ?thesis using Cons.prems none Suc by auto
    next
      case (Suc n)
      have "length (filter P xs) \<le> 1" using Cons.prems(5) by (auto split: if_splits)
      then show ?thesis using Cons.IH [of m n] Cons.prems \<open>i = Suc m\<close> Suc by simp
    qed
  qed
qed simp

text \<open>C22.
  Refreshes of an account exclude each other: whatever the interleaving of the callers of \<open>WithLease\<close>, at most
  one of them is inside its refresh of an account, a caller is sent away exactly while another one is inside,
  and \<open>Len\<close> counts the refreshes under way.\<close>

theorem refreshes_exclusive:
  assumes "lease_step\<^sup>*\<^sup>* lease_init s" "a \<noteq> 0"
  shows "(\<forall>i j. i < length (ls_tasks s) \<longrightarrow> j < length (ls_tasks s) \<longrightarrow> ls_tasks s ! i = Runs a \<longrightarrow> ls_tasks s ! j = Runs a \<longrightarrow> i = j) \<and>
    (fst (hub_TryAcquire a (ls_hub s)) \<longleftrightarrow> Runs a \<notin> set (ls_tasks s)) \<and>
    hub_Len (ls_hub s) = int (card {b. b \<noteq> 0 \<and> Runs b \<in> set (ls_tasks s)})"
proof (intro conjI allI impI)
  obtain inFlight where inv: "ls_hub s = Some inFlight" "0 \<notin> inFlight"
    "\<And>b. b \<noteq> 0 \<Longrightarrow> runs_count b (ls_tasks s) = of_bool (b \<in> inFlight)"
    using lease_inv [OF assms(1)] by (auto simp: leases_match_def split: option.splits)
  have member: "b \<in> inFlight \<longleftrightarrow> b \<noteq> 0 \<and> Runs b \<in> set (ls_tasks s)" for b
  proof (cases "b = 0")
    case False
    with inv(3) [OF False] runs_count_pos [of b "ls_tasks s"] show ?thesis by (cases "b \<in> inFlight") auto
  qed (use inv(2) in simp)
  show "i = j" if "i < length (ls_tasks s)" "j < length (ls_tasks s)" "ls_tasks s ! i = Runs a" "ls_tasks s ! j = Runs a" for i j
    using two_in_filter [of i "ls_tasks s" j "\<lambda>t. t = Runs a"] that inv(3) [OF assms(2)] by (simp add: runs_count_def)
  show "fst (hub_TryAcquire a (ls_hub s)) \<longleftrightarrow> Runs a \<notin> set (ls_tasks s)"
    using inv(1) member [of a] assms(2) by (simp add: hub_TryAcquire_def)
  have "inFlight = {b. b \<noteq> 0 \<and> Runs b \<in> set (ls_tasks s)}" using member by blast
  then show "hub_Len (ls_hub s) = int (card {b. b \<noteq> 0 \<and> Runs b \<in> set (ls_tasks s)})"
    using inv(1) by (simp add: hub_Len_def)
qed

definition busy_lease :: lease_state where
  "busy_lease = \<lparr>ls_hub = Some {7}, ls_tasks = [Runs 7, Wants 7]\<rparr>"

lemma busy_lease_reachable: "lease_step\<^sup>*\<^sup>* lease_init busy_lease"
proof -
  have "lease_step lease_init \<lparr>ls_hub = Some {}, ls_tasks = [Wants 7]\<rparr>"
    using lease_call [of lease_init 7] by (simp add: NewHub_def)
  moreover have "lease_step \<lparr>ls_hub = Some {}, ls_tasks = [Wants 7]\<rparr> \<lparr>ls_hub = Some {7}, ls_tasks = [Runs 7]\<rparr>"
    using lease_granted [of 0 "\<lparr>ls_hub = Some {}, ls_tasks = [Wants 7]\<rparr>" 7 "Some {7}"] by (simp add: hub_TryAcquire_def)
  moreover have "lease_step \<lparr>ls_hub = Some {7}, ls_tasks = [Runs 7]\<rparr> busy_lease"
    using lease_call [of "\<lparr>ls_hub = Some {7}, ls_tasks = [Runs 7]\<rparr>" 7] by (simp add: busy_lease_def)
  ultimately show ?thesis by (meson converse_rtranclp_into_rtranclp rtranclp.rtrancl_refl)
qed

theorem refreshes_exclusive_witness:
  "lease_step\<^sup>*\<^sup>* lease_init busy_lease \<and> \<not> fst (hub_TryAcquire 7 (ls_hub busy_lease)) \<and> hub_Len (ls_hub busy_lease) = 1"
  using refreshes_exclusive [OF busy_lease_reachable, of 7] busy_lease_reachable by (auto simp: busy_lease_def hub_Len_def)

text \<open>C21.
  Grants of a credential exclude each other and leave nothing behind: at most one caller holds the grant of a
  key, whatever gates were dropped and made anew meanwhile; a waiting caller finds its gate's token free
  as soon as nobody holds the key; and a gate is remembered exactly while a caller uses it.\<close>

theorem credential_grants_exclusive:
  assumes "credential_step\<^sup>*\<^sup>* credential_init s"
  shows "(\<forall>i j g h. i < length (cs_clients s) \<longrightarrow> j < length (cs_clients s) \<longrightarrow>
      cs_clients s ! i = Grants key g \<longrightarrow> cs_clients s ! j = Grants key h \<longrightarrow> i = j) \<and>
    (\<forall>g. Waits key g \<in> set (cs_clients s) \<longrightarrow> (\<forall>h. Grants key h \<notin> set (cs_clients s)) \<longrightarrow> \<not> g_token (gt_heap (cs_gates s) ! g)) \<and>
    (gt_entries (cs_gates s) key \<noteq> None \<longleftrightarrow> (\<exists>c \<in> set (cs_clients s). \<exists>g. attached c = Some (key, g)))"
proof (intro conjI allI impI)
  note ok = credential_inv [OF assms]
  have att: "0 < attached_count key g (cs_clients s) \<longleftrightarrow> (\<exists>c \<in> set (cs_clients s). attached c = Some (key, g))" for g
    by (auto simp: attached_count_def length_greater_0_conv filter_empty_conv)
  show "i = j" if "i < length (cs_clients s)" "j < length (cs_clients s)"
    "cs_clients s ! i = Grants key g" "cs_clients s ! j = Grants key h" for i j g h
  proof -
    note gi = gates_okD [OF ok that(1), of key g] and gj = gates_okD [OF ok that(2), of key h]
    have "g = h" using gi(1) gj(1) that by simp
    then show ?thesis
      using two_in_filter [of i "cs_clients s" j "\<lambda>c. c = Grants key g"] that gi(5) by (simp add: grant_count_def)
  qed
  show "\<not> g_token (gt_heap (cs_gates s) ! g)"
    if waits: "Waits key g \<in> set (cs_clients s)" and "\<forall>h. Grants key h \<notin> set (cs_clients s)" for g
  proof -
    obtain i where i: "i < length (cs_clients s) \<and> cs_clients s ! i = Waits key g" using waits by (auto simp: in_set_conv_nth)
    have "grant_count key g (cs_clients s) = 0" using that(2) by (auto simp: grant_count_def filter_empty_conv)
    with gates_okD(5) [OF ok, of i key g] i show ?thesis by simp
  qed
  show "gt_entries (cs_gates s) key \<noteq> None \<longleftrightarrow> (\<exists>c \<in> set (cs_clients s). \<exists>g. attached c = Some (key, g))"
  proof
    assume "gt_entries (cs_gates s) key \<noteq> None"
    then obtain g where "gt_entries (cs_gates s) key = Some g" by auto
    with ok have "0 < attached_count key g (cs_clients s)" unfolding gates_ok_def by blast
    with att show "\<exists>c \<in> set (cs_clients s). \<exists>g. attached c = Some (key, g)" by blast
  next
    assume "\<exists>c \<in> set (cs_clients s). \<exists>g. attached c = Some (key, g)"
    with att obtain g where "0 < attached_count key g (cs_clients s)" by blast
    with ok show "gt_entries (cs_gates s) key \<noteq> None" unfolding gates_ok_def by (metis option.distinct(1))
  qed
qed

definition grok_owner :: credential_owner where
  "grok_owner = \<lparr>ow_type = ''S'', ow_ptr = ''p'', ow_reader = None\<rparr>"

definition two_grants :: credential_state where
  "two_grants = \<lparr>cs_gates = \<lparr>gt_entries = [''g:S:p:1'' \<mapsto> 0], gt_heap = [\<lparr>g_token = False, g_users = 1\<rparr>]\<rparr>,
     cs_clients = [Waits ''g:S:p:1'' 0]\<rparr>"

lemma two_grants_reachable: "credential_step\<^sup>*\<^sup>* credential_init two_grants"
proof -
  let ?s = "\<lparr>cs_gates = \<lparr>gt_entries = Map.empty, gt_heap = []\<rparr>, cs_clients = [Asking ''g'' (Some grok_owner) 1]\<rparr>"
  have "credential_step credential_init ?s"
    using cred_call [of credential_init "''g''" "Some grok_owner" 1] by simp
  moreover have "credential_step ?s two_grants"
  proof -
    have key: "credential_start None ''g'' (Some grok_owner) 1 = Inr (Some ''g:S:p:1'')"
      by code_simp
    show ?thesis
      using cred_enter [of 0 ?s "''g''" "Some grok_owner" 1 None "''g:S:p:1''" 0
          "\<lparr>gt_entries = [''g:S:p:1'' \<mapsto> 0], gt_heap = [\<lparr>g_token = False, g_users = 1\<rparr>]\<rparr>"] key
      by (simp add: enter_gate_def client_at_def two_grants_def)
  qed
  ultimately show ?thesis by (meson converse_rtranclp_into_rtranclp rtranclp.rtrancl_refl)
qed

theorem credential_grants_exclusive_witness:
  "credential_step\<^sup>*\<^sup>* credential_init two_grants \<and> Waits ''g:S:p:1'' 0 \<in> set (cs_clients two_grants) \<and>
     \<not> g_token (gt_heap (cs_gates two_grants) ! 0) \<and> gt_entries (cs_gates two_grants) ''g:S:p:1'' \<noteq> None"
proof -
  have w: "Waits ''g:S:p:1'' 0 \<in> set (cs_clients two_grants)" "\<forall>h. Grants ''g:S:p:1'' h \<notin> set (cs_clients two_grants)"
    by (simp_all add: two_grants_def)
  then have "\<exists>c \<in> set (cs_clients two_grants). \<exists>g. attached c = Some (''g:S:p:1'', g)" by force
  with credential_grants_exclusive [OF two_grants_reachable, of "''g:S:p:1''"] w two_grants_reachable show ?thesis by blast
qed

text \<open>A lease has no owner: a second release by the same caller frees the lease another caller has taken meanwhile.\<close>

lemma double_release_frees_anothers_lease:
  assumes "a \<noteq> 0" "h = Some inFlight"
  shows "fst (hub_TryAcquire a (hub_Release a (snd (hub_TryAcquire a (hub_Release a h)))))"
  using assms by (simp add: hub_TryAcquire_def hub_Release_def)

end
