(* ===== verification/Go_Float.thy ===== *)
theory Go_Float
  imports Go_Prelude "HOL-Library.Log_Nat"
begin

text \<open>
  Go's \<open>float64\<close>: a finite value is the rational it denotes, and every operation rounds its exact result to the
  nearest value with 53 significant bits, ties to even (\<open>float64\<close>). Overflow to an infinity and the
  smallest subnormal values are outside: the components that use floats stay far from both.
\<close>

section \<open>Rounding\<close>

definition ilog2 :: "rat \<Rightarrow> int" where
  "ilog2 q = (let (n, d) = quotient_of q; k = bitlen n - bitlen d in if 2 powi k \<le> q then k else k - 1)"

definition round_half_even :: "rat \<Rightarrow> int" where
  "round_half_even q =
     (let f = \<lfloor>q\<rfloor>; r = q - of_int f
      in if r < 1 / 2 then f else if r > 1 / 2 then f + 1 else if even f then f else f + 1)"

definition float_pos :: "rat \<Rightarrow> rat" where
  "float_pos q = (let s = ilog2 q - 52 in of_int (round_half_even (q / 2 powi s)) * 2 powi s)"

definition float64 :: "rat \<Rightarrow> rat" where
  "float64 q = (if q = 0 then 0 else if q > 0 then float_pos q else - float_pos (- q))"

text \<open>\<open>time.Duration.Seconds\<close> of a duration that is not negative.\<close>

definition seconds_of :: "duration \<Rightarrow> rat" where
  "seconds_of d = float64 (of_int (d div second) + float64 (of_int (d mod second) / of_int second))"

lemma ilog2_bounds:
  assumes "0 < q" shows "2 powi (ilog2 q) \<le> q" "q < 2 powi (ilog2 q + 1)"
proof -
  obtain n d where nd: "quotient_of q = (n, d)" by fastforce
  have d: "0 < d" using quotient_of_denom_pos [OF nd] .
  have q: "q = of_int n / of_int d" using quotient_of_div [OF nd] .
  then have n: "0 < n" using assms d by (simp add: zero_less_divide_iff)
  let ?k = "bitlen n - bitlen d"
  have bn: "2 ^ nat (bitlen n - 1) \<le> n" "n < 2 ^ nat (bitlen n)" and bd: "2 ^ nat (bitlen d - 1) \<le> d" "d < 2 ^ nat (bitlen d)"
    using bitlen_bounds [OF n] bitlen_bounds [OF d] by auto
  have bp: "1 \<le> bitlen n" "1 \<le> bitlen d"
    using n d bitlen_nonneg [of n] bitlen_nonneg [of d] bitlen_eq_zero_iff [of n] bitlen_eq_zero_iff [of d] by linarith+
  have pow: "of_int (2 ^ nat b) = (2 :: rat) powi b" if "0 \<le> b" for b :: int
    using that by (simp add: power_int_def)
  have N: "2 powi (bitlen n - 1) \<le> (of_int n :: rat)" "(of_int n :: rat) < 2 powi (bitlen n)"
    and D: "2 powi (bitlen d - 1) \<le> (of_int d :: rat)" "(of_int d :: rat) < 2 powi (bitlen d)"
    using bn bd bp pow [of "bitlen n - 1"] pow [of "bitlen n"] pow [of "bitlen d - 1"] pow [of "bitlen d"]
      of_int_le_iff [where 'a = rat, of "2 ^ nat (bitlen n - 1)" n] of_int_less_iff [where 'a = rat, of n "2 ^ nat (bitlen n)"]
      of_int_le_iff [where 'a = rat, of "2 ^ nat (bitlen d - 1)" d] of_int_less_iff [where 'a = rat, of d "2 ^ nat (bitlen d)"]
    by simp_all
  have "2 powi (?k - 1) = 2 powi (bitlen n - 1) / (2 :: rat) powi (bitlen d)"
    by (simp add: power_int_diff [symmetric] algebra_simps)
  also have "\<dots> \<le> of_int n / of_int d"
    using N D n d by (intro frac_le) auto
  finally have low: "2 powi (?k - 1) \<le> q" using q by simp
  have "q < 2 powi (bitlen n) / 2 powi (bitlen d - 1)"
    unfolding q by (rule frac_less) (use N D n d in simp_all)
  also have "\<dots> = 2 powi (?k + 1)" by (simp add: power_int_diff [symmetric] algebra_simps)
  finally have high: "q < 2 powi (?k + 1)" .
  show "2 powi (ilog2 q) \<le> q" "q < 2 powi (ilog2 q + 1)"
    using low high by (auto simp: ilog2_def nd Let_def)
qed

lemma powi_mono: "a \<le> b \<Longrightarrow> (2 :: rat) powi a \<le> 2 powi b"
  by (rule power_int_increasing) auto

lemma powi_step: "(2 :: rat) powi (s + a) = 2 powi s * 2 powi a"
  by (simp add: power_int_add)

lemma powi_bits: "(2 :: rat) powi (s + 52) = of_int (2 ^ 52) * 2 powi s" "(2 :: rat) powi (s + 53) = of_int (2 ^ 53) * 2 powi s"
  by (simp_all only: powi_step) (simp_all add: power_int_def)

lemma round_half_even_bounds: "\<lfloor>q\<rfloor> \<le> round_half_even q" "round_half_even q \<le> \<lfloor>q\<rfloor> + 1"
  by (auto simp: round_half_even_def Let_def)

lemma round_half_even_int [simp]: "round_half_even (of_int n) = n"
  by (simp add: round_half_even_def)

lemma round_half_even_mono: "p \<le> q \<Longrightarrow> round_half_even p \<le> round_half_even q"
proof -
  assume pq: "p \<le> q"
  show ?thesis
  proof (cases "\<lfloor>p\<rfloor> = \<lfloor>q\<rfloor>")
    case True
    then show ?thesis using pq by (auto simp: round_half_even_def Let_def)
  next
    case False
    with pq have "\<lfloor>p\<rfloor> + 1 \<le> \<lfloor>q\<rfloor>" using floor_mono [OF pq] by linarith
    then show ?thesis using round_half_even_bounds [of p] round_half_even_bounds [of q] by linarith
  qed
qed

lemma round_half_even_within: "of_int m \<le> q \<Longrightarrow> q \<le> of_int n \<Longrightarrow> m \<le> round_half_even q \<and> round_half_even q \<le> n"
  using round_half_even_mono [of "of_int m" q] round_half_even_mono [of q "of_int n"] by simp

lemma float_pos_binade:
  assumes "0 < q" shows "2 powi (ilog2 q) \<le> float_pos q" "float_pos q \<le> 2 powi (ilog2 q + 1)"
proof -
  let ?s = "ilog2 q - 52"
  have pos: "0 < (2 :: rat) powi ?s" by simp
  have ends: "(2 :: rat) powi (ilog2 q) = of_int (2 ^ 52) * 2 powi ?s" "(2 :: rat) powi (ilog2 q + 1) = of_int (2 ^ 53) * 2 powi ?s"
    using powi_bits [of ?s] by (simp_all only: diff_add_cancel) (simp add: algebra_simps)
  have "of_int (2 ^ 52) * 2 powi ?s \<le> q" "q \<le> of_int (2 ^ 53) * 2 powi ?s"
    using ilog2_bounds [OF assms] unfolding ends by simp_all
  then have "of_int (2 ^ 52) \<le> q / 2 powi ?s" "q / 2 powi ?s \<le> of_int (2 ^ 53)"
    using pos by (simp_all add: pos_le_divide_eq pos_divide_le_eq)
  from round_half_even_within [OF this] have "2 ^ 52 \<le> round_half_even (q / 2 powi ?s)" "round_half_even (q / 2 powi ?s) \<le> 2 ^ 53" by auto
  then have "of_int (2 ^ 52) * 2 powi ?s \<le> float_pos q" "float_pos q \<le> of_int (2 ^ 53) * 2 powi ?s"
    unfolding float_pos_def Let_def using pos by (metis mult_right_mono of_int_le_iff less_imp_le)+
  then show "2 powi (ilog2 q) \<le> float_pos q" "float_pos q \<le> 2 powi (ilog2 q + 1)" unfolding ends .
qed

lemma float_pos_mono:
  assumes "0 < p" "p \<le> q" shows "float_pos p \<le> float_pos q"
proof -
  have q: "0 < q" using assms by simp
  consider "ilog2 p = ilog2 q" | "ilog2 p + 1 \<le> ilog2 q" | "ilog2 q + 1 \<le> ilog2 p" by linarith
  then show ?thesis
  proof cases
    case 1
    have "round_half_even (p / 2 powi (ilog2 q - 52)) \<le> round_half_even (q / 2 powi (ilog2 q - 52))"
      using assms(2) by (intro round_half_even_mono divide_right_mono) simp_all
    then show ?thesis unfolding float_pos_def Let_def 1 by (intro mult_right_mono) simp_all
  next
    case 2
    from float_pos_binade(2) [OF assms(1)] powi_mono [OF 2] float_pos_binade(1) [OF q] show ?thesis by linarith
  next
    case 3
    from ilog2_bounds(1) [OF assms(1)] ilog2_bounds(2) [OF q] powi_mono [OF 3] assms(2) show ?thesis by linarith
  qed
qed

lemma float_pos_pos: "0 < q \<Longrightarrow> 0 < float_pos q"
  using float_pos_binade(1) [of q] by (meson less_le_trans zero_less_power_int zero_less_numeral)

lemma float64_0 [simp]: "float64 0 = 0" by (simp add: float64_def)

lemma float64_neg: "float64 (- q) = - float64 q"
  by (auto simp: float64_def)

lemma float64_sgn: "0 < float64 q \<longleftrightarrow> 0 < q" "float64 q < 0 \<longleftrightarrow> q < 0" "float64 q = 0 \<longleftrightarrow> q = 0"
  using float_pos_pos [of q] float_pos_pos [of "- q"] by (auto simp: float64_def not_less)

lemma float64_mono: "p \<le> q \<Longrightarrow> float64 p \<le> float64 q"
proof -
  assume pq: "p \<le> q"
  consider "0 < p" | "p \<le> 0" "0 \<le> q" | "q < 0" by linarith
  then show ?thesis
  proof cases
    case 1
    with pq float_pos_mono show ?thesis by (simp add: float64_def)
  next
    case 2
    then have "float64 p \<le> 0" "0 \<le> float64 q" using float64_sgn [of p] float64_sgn [of q] by linarith+
    then show ?thesis by linarith
  next
    case 3
    with pq float_pos_mono [of "- q" "- p"] show ?thesis by (simp add: float64_def)
  qed
qed

text \<open>A value with at most 53 significant bits is a float.\<close>

lemma float_pos_exact:
  assumes "0 < m" "m < 2 ^ 53" shows "float_pos (of_int m * 2 powi e) = of_int m * 2 powi e"
proof -
  let ?q = "of_int m * 2 powi e :: rat"
  let ?s = "ilog2 ?q - 52"
  have q: "0 < ?q" using assms(1) by simp
  have "(of_int m :: rat) < of_int (2 ^ 53)" using assms(2) by (simp only: of_int_less_iff)
  then have "?q < of_int (2 ^ 53) * 2 powi e" by (intro mult_strict_right_mono) simp_all
  then have "?q < 2 powi (53 + e)" using powi_bits(2) [of e] by (simp add: add.commute)
  with ilog2_bounds(1) [OF q] have "(2 :: rat) powi (ilog2 ?q) < 2 powi (53 + e)" by linarith
  then have "ilog2 ?q < 53 + e" using powi_mono [of "53 + e" "ilog2 ?q"] by linarith
  then have se: "0 \<le> e - ?s" by simp
  have "?q / 2 powi ?s = of_int m * 2 powi (e - ?s)" by (simp add: power_int_diff)
  also have "\<dots> = of_int (m * 2 ^ nat (e - ?s))" using se by (simp add: power_int_def)
  finally have i: "?q / 2 powi ?s = of_int (m * 2 ^ nat (e - ?s))" .
  have "float_pos ?q = of_int (round_half_even (?q / 2 powi ?s)) * 2 powi ?s" by (simp add: float_pos_def Let_def)
  also have "\<dots> = ?q / 2 powi ?s * 2 powi ?s" unfolding i round_half_even_int ..
  also have "\<dots> = ?q" by simp
  finally show ?thesis .
qed

lemma float64_exact:
  assumes "\<bar>m\<bar> < 2 ^ 53" shows "float64 (of_int m * 2 powi e) = of_int m * 2 powi e"
proof (cases "m = 0")
  case False
  have pos: "0 < (2 :: rat) powi e" by simp
  show ?thesis
  proof (cases "0 < m")
    case True
    with assms pos float_pos_exact [of m e] show ?thesis by (simp add: float64_def)
  next
    case neg: False
    with False have m: "m < 0" by simp
    with pos have "(of_int m :: rat) * 2 powi e < 0" by (simp add: mult_neg_pos)
    with assms m float_pos_exact [of "- m" e] show ?thesis by (simp add: float64_def)
  qed
qed simp

lemma float64_int: "\<bar>m\<bar> < 2 ^ 53 \<Longrightarrow> float64 (of_int m) = of_int m"
  using float64_exact [of m 0] by simp

text \<open>Rounding up costs at most one part in \<open>2\<^sup>53\<close>.\<close>

lemma float64_upper:
  assumes "0 \<le> q" shows "float64 q \<le> q * (1 + 1 / 2 ^ 53)"
proof (cases "q = 0")
  case False
  with assms have q: "0 < q" by simp
  define s where "s = ilog2 q - 52"
  have pos: "0 < (2 :: rat) powi s" by simp
  have "of_int (round_half_even x) \<le> x + 1 / 2" for x :: rat
    unfolding round_half_even_def Let_def using of_int_floor_le [of x] by (auto simp del: of_int_floor_le)
  then have "of_int (round_half_even (q / 2 powi s)) * 2 powi s \<le> (q / 2 powi s + 1 / 2) * 2 powi s"
    using pos by (intro mult_right_mono) simp_all
  also have "\<dots> = q + 2 powi s / 2" using pos by (simp add: field_simps)
  also have "(2 :: rat) powi (s + 52) = of_int (2 ^ 52) * 2 powi s" by (rule powi_bits)
  then have "of_int (2 ^ 52) * 2 powi s \<le> q" using ilog2_bounds(1) [OF q] by (simp add: s_def)
  then have "q + 2 powi s / 2 \<le> q * (1 + 1 / 2 ^ 53)" by (simp add: field_simps)
  finally show ?thesis using q by (simp add: float64_def float_pos_def Let_def s_def)
qed simp

lemma float64_nonneg: "0 \<le> q \<Longrightarrow> 0 \<le> float64 q"
  using float64_sgn(2) [of q] by linarith

lemma seconds_of_upper:
  assumes "0 \<le> d" shows "seconds_of d \<le> of_int d / 10 ^ 9 * (1 + 1 / 2 ^ 53) ^ 2" "0 \<le> seconds_of d"
proof -
  let ?e = "1 + 1 / 2 ^ 53 :: rat" and ?a = "of_int (d div second) :: rat" and ?b = "of_int (d mod second) / of_int second :: rat"
  have a: "0 \<le> ?a" "0 \<le> ?b" using assms by (simp_all add: second_def pos_imp_zdiv_nonneg_iff)
  have "rat_of_int (d div 1000000000) * 1000000000 + rat_of_int (d mod 1000000000) = rat_of_int d"
    by (metis div_mult_mod_eq of_int_add of_int_mult of_int_numeral)
  then have sum: "?a + ?b = of_int d / 10 ^ 9" by (simp add: second_def field_simps)
  have "?a * 1 \<le> ?a * ?e" using a(1) by (intro mult_left_mono) simp_all
  then have "?a + float64 ?b \<le> (?a + ?b) * ?e" using float64_upper [OF a(2)] unfolding distrib_right by linarith
  then have "float64 (?a + float64 ?b) \<le> float64 ((?a + ?b) * ?e)" by (rule float64_mono)
  also have "\<dots> \<le> (?a + ?b) * ?e * ?e" using a by (intro float64_upper mult_nonneg_nonneg add_nonneg_nonneg) simp_all
  finally show "seconds_of d \<le> of_int d / 10 ^ 9 * ?e ^ 2" by (simp add: seconds_of_def sum power2_eq_square)
  show "0 \<le> seconds_of d" unfolding seconds_of_def using a by (intro float64_nonneg add_nonneg_nonneg) simp_all
qed

lemma seconds_of_whole: "0 \<le> n \<Longrightarrow> n < 2 ^ 53 \<Longrightarrow> seconds_of (n * second) = of_int n"
  by (simp add: seconds_of_def second_def float64_int)

end
