(* ===== verification/Grok_Metadata.thy ===== *)
theory Grok_Metadata
  imports Go_Float Pricing
begin

text \<open>
  What a Grok upstream says about its rate limits: the resource-exhausted body of
  \<^verbatim>\<open>internal/grok/ratelimit/metadata.go\<close>, the window headers of \<^verbatim>\<open>internal/grok/ratelimit/headers.go\<close> and the
  \<open>Retry-After\<close> of \<^verbatim>\<open>internal/httpclient/http_response.go\<close>.

  \<^item> A regular expression is a matcher of its pieces in order, tried from every position on; each pattern of the
    source has only one way to match from a given start. Character classes are those of RE2 on bytes.
  \<^item> A body is its bytes and, when they are JSON, the decoded value; an object lists its members in the
    order Go's map happens to yield. A header map is a function from a name to its first value.
  \<^item> \<open>http.ParseTime\<close> and \<open>time.Parse\<close> of a date are the arguments \<open>date\<close>.
\<close>

section \<open>Numbers and dates in headers\<close>

definition ParseRetryAfter :: "(string \<Rightarrow> time option) \<Rightarrow> string \<Rightarrow> time \<Rightarrow> duration \<Rightarrow> duration" where
  "ParseRetryAfter date value now limit =
     (let v = trim_space value;
          bound = (\<lambda>delay. if delay \<le> 0 then 0 else if limit > 0 \<and> delay > limit then limit else delay)
      in case parse_int64 v of
           Some seconds \<Rightarrow>
             if seconds \<le> 0 then 0
             else if limit > 0 \<and> seconds > limit div second then limit
             else if seconds > max_int64 div second then bound max_int64
             else bound (seconds * second)
         | None \<Rightarrow> (case date v of None \<Rightarrow> bound 0 | Some t \<Rightarrow> bound (time_sub t now)))"

definition FirstHeader :: "(string \<Rightarrow> string) \<Rightarrow> string list \<Rightarrow> string" where
  "FirstHeader headers keys =
     (case filter (\<lambda>v. v \<noteq> []) (map (\<lambda>k. trim_space (headers k)) (filter (\<lambda>k. k \<noteq> []) keys)) of
        [] \<Rightarrow> [] | v # _ \<Rightarrow> v)"

text \<open>\<open>strconv.ParseFloat\<close> and the conversion of its result to \<open>int64\<close>, for a token of a sign, digits and one dot.\<close>

definition decimal_value :: "string \<Rightarrow> rat" where
  "decimal_value ds =
     (let whole = takeWhile is_digit ds; frac = drop (Suc (length whole)) ds
      in of_int (digits_value (whole @ frac)) / 10 ^ length frac)"

definition float_to_int :: "rat \<Rightarrow> int" where
  "float_to_int f = (let n = (if f < 0 then - \<lfloor>- f\<rfloor> else \<lfloor>f\<rfloor>) in if n < min_int64 \<or> max_int64 < n then min_int64 else n)"

definition parseNumericToken :: "string \<Rightarrow> int option" where
  "parseNumericToken token =
     (let (neg, ds) = (case token of
            c # rest \<Rightarrow> if c = CHR ''+'' then (False, rest) else if c = CHR ''-'' then (True, rest) else (False, token)
          | [] \<Rightarrow> (False, []));
          tail = dropWhile is_digit ds
      in if \<not> (\<exists>c \<in> set ds. is_digit c) then None
         else if tail = [] then parse_int64 token
         else if hd tail = CHR ''.'' \<and> list_all is_digit (tl tail)
              then Some (float_to_int (let v = float64 (decimal_value ds) in if neg then - v else v))
         else None)"

text \<open>The state of the scan: \<open>start\<close>, \<open>fin\<close> (-1 for \<open>None\<close>), \<open>seenDot\<close>, \<open>seenDigit\<close>.\<close>

fun number_scan :: "string \<Rightarrow> nat \<Rightarrow> nat option \<Rightarrow> nat option \<Rightarrow> bool \<Rightarrow> bool \<Rightarrow> nat option \<times> nat option \<times> bool" where
  "number_scan [] i start fin dot digit = (start, fin, digit)"
| "number_scan (c # raw) i start fin dot digit =
     (if start = None then
        (if c = CHR ''+'' \<or> c = CHR ''-'' then
           (if raw \<noteq> [] \<and> (is_digit (hd raw) \<or> hd raw = CHR ''.'')
            then number_scan raw (Suc i) (Some i) fin dot digit else number_scan raw (Suc i) start fin dot digit)
         else if c = CHR ''.'' then
           (if raw \<noteq> [] \<and> is_digit (hd raw)
            then number_scan raw (Suc i) (Some i) fin True digit else number_scan raw (Suc i) start fin dot digit)
         else if is_digit c then number_scan raw (Suc i) (Some i) fin dot True
         else number_scan raw (Suc i) start fin dot digit)
      else if is_digit c then number_scan raw (Suc i) start (Some (Suc i)) dot True
      else if c = CHR ''.'' \<and> \<not> dot
           then number_scan raw (Suc i) start (if fin = None then Some (Suc i) else fin) True digit
      else (start, fin, digit))"

definition extractFirstNumberToken :: "string \<Rightarrow> string" where
  "extractFirstNumberToken raw =
     (case number_scan raw 0 None None False False of
        (None, _) \<Rightarrow> []
      | (Some start, fin, digit) \<Rightarrow>
          if \<not> digit then []
          else let e = (case fin of None \<Rightarrow> length raw | Some e \<Rightarrow> e) in drop start (take e raw))"

definition ParseValue :: "string \<Rightarrow> int option" where
  "ParseValue raw0 =
     (let raw = trim_space raw0 in
      if raw = [] then None
      else case parseNumericToken raw of
             Some v \<Rightarrow> Some v
           | None \<Rightarrow> (let token = extractFirstNumberToken raw in if token = [] then None else parseNumericToken token))"

definition ParseReset :: "(string \<Rightarrow> time option) \<Rightarrow> string \<Rightarrow> time" where
  "ParseReset date raw0 =
     (let raw = trim_space raw0 in
      if raw = [] then 0
      else case date raw of
             Some t \<Rightarrow> t
           | None \<Rightarrow>
               (case ParseValue raw of
                  None \<Rightarrow> 0
                | Some v \<Rightarrow> if v > 1000000000000 then unix_epoch + v * millisecond
                            else if v > 0 then time_unix v else 0))"

record RateLimitInfo =
  Limit :: int
  HasLimit :: bool
  Remaining_requests :: int
  HasRemaining :: bool
  ResetAt :: time
  Unit :: string

definition ParseHeaders :: "(string \<Rightarrow> time option) \<Rightarrow> (string \<Rightarrow> string) option \<Rightarrow> RateLimitInfo option" where
  "ParseHeaders date hs =
     (case hs of
        None \<Rightarrow> None
      | Some headers \<Rightarrow>
          let limitRaw = FirstHeader headers [''ratelimit-limit'', ''x-ratelimit-limit'', ''x-rate-limit-limit'', ''x-usage-limit'',
                ''x-ratelimit-limit-requests'', ''x-ratelimit-limit-reqs''];
              remainingRaw = FirstHeader headers [''ratelimit-remaining'', ''x-ratelimit-remaining'', ''x-rate-limit-remaining'',
                ''x-usage-remaining'', ''x-ratelimit-remaining-requests'', ''x-ratelimit-remaining-reqs''];
              resetRaw = FirstHeader headers [''ratelimit-reset'', ''x-ratelimit-reset'', ''x-rate-limit-reset'', ''x-ratelimit-reset-requests''];
              limit = ParseValue limitRaw;
              remaining = ParseValue remainingRaw
          in if limit = None \<and> remaining = None \<and> resetRaw = [] then None
             else Some \<lparr>Limit = (case limit of None \<Rightarrow> 0 | Some v \<Rightarrow> v), HasLimit = (limit \<noteq> None),
                        Remaining_requests = (case remaining of None \<Rightarrow> 0 | Some v \<Rightarrow> v), HasRemaining = (remaining \<noteq> None),
                        ResetAt = ParseReset date resetRaw, Unit = ''requests''\<rparr>)"

section \<open>The body of a 429\<close>

definition ScopeRPS :: string where "ScopeRPS = ''rps''"
definition ScopeRPM :: string where "ScopeRPM = ''rpm''"

record Metadata =
  md_Scope :: string
  md_TeamID :: string
  md_Model :: string
  md_Actual :: int
  md_Limit :: int
  md_RetryAfter :: duration

text \<open>The classes \<open>\\s\<close>, \<open>\\w\<close> and the pieces of a pattern: a literal that ignores case, spaces, digits.\<close>

definition rx_space :: "char \<Rightarrow> bool" where
  "rx_space c = (byte_of c \<in> {9, 10, 12, 13, 32})"

definition rx_word :: "char \<Rightarrow> bool" where
  "rx_word c = (is_digit c \<or> c = CHR ''_'' \<or> (65 \<le> byte_of c \<and> byte_of c \<le> 90) \<or> (97 \<le> byte_of c \<and> byte_of c \<le> 122))"

definition rx_spaces :: "string \<Rightarrow> string" where "rx_spaces s = dropWhile rx_space s"

definition rx_lit :: "string \<Rightarrow> string \<Rightarrow> string option" where
  "rx_lit p s = (if to_lower (take (length p) s) = p then Some (drop (length p) s) else None)"

definition rx_spaces1 :: "string \<Rightarrow> string option" where
  "rx_spaces1 s = (case s of c # _ \<Rightarrow> if rx_space c then Some (rx_spaces s) else None | [] \<Rightarrow> None)"

text \<open>\<open>rateLimitUsagePattern\<close> from its \<open>R\<close> on: whether the window is a second, and both numbers.\<close>

definition usage_at :: "string \<Rightarrow> (bool \<times> string \<times> string) option" where
  "usage_at s0 =
     (case rx_lit ''request'' s0 of None \<Rightarrow> None | Some s1 \<Rightarrow>
      (case rx_spaces1 (case rx_lit ''s'' s1 of Some s \<Rightarrow> s | None \<Rightarrow> s1) of None \<Rightarrow> None | Some s2 \<Rightarrow>
       (case rx_lit ''per'' s2 of None \<Rightarrow> None | Some s3 \<Rightarrow>
        (case rx_spaces1 s3 of None \<Rightarrow> None | Some s4 \<Rightarrow>
         (case (case rx_lit ''second'' s4 of Some s \<Rightarrow> Some (True, s)
                | None \<Rightarrow> (case rx_lit ''minute'' s4 of Some s \<Rightarrow> Some (False, s) | None \<Rightarrow> None)) of
            None \<Rightarrow> None
          | Some (sec, s5) \<Rightarrow>
            (case rx_lit ''('' (rx_spaces s5) of None \<Rightarrow> None | Some s6 \<Rightarrow>
             (case rx_lit ''actual'' (rx_spaces s6) of None \<Rightarrow> None | Some s7 \<Rightarrow>
              (case rx_lit ''/'' (rx_spaces s7) of None \<Rightarrow> None | Some s8 \<Rightarrow>
               (case rx_lit ''limit'' (rx_spaces s8) of None \<Rightarrow> None | Some s9 \<Rightarrow>
                (case rx_lit '')'' (rx_spaces s9) of None \<Rightarrow> None | Some s10 \<Rightarrow>
                 (case rx_lit '':'' (rx_spaces s10) of None \<Rightarrow> None | Some s11 \<Rightarrow>
                  (let actual = takeWhile is_digit (rx_spaces s11); s12 = dropWhile is_digit (rx_spaces s11) in
                   if actual = [] then None
                   else case rx_lit ''/'' (rx_spaces s12) of None \<Rightarrow> None | Some s13 \<Rightarrow>
                     (let limit = takeWhile is_digit (rx_spaces s13) in
                      if limit = [] then None else Some (sec, actual, limit))))))))))))))"

definition is_hex :: "char \<Rightarrow> bool" where
  "is_hex c = (is_digit c \<or> (97 \<le> byte_of (lower_char c) \<and> byte_of (lower_char c) \<le> 102))"

definition uuid_length :: nat where "uuid_length = 36"

definition team_at :: "string \<Rightarrow> string option" where
  "team_at s0 =
     (case rx_lit ''team'' s0 of None \<Rightarrow> None | Some s1 \<Rightarrow>
      (case rx_spaces1 s1 of None \<Rightarrow> None | Some s2 \<Rightarrow>
       (let team = take uuid_length s2; rest = drop uuid_length s2 in
        if length team = uuid_length \<and>
           (\<forall>i \<in> set [0..<uuid_length]. if i \<in> {8, 13, 18, 23} then team ! i = CHR ''-'' else is_hex (team ! i)) \<and>
           (rest = [] \<or> \<not> rx_word (hd rest))
        then Some team else None)))"

definition model_char :: "char \<Rightarrow> bool" where
  "model_char c = (rx_word c \<or> c \<in> {CHR ''.'', CHR '':'', CHR ''/'', CHR ''-''})"

definition model_at :: "string \<Rightarrow> string option" where
  "model_at s0 =
     (case rx_lit ''model'' s0 of None \<Rightarrow> None | Some s1 \<Rightarrow>
      (case rx_spaces1 s1 of None \<Rightarrow> None | Some s2 \<Rightarrow>
       (let s3 = (case s2 of c # s \<Rightarrow> if byte_of c = 34 \<or> byte_of c = 39 then s else s2 | [] \<Rightarrow> []) in
        (case s3 of [] \<Rightarrow> None
         | c # _ \<Rightarrow> if rx_word c \<and> c \<noteq> CHR ''_'' then Some (takeWhile model_char s3) else None))))"

text \<open>The leftmost match at a word boundary; the flag says that a word character comes before.\<close>

fun rx_find :: "(string \<Rightarrow> 'a option) \<Rightarrow> bool \<Rightarrow> string \<Rightarrow> 'a option" where
  "rx_find m inside [] = None"
| "rx_find m inside (c # s) =
     (case (if inside = rx_word c then None else m (c # s)) of
        Some r \<Rightarrow> Some r
      | None \<Rightarrow> rx_find m (rx_word c) s)"

definition rateLimitTeamID :: "string \<Rightarrow> string" where
  "rateLimitTeamID text = (case rx_find team_at False text of None \<Rightarrow> [] | Some t \<Rightarrow> t)"

definition rateLimitModel :: "string \<Rightarrow> string" where
  "rateLimitModel text =
     (case rx_find model_at False text of
        None \<Rightarrow> []
      | Some m \<Rightarrow> rev (dropWhile (\<lambda>c. c \<in> {CHR ''.'', CHR '','', CHR '';''}) (rev m)))"

text \<open>\<open>strconv.Atoi\<close> when its error is ignored: a number out of range is the nearest bound.\<close>

definition atoi_clamped :: "string \<Rightarrow> int" where
  "atoi_clamped ds = min (digits_value ds) max_int64"

definition reset_unit :: "char \<Rightarrow> duration option" where
  "reset_unit c =
     (let l = lower_char c in
      if l = CHR ''d'' then Some (24 * hour) else if l = CHR ''h'' then Some hour
      else if l = CHR ''m'' then Some minute else if l = CHR ''s'' then Some second else None)"

text \<open>The sum over all matches of \<open>rateLimitResetPattern\<close>.\<close>

function reset_total :: "string \<Rightarrow> duration \<Rightarrow> duration" where
  "reset_total [] acc = acc"
| "reset_total (c # s) acc =
     (if \<not> is_digit c then reset_total s acc
      else let ds = c # takeWhile is_digit s; rest = rx_spaces (dropWhile is_digit s) in
           case rest of
             [] \<Rightarrow> acc
           | u # rest' \<Rightarrow>
               (case reset_unit u of
                  Some d \<Rightarrow> reset_total rest' (wrap64 (acc + wrap64 (atoi_clamped ds * d)))
                | None \<Rightarrow> reset_total (dropWhile is_digit s) acc))"
  by pat_completeness auto

termination
  by (relation "measure (\<lambda>(s, acc). length s)")
    (auto simp: rx_spaces_def less_Suc_eq_le length_dropWhile_le dest!: arg_cong [where f = length]
      intro: le_trans [OF Suc_leD le_trans [OF length_dropWhile_le length_dropWhile_le]])

fun after_first :: "string \<Rightarrow> string \<Rightarrow> string option" where
  "after_first p [] = (if p = [] then Some [] else None)"
| "after_first p (c # s) = (if to_lower (take (length p) (c # s)) = p then Some (drop (length p) (c # s)) else after_first p s)"

definition rateLimitResetAfter :: "string \<Rightarrow> duration" where
  "rateLimitResetAfter body = (case after_first ''resets in:'' body of None \<Rightarrow> 0 | Some text \<Rightarrow> reset_total text 0)"

definition parseRateLimitText :: "string \<Rightarrow> Metadata option" where
  "parseRateLimitText text =
     (case rx_find usage_at False text of
        None \<Rightarrow> None
      | Some (sec, a, l) \<Rightarrow>
          (case (parse_int64 a, parse_int64 l) of
             (Some actual, Some limit) \<Rightarrow>
               let scope = (if sec then ScopeRPS else ScopeRPM);
                   parsed = rateLimitResetAfter text;
                   retryAfter = (if parsed > 0 then (if sec \<and> parsed < 2 * second then 2 * second else parsed)
                                 else if sec then 2 * second else minute)
               in Some \<lparr>md_Scope = scope, md_TeamID = rateLimitTeamID text, md_Model = rateLimitModel text,
                        md_Actual = actual, md_Limit = limit, md_RetryAfter = retryAfter\<rparr>
           | _ \<Rightarrow> None))"

definition appendRateLimitText :: "string \<Rightarrow> string list \<Rightarrow> string list" where
  "appendRateLimitText text texts = (if trim_space text = [] then texts else texts @ [text])"

definition string_member :: "string \<Rightarrow> (string \<times> json) list \<Rightarrow> string option" where
  "string_member k members = (case map_of members k of Some (JStr s) \<Rightarrow> Some s | _ \<Rightarrow> None)"

fun collectRateLimitTexts :: "json \<Rightarrow> string list \<Rightarrow> string list" where
  "collectRateLimitTexts (JObj members) texts =
     (let t1 = (case string_member ''message'' members of Some m \<Rightarrow> appendRateLimitText m texts | None \<Rightarrow> texts);
          t2 = (case string_member ''error'' members of Some m \<Rightarrow> appendRateLimitText m t1 | None \<Rightarrow> t1)
      in fold (\<lambda>(k, v) ts. collectRateLimitTexts v ts) members t2)"
| "collectRateLimitTexts (JArr vs) texts = fold collectRateLimitTexts vs texts"
| "collectRateLimitTexts (JStr s) texts = appendRateLimitText s texts"
| "collectRateLimitTexts _ texts = texts"

record body =
  bd_bytes :: string
  bd_json :: "json option"

definition rateLimitTexts :: "body \<Rightarrow> string list" where
  "rateLimitTexts b =
     (case bd_json b of None \<Rightarrow> [bd_bytes b] | Some v \<Rightarrow> collectRateLimitTexts v [bd_bytes b])"

definition ParseMetadata :: "body \<Rightarrow> Metadata option" where
  "ParseMetadata b =
     (case filter (\<lambda>m. m \<noteq> None) (map parseRateLimitText (rateLimitTexts b)) of [] \<Rightarrow> None | m # _ \<Rightarrow> m)"

definition FromResponse ::
  "(string \<Rightarrow> time option) \<Rightarrow> time \<Rightarrow> int \<Rightarrow> (string \<Rightarrow> string) option \<Rightarrow> body \<Rightarrow> Metadata option" where
  "FromResponse date now status headers b =
     (if status \<noteq> 429 then None
      else case ParseMetadata b of
             None \<Rightarrow> None
           | Some m \<Rightarrow>
               (case headers of
                  None \<Rightarrow> Some m
                | Some h \<Rightarrow>
                    if h ''Retry-After'' = [] then Some m
                    else let retry = ParseRetryAfter date (h ''Retry-After'') now 0
                         in if retry > 0 then Some (m\<lparr>md_RetryAfter := retry\<rparr>) else Some m))"

definition duration_in :: "duration \<Rightarrow> duration \<Rightarrow> int" where
  "duration_in unit d = float_to_int (float64 (float64 (of_int (d div unit)) + float64 (float64 (of_int (d mod unit)) / of_int unit)))"

definition formatDurationShort :: "duration \<Rightarrow> string" where
  "formatDurationShort d =
     (if d \<ge> hour then itoa (duration_in hour d) @ ''h''
      else if d \<ge> minute then itoa (duration_in minute d) @ ''m''
      else itoa (duration_in second d) @ ''s'')"

definition Describe :: "Metadata option \<Rightarrow> string" where
  "Describe md =
     (case md of
        None \<Rightarrow> []
      | Some m \<Rightarrow>
          ''team='' @ md_TeamID m @
          (if md_Model m \<noteq> [] then '' model='' @ md_Model m else []) @
          '' scope='' @ md_Scope m @
          (if md_Limit m > 0 then '' limit='' @ itoa (md_Actual m) @ ''/'' @ itoa (md_Limit m) else []) @
          (if md_RetryAfter m > 0 then '' reset='' @ formatDurationShort (md_RetryAfter m) else []))"


section \<open>What the readers return\<close>

text \<open>A \<open>Retry-After\<close> in seconds is their duration, cut to the limit (if any) and to the largest duration, and never
  negative.\<close>

lemma trim_unspaced: "list_all (\<lambda>c. \<not> is_space c) s \<Longrightarrow> trim_space s = s"
proof -
  assume "list_all (\<lambda>c. \<not> is_space c) s"
  then have "dropWhile is_space s = s" "dropWhile is_space (rev s) = rev s"
    by (auto simp: list_all_iff dropWhile_eq_self_iff hd_rev)
  then show ?thesis by (simp add: trim_space_def)
qed

lemma digit_unspaced: "is_digit c \<Longrightarrow> \<not> is_space c"
  by (auto simp: is_digit_def is_space_def)

lemma trim_itoa [simp]: "trim_space (itoa n) = itoa n"
proof (rule trim_unspaced)
  have "list_all (\<lambda>c. \<not> is_space c) (nat_digits k)" for k
    using nat_digits_value [of k] digit_unspaced by (auto simp: list_all_iff)
  then show "list_all (\<lambda>c. \<not> is_space c) (itoa n)" by (simp add: itoa_def is_space_def byte_of_def)
qed

lemma div_less_mult: "0 < b \<Longrightarrow> a div b < s \<longleftrightarrow> a < s * (b :: int)"
proof -
  assume b: "0 < b"
  have a: "a = a div b * b + a mod b" "0 \<le> a mod b" "a mod b < b" using b by simp_all
  show ?thesis
  proof
    assume "a div b < s"
    then have "(a div b + 1) * b \<le> s * b" using b by (intro mult_right_mono) simp_all
    moreover have "(a div b + 1) * b = a div b * b + b" by (simp only: distrib_right mult_1)
    ultimately show "a < s * b" using a by linarith
  next
    assume "a < s * b"
    show "a div b < s"
    proof (rule ccontr)
      assume "\<not> a div b < s"
      then have "s * b \<le> a div b * b" using b by (intro mult_right_mono) simp_all
      with a \<open>a < s * b\<close> show False by linarith
    qed
  qed
qed

lemma ParseRetryAfter_seconds:
  assumes "min_int64 \<le> s" "s \<le> max_int64" "limit \<le> max_int64"
  shows "ParseRetryAfter date (itoa s) now limit =
    (let d = max 0 (min (s * second) max_int64) in if limit > 0 then min limit d else d)"
proof -
  have p: "parse_int64 (itoa s) = Some s" by (rule parse_itoa) (use assms in auto)
  have big: "s > max_int64 div second \<longleftrightarrow> s * second > max_int64"
    by (rule div_less_mult) (simp add: second_def)
  have lim: "s > limit div second \<longleftrightarrow> s * second > limit" by (rule div_less_mult) (simp add: second_def)
  have sgn: "s \<le> 0 \<longleftrightarrow> s * second \<le> 0" by (simp add: second_def)
  show ?thesis
    unfolding ParseRetryAfter_def Let_def trim_itoa p option.case big lim sgn
    using assms(3) by (auto simp: min_def max_def max_int64_def)
qed

text \<open>A number in the first place of a decorated value is read, unless it has a single digit: then the token taken
  is the whole value, which is no number.\<close>

lemma number_scan_digits:
  assumes "list_all is_digit ds" "ds \<noteq> []" "\<not> is_digit c" "c \<noteq> CHR ''.''"
  shows "number_scan (ds @ c # rest) i (Some n) fin False True = (Some n, Some (i + length ds), True)"
  using assms
proof (induction ds arbitrary: i fin)
  case (Cons d ds)
  then show ?case by (cases ds) (auto)
qed simp

lemma token_of_digits:
  assumes "list_all is_digit ds" "2 \<le> length ds" "\<not> is_digit c" "c \<noteq> CHR ''.''"
  shows "extractFirstNumberToken (ds @ c # rest) = ds"
proof -
  obtain d ds' where ds: "ds = d # ds'" "ds' \<noteq> []" "is_digit d" "list_all is_digit ds'"
    using assms(1,2) by (cases ds; cases "tl ds") auto
  have "d \<noteq> CHR ''+''" "d \<noteq> CHR ''-''" "d \<noteq> CHR ''.''"
    using ds(3) digit_not_sign [of d] by (auto simp: is_digit_def byte_of_def)
  then have "number_scan (ds @ c # rest) 0 None None False False = (Some 0, Some (length ds), True)"
    using ds number_scan_digits [OF ds(4,2) assms(3,4), where i = 1 and n = 0 and fin = None and rest = rest] by simp
  then show ?thesis by (simp add: extractFirstNumberToken_def)
qed

lemma token_of_digit:
  assumes "is_digit d" "\<not> is_digit c" "c \<noteq> CHR ''.''"
  shows "extractFirstNumberToken (d # c # rest) = d # c # rest"
proof -
  have "d \<noteq> CHR ''+''" "d \<noteq> CHR ''-''" "d \<noteq> CHR ''.''"
    using assms(1) digit_not_sign [of d] by (auto simp: is_digit_def byte_of_def)
  with assms show ?thesis by (simp add: extractFirstNumberToken_def)
qed

lemma nat_digits_length: "n < 10 \<Longrightarrow> length (nat_digits n) = 1" "10 \<le> n \<Longrightarrow> 2 \<le> length (nat_digits n)"
proof -
  show "n < 10 \<Longrightarrow> length (nat_digits n) = 1" by (subst nat_digits.simps) simp
  have "0 < length (nat_digits k)" for k using nat_digits_value [of k] by simp
  then show "10 \<le> n \<Longrightarrow> 2 \<le> length (nat_digits n)"
    by (subst nat_digits.simps) (auto simp: Suc_le_eq)
qed

lemma no_numeric_token:
  assumes "list_all is_digit ds" "ds \<noteq> []" "\<not> is_digit c" "c \<noteq> CHR ''.''"
  shows "parseNumericToken (ds @ c # rest) = None"
proof -
  obtain d ds' where ds: "ds = d # ds'" "is_digit d" using assms(1,2) by (cases ds) auto
  have "dropWhile is_digit (ds @ c # rest) = c # rest" using assms(1,3) by (simp add: dropWhile_append3 list_all_iff)
  with assms(3,4) ds digit_not_sign [OF ds(2)] show ?thesis by (auto simp: parseNumericToken_def Let_def)
qed

lemma numeric_token_itoa:
  assumes "0 \<le> n" "n \<le> max_int64" shows "parseNumericToken (itoa n) = Some n"
proof -
  obtain d ds where i: "itoa n = d # ds" "is_digit d" "list_all is_digit ds"
    using assms nat_digits_value [of "nat n"] by (cases "itoa n") (auto simp: itoa_def)
  then have "dropWhile is_digit (d # ds) = []" by (simp add: list_all_iff)
  with i digit_not_sign [OF i(2)] parse_itoa [of n] assms show ?thesis
    by (auto simp: parseNumericToken_def Let_def min_int64_def)
qed

text \<open>A rate-limit header that decorates its number (\<open>100;w=60\<close>) is read as that number exactly when the number has
  at least two digits; of a single digit before a decoration nothing is read, although the reader promises
  to tolerate units and decoration.\<close>

lemma ParseValue_decorated:
  assumes "0 \<le> n" "n \<le> max_int64" "\<not> is_digit c" "c \<noteq> CHR ''.''" "\<not> is_space c" "\<not> is_space (last (c # rest))"
  shows "ParseValue (itoa n @ c # rest) = (if n < 10 then None else Some n)"
proof -
  have ds: "itoa n = nat_digits (nat n)" "list_all is_digit (itoa n)" "itoa n \<noteq> []"
    using assms(1) nat_digits_value [of "nat n"] by (simp_all add: itoa_def)
  let ?raw = "itoa n @ c # rest"
  have "\<not> is_space (hd (itoa n))" using ds(2,3) digit_unspaced by (metis list_all_iff hd_in_set)
  then have "dropWhile is_space ?raw = ?raw" using ds(3) by (simp add: dropWhile_eq_self_iff hd_append)
  moreover have "dropWhile is_space (rev ?raw) = rev ?raw"
    using assms(6) by (simp add: dropWhile_eq_self_iff hd_append hd_rev split: if_splits)
  ultimately have trim: "trim_space ?raw = ?raw" by (simp add: trim_space_def)
  have token: "extractFirstNumberToken ?raw = (if n < 10 then ?raw else itoa n)"
  proof (cases "n < 10")
    case True
    then have "length (itoa n) = 1" using assms(1) ds(1) nat_digits_length(1) [of "nat n"] by simp
    then obtain d where "itoa n = [d]" by (auto simp: length_Suc_conv)
    with ds(2) have d: "itoa n = [d]" "is_digit d" by simp_all
    with True token_of_digit [OF d(2) assms(3,4)] show ?thesis by simp
  next
    case False
    with token_of_digits [OF ds(2) _ assms(3,4)] ds(1) nat_digits_length(2) [of "nat n"] show ?thesis by simp
  qed
  show ?thesis
    using trim token ds no_numeric_token [OF ds(2,3) assms(3,4)] numeric_token_itoa [OF assms(1,2)]
    by (simp add: ParseValue_def Let_def)
qed

end
