(* ===== verification/Grok_Cooldowns.thy ===== *)
theory Grok_Cooldowns
  imports Grok_Metadata Account_Policy
begin

text \<open>
  Cooldowns and pacing that the Grok planes share: the process registry \<^verbatim>\<open>internal/grok/ratelimit/cooldown.go\<close>, the
  Redis backend \<^verbatim>\<open>redis.go\<close>, what a 429 records (\<^verbatim>\<open>record.go\<close>), what a selection reads (\<^verbatim>\<open>snapshot.go\<close>) and the
  token buckets (\<^verbatim>\<open>pacing.go\<close>).

  \<^item> A replica is its \<open>Registry\<close>; the replicas share \<open>limit_db\<close>, the keys of Redis with their expiry on Redis' own
    clock in milliseconds. A \<open>limit_env\<close> is one visit: both clocks and whether Redis answers.
  \<^item> \<open>backend\<close> is the prefix of a configured backend. \<open>sha\<close> is the hexadecimal text of the first half of SHA-256.
  \<^item> A client's wait is one attempt per \<open>pace_env\<close>; \<open>None\<close> is a wait that has not ended within its list.
\<close>

section \<open>The registry of a process\<close>

definition MaxEntries :: int where "MaxEntries = 8192"
definition cooldownGCAfter :: duration where "cooldownGCAfter = minute"

record Registry =
  rg_entries :: "(string \<times> time) list"
  rg_lastGC :: time

definition NewRegistry :: "time \<Rightarrow> Registry" where
  "NewRegistry now = \<lparr>rg_entries = [], rg_lastGC = now\<rparr>"

definition cooldownKey :: "string \<Rightarrow> string \<Rightarrow> string \<Rightarrow> string" where
  "cooldownKey scope teamID model = scope @ ''|'' @ to_lower (trim_space teamID) @ ''|'' @ to_lower (trim_space model)"

definition maybeGC :: "time \<Rightarrow> Registry \<Rightarrow> Registry" where
  "maybeGC now r =
     (if int (length (rg_entries r)) < MaxEntries \<and> time_sub now (rg_lastGC r) < cooldownGCAfter then r
      else \<lparr>rg_entries = filter (\<lambda>(key, u). u > now) (rg_entries r), rg_lastGC = now\<rparr>)"

text \<open>\<open>Note\<close> under the lock of the registry, for a cooldown that is noted at all; the flag says that it was new.\<close>

definition note_local :: "time \<Rightarrow> string \<Rightarrow> duration \<Rightarrow> Registry \<Rightarrow> bool \<times> Registry" where
  "note_local now key retryAfter r =
     (let u = now + retryAfter in
      if (case map_of (rg_entries r) key of None \<Rightarrow> False | Some cur \<Rightarrow> cur > u) then (False, r)
      else (True, maybeGC now (r\<lparr>rg_entries := AList.update key u (rg_entries r)\<rparr>)))"

definition LocalRetryAfterFor :: "time \<Rightarrow> string \<Rightarrow> string \<Rightarrow> string \<Rightarrow> Registry \<Rightarrow> duration \<times> Registry" where
  "LocalRetryAfterFor now scope teamID model r =
     (if trim_space teamID = [] then (0, r)
      else let key = cooldownKey scope teamID model in
        case map_of (rg_entries r) key of
          None \<Rightarrow> (0, r)
        | Some u \<Rightarrow> if u > now then (time_sub u now, r)
                    else (0, r\<lparr>rg_entries := AList.delete key (rg_entries r)\<rparr>))"

section \<open>The shared backend\<close>

type_synonym limit_db = "(string \<times> int) list"

record limit_env =
  le_now :: time
  le_clock :: int
  le_answers :: bool

definition pttl :: "string \<Rightarrow> int \<Rightarrow> limit_db \<Rightarrow> int" where
  "pttl key clock db = (case map_of db key of None \<Rightarrow> -2 | Some e \<Rightarrow> if clock < e then e - clock else -2)"

text \<open>The script \<open>note\<close>; a \<open>PSETEX\<close> of no time fails and changes nothing.\<close>

definition note_script :: "string \<Rightarrow> int \<Rightarrow> int \<Rightarrow> limit_db \<Rightarrow> limit_db" where
  "note_script key wanted clock db =
     (if pttl key clock db < wanted \<and> wanted > 0 then AList.update key (clock + wanted) db else db)"

text \<open>The script \<open>pace\<close>.\<close>

definition pace_script :: "string \<Rightarrow> int \<Rightarrow> int \<Rightarrow> limit_db \<Rightarrow> int \<times> limit_db" where
  "pace_script key interval clock db =
     (if pttl key clock db < 0 then (0, AList.update key (clock + interval) db)
      else (max 1 (pttl key clock db), db))"

text \<open>\<open>fmt.Sprint\<close> of a slice of strings.\<close>

fun sprint_parts :: "string list \<Rightarrow> string" where
  "sprint_parts [] = []"
| "sprint_parts [p] = p"
| "sprint_parts (p # ps) = p @ '' '' @ sprint_parts ps"

definition backend_key :: "(string \<Rightarrow> string) \<Rightarrow> string \<Rightarrow> string \<Rightarrow> string list \<Rightarrow> string" where
  "backend_key sha pre kind parts = pre @ kind @ '':'' @ sha (''['' @ sprint_parts parts @ '']'')"

definition noteCooldown ::
  "(string \<Rightarrow> string) \<Rightarrow> string \<Rightarrow> limit_env \<Rightarrow> string \<Rightarrow> string \<Rightarrow> string \<Rightarrow> duration \<Rightarrow> limit_db \<Rightarrow> limit_db" where
  "noteCooldown sha pre e scope identity model d db =
     (if d \<le> 0 \<or> \<not> le_answers e then db
      else note_script (backend_key sha pre ''cooldown'' [scope, identity, model]) (d div millisecond) (le_clock e) db)"

definition cooldownRemaining ::
  "(string \<Rightarrow> string) \<Rightarrow> string \<Rightarrow> limit_env \<Rightarrow> string \<Rightarrow> string \<Rightarrow> string \<Rightarrow> limit_db \<Rightarrow> duration" where
  "cooldownRemaining sha pre e scope identity model db =
     (if \<not> le_answers e then 0
      else max 0 (pttl (backend_key sha pre ''cooldown'' [scope, identity, model]) (le_clock e) db * millisecond))"

definition Note ::
  "(string \<Rightarrow> string) \<Rightarrow> string option \<Rightarrow> limit_env \<Rightarrow> string \<Rightarrow> string \<Rightarrow> string \<Rightarrow> duration \<Rightarrow>
   Registry \<times> limit_db \<Rightarrow> Registry \<times> limit_db" where
  "Note sha backend e scope teamID model retryAfter0 w =
     (if trim_space teamID = [] \<or> trim_space model = [] then w
      else
        let (r, db) = w;
            retryAfter = (if retryAfter0 \<le> 0 then minute else retryAfter0);
            (new, r') = note_local (le_now e) (cooldownKey scope teamID model) retryAfter r
        in case (if new then backend else None) of
             None \<Rightarrow> (r', db)
           | Some pre \<Rightarrow> (r', noteCooldown sha pre e scope teamID model retryAfter db))"

definition RetryAfterFor ::
  "(string \<Rightarrow> string) \<Rightarrow> string option \<Rightarrow> limit_env \<Rightarrow> string \<Rightarrow> string \<Rightarrow> string \<Rightarrow> Registry \<times> limit_db \<Rightarrow> duration \<times> Registry" where
  "RetryAfterFor sha backend e scope teamID model w =
     (let (r, db) = w; (remaining, r') = LocalRetryAfterFor (le_now e) scope teamID model r in
      case backend of
        None \<Rightarrow> (remaining, r')
      | Some pre \<Rightarrow> (max remaining (cooldownRemaining sha pre e scope teamID model db), r'))"

section \<open>Recording a 429\<close>

definition FirstNonEmpty :: "string list \<Rightarrow> string" where
  "FirstNonEmpty values = (case filter (\<lambda>v. v \<noteq> []) (map trim_space values) of [] \<Rightarrow> [] | v # _ \<Rightarrow> v)"

fun unique_strings :: "string set \<Rightarrow> string list \<Rightarrow> string list" where
  "unique_strings seen [] = []"
| "unique_strings seen (item # items) =
     (let t = trim_space item in
      if t = [] \<or> t \<in> seen then unique_strings seen items else t # unique_strings (insert t seen) items)"

definition UniqueStrings :: "string list \<Rightarrow> string list" where
  "UniqueStrings input = unique_strings {} input"

text \<open>The notes of one 429; the visits to Redis have their own environments.\<close>

fun note_targets ::
  "(string \<Rightarrow> string) \<Rightarrow> string option \<Rightarrow> (nat \<Rightarrow> limit_env) \<Rightarrow> nat \<Rightarrow> string \<Rightarrow> string \<Rightarrow> Metadata \<Rightarrow> string list \<Rightarrow>
   Registry \<times> limit_db \<Rightarrow> Registry \<times> limit_db" where
  "note_targets sha backend env k provider identity m [] w = w"
| "note_targets sha backend env k provider identity m (target # ts) w =
     (let w1 = Note sha backend (env k) (md_Scope m) identity target (md_RetryAfter m) w;
          w2 = (if md_TeamID m \<noteq> []
                then Note sha backend (env (Suc k)) (md_Scope m) (provider @ '':team:'' @ md_TeamID m) target (md_RetryAfter m) w1
                else w1)
      in note_targets sha backend env (k + 2) provider identity m ts w2)"

definition recorded_metadata ::
  "(string \<Rightarrow> time option) \<Rightarrow> time \<Rightarrow> (string \<Rightarrow> string) \<Rightarrow> body \<Rightarrow> Metadata" where
  "recorded_metadata date now header b =
     (let m = (case FromResponse date now 429 (Some header) b of
                 Some m \<Rightarrow> m
               | None \<Rightarrow> \<lparr>md_Scope = ScopeRPM, md_TeamID = [], md_Model = [], md_Actual = 0, md_Limit = 0, md_RetryAfter = minute\<rparr>);
          retry = ParseRetryAfter date (header ''Retry-After'') now 0
      in m\<lparr>md_RetryAfter := BoundRateLimitCooldown (if retry > 0 then retry else md_RetryAfter m)\<rparr>)"

definition Record ::
  "(string \<Rightarrow> string) \<Rightarrow> (string \<Rightarrow> time option) \<Rightarrow> string option \<Rightarrow> (nat \<Rightarrow> limit_env) \<Rightarrow> string \<Rightarrow> string \<Rightarrow> string \<Rightarrow> int \<Rightarrow>
   (string \<Rightarrow> string) \<Rightarrow> body \<Rightarrow> Registry \<times> limit_db \<Rightarrow> Metadata option \<times> Registry \<times> limit_db" where
  "Record sha date backend env provider identity model status header b w =
     (if status \<noteq> 429 then (None, w)
      else let m = recorded_metadata date (le_now (env 0)) header b in
        (Some m, note_targets sha backend env 0 provider identity m
           (UniqueStrings [FirstNonEmpty [model, md_Model m, ''*''], md_Model m]) w))"

section \<open>What a selection reads\<close>

type_synonym Query = "string \<times> string \<times> string"

definition Queries :: "string \<Rightarrow> string \<Rightarrow> Query list" where
  "Queries identity model =
     concat (map (\<lambda>scope. map (\<lambda>target. (scope, identity, target)) (UniqueStrings [model, ''*''])) [ScopeRPS, ScopeRPM])"

definition cooldownsRemaining ::
  "(string \<Rightarrow> string) \<Rightarrow> string \<Rightarrow> limit_env \<Rightarrow> Query list \<Rightarrow> limit_db \<Rightarrow> (Query \<times> duration) list" where
  "cooldownsRemaining sha pre e queries db =
     (if \<not> le_answers e then []
      else filter (\<lambda>(q, d). d > 0)
        (map (\<lambda>q. (q, case q of (scope, identity, model) \<Rightarrow>
                pttl (backend_key sha pre ''cooldown'' [scope, identity, model]) (le_clock e) db * millisecond)) queries))"

text \<open>\<open>ctx k\<close> is the cause of the context's end at its \<open>k\<close>th look.\<close>

definition Prepare ::
  "(string \<Rightarrow> string) \<Rightarrow> string option \<Rightarrow> (nat \<Rightarrow> string option) \<Rightarrow> limit_env \<Rightarrow> Query list \<Rightarrow> limit_db \<Rightarrow> (Query \<times> time) list \<Rightarrow>
   string option \<times> (Query \<times> time) list" where
  "Prepare sha backend ctx e queries db deadlines =
     (case ctx 0 of
        Some cause \<Rightarrow> (Some cause, deadlines)
      | None \<Rightarrow>
          let missing = rev (remdups (rev (filter (\<lambda>q. map_of deadlines q = None) queries))) in
          if missing = [] then (None, deadlines)
          else case (if backend = None then None else ctx 1) of
            Some cause \<Rightarrow> (Some cause, deadlines)
          | None \<Rightarrow>
              let shared = (case backend of None \<Rightarrow> [] | Some pre \<Rightarrow> cooldownsRemaining sha pre e missing db)
              in (None, map (\<lambda>q. (q, case map_of shared q of None \<Rightarrow> 0 | Some d \<Rightarrow> le_now e + d)) missing @ deadlines))"

fun check_queries :: "time \<Rightarrow> (Query \<times> time) list \<Rightarrow> Query list \<Rightarrow> Registry \<Rightarrow> (Query \<times> duration) option \<times> Registry" where
  "check_queries now deadlines [] r = (None, r)"
| "check_queries now deadlines (q # qs) r =
     (case q of (scope, identity, model) \<Rightarrow>
        let (here, r') = LocalRetryAfterFor now scope identity model r;
            shared = time_sub (case map_of deadlines q of None \<Rightarrow> 0 | Some t \<Rightarrow> t) now;
            remaining = max here shared
        in if remaining > 0 then (Some (q, remaining), r') else check_queries now deadlines qs r')"

definition Check ::
  "string option \<Rightarrow> time \<Rightarrow> Query list \<Rightarrow> (Query \<times> time) list \<Rightarrow> Registry \<Rightarrow> (string + (Query \<times> duration) option) \<times> Registry" where
  "Check ctx now queries deadlines r =
     (case ctx of
        Some cause \<Rightarrow> (Inl cause, r)
      | None \<Rightarrow> (case check_queries now deadlines queries r of (hit, r') \<Rightarrow> (Inr hit, r')))"

text \<open>\<open>e\<close> is the visit of \<open>Prepare\<close>, \<open>now\<close> the clock of \<open>Check\<close>.\<close>

definition Active ::
  "(string \<Rightarrow> string) \<Rightarrow> string option \<Rightarrow> (nat \<Rightarrow> string option) \<Rightarrow> limit_env \<Rightarrow> time \<Rightarrow> string \<Rightarrow> string \<Rightarrow> Registry \<times> limit_db \<Rightarrow>
   (string + (Query \<times> duration) option) \<times> Registry" where
  "Active sha backend ctx e now identity model w =
     (case Prepare sha backend ctx e (Queries identity model) (snd w) [] of
        (Some err, _) \<Rightarrow> (Inl err, fst w)
      | (None, deadlines) \<Rightarrow> Check (ctx 2) now (Queries identity model) deadlines (fst w))"

section \<open>Pacing\<close>

record tokenBucket =
  tb_rate :: rat
  tb_burst :: rat
  tb_tokens :: rat
  tb_lastUpdate :: time

definition newTokenBucket :: "time \<Rightarrow> rat \<Rightarrow> rat \<Rightarrow> tokenBucket" where
  "newTokenBucket now ratePerSec burst =
     \<lparr>tb_rate = ratePerSec, tb_burst = burst, tb_tokens = burst, tb_lastUpdate = now\<rparr>"

text \<open>One pass of \<open>wait\<close> under the bucket's lock: the wait before the next pass, or none with a token taken.\<close>

definition bucket_take :: "time \<Rightarrow> tokenBucket \<Rightarrow> duration option \<times> tokenBucket" where
  "bucket_take now tb =
     (let elapsed = seconds_of (time_sub now (tb_lastUpdate tb));
          refilled = float64 (tb_tokens tb + float64 (elapsed * tb_rate tb));
          tokens = (if refilled > tb_burst tb then tb_burst tb else refilled);
          tb1 = tb\<lparr>tb_tokens := tokens, tb_lastUpdate := now\<rparr>
      in if tokens \<ge> 1 then (None, tb1\<lparr>tb_tokens := float64 (tokens - 1)\<rparr>)
         else let w = float_to_int (float64 (float64 (float64 (1 - tokens) / tb_rate tb) * of_int second))
              in (Some (if w < 50 * millisecond then 50 * millisecond else if w > 5 * second then 5 * second else w), tb1))"

text \<open>A pass at each clock reading; the context may end before a pass or during a wait.\<close>

fun bucket_wait :: "(string option \<times> time \<times> string option) list \<Rightarrow> tokenBucket \<Rightarrow> (string option \<times> tokenBucket) option" where
  "bucket_wait [] tb = None"
| "bucket_wait ((err, now, cancelled) # es) tb =
     (case err of
        Some err \<Rightarrow> Some (Some err, tb)
      | None \<Rightarrow>
          (case bucket_take now tb of
             (None, tb') \<Rightarrow> Some (None, tb')
           | (Some d, tb') \<Rightarrow> (case cancelled of Some err \<Rightarrow> Some (Some err, tb') | None \<Rightarrow> bucket_wait es tb')))"

record pace_env =
  pe_clock :: int
  pe_fails :: "string option"
  pe_cancelled :: "string option"

definition pace_interval :: "rat \<Rightarrow> duration" where
  "pace_interval rate = max (float_to_int (float64 (of_int second / rate))) millisecond"

fun pace_loop :: "string \<Rightarrow> int \<Rightarrow> pace_env list \<Rightarrow> limit_db \<Rightarrow> (string option \<times> limit_db) option" where
  "pace_loop key interval [] db = None"
| "pace_loop key interval (e # es) db =
     (case pe_fails e of
        Some err \<Rightarrow> Some (Some err, db)
      | None \<Rightarrow>
          (case pace_script key interval (pe_clock e) db of
             (remaining, db') \<Rightarrow>
               if remaining = 0 then Some (None, db')
               else (case pe_cancelled e of Some err \<Rightarrow> Some (Some err, db') | None \<Rightarrow> pace_loop key interval es db')))"

definition waitPacing ::
  "(string \<Rightarrow> string) \<Rightarrow> string \<Rightarrow> pace_env list \<Rightarrow> string \<Rightarrow> rat \<Rightarrow> limit_db \<Rightarrow> (string option \<times> limit_db) option" where
  "waitPacing sha pre es identity rate db =
     (if rate \<le> 0 then Some (None, db)
      else pace_loop (backend_key sha pre ''pace'' [identity]) (pace_interval rate div millisecond) es db)"


text \<open>The buckets of a process; the list is the order in which a visit of the map meets them, \<open>clock\<close> what
  \<open>time.Since\<close> reads at each.\<close>

type_synonym limiters = "(string \<times> tokenBucket) list"

definition evict_idle :: "(string \<Rightarrow> time) \<Rightarrow> limiters \<Rightarrow> limiters" where
  "evict_idle clock limiters =
     (case find (\<lambda>(existing, candidate). time_sub (clock existing) (tb_lastUpdate candidate) > minute) limiters of
        None \<Rightarrow> limiters
      | Some (existing, candidate) \<Rightarrow> AList.delete existing limiters)"

definition new_bucket :: "(string \<Rightarrow> time) \<Rightarrow> time \<Rightarrow> string \<Rightarrow> rat \<Rightarrow> limiters \<Rightarrow> (string + tokenBucket) \<times> limiters" where
  "new_bucket clock now key rate limiters =
     (let room = (if int (length limiters) \<ge> MaxEntries then evict_idle clock limiters else limiters);
          tb = newTokenBucket now rate 1
      in if int (length room) \<ge> MaxEntries then (Inl ''grok pacing registry capacity reached'', room)
         else (Inr tb, AList.update key tb room))"

definition bucket_for :: "(string \<Rightarrow> time) \<Rightarrow> time \<Rightarrow> string \<Rightarrow> rat \<Rightarrow> limiters \<Rightarrow> (string + tokenBucket) \<times> limiters" where
  "bucket_for clock now key rate limiters =
     (case map_of limiters key of
        Some tb \<Rightarrow> if tb_rate tb \<noteq> rate then new_bucket clock now key rate limiters else (Inr tb, limiters)
      | None \<Rightarrow> new_bucket clock now key rate limiters)"

text \<open>\<open>cause\<close> is the context's error after Redis failed; \<open>visits\<close> are the passes at the process' own bucket.\<close>

definition WaitPacing ::
  "(string \<Rightarrow> string) \<Rightarrow> string option \<Rightarrow> pace_env list \<Rightarrow> string option \<Rightarrow> (string \<Rightarrow> time) \<Rightarrow> time \<Rightarrow>
   (string option \<times> time \<times> string option) list \<Rightarrow> string \<Rightarrow> rat \<Rightarrow> limiters \<times> limit_db \<Rightarrow>
   (string option \<times> limiters \<times> limit_db) option" where
  "WaitPacing sha backend es cause clock now visits key rate w =
     (if rate \<le> 0 then Some (None, w)
      else
        let (limiters, db) = w;
            local = (\<lambda>db. case bucket_for clock now key rate limiters of
                (Inl err, limiters') \<Rightarrow> Some (Some err, limiters', db)
              | (Inr tb, limiters') \<Rightarrow>
                  (case bucket_wait visits tb of
                     None \<Rightarrow> None
                   | Some (err, tb') \<Rightarrow> Some (err, AList.update key tb' limiters', db)))
        in case backend of
             None \<Rightarrow> local db
           | Some pre \<Rightarrow>
               (case waitPacing sha pre es key rate db of
                  None \<Rightarrow> None
                | Some (None, db') \<Rightarrow> Some (None, limiters, db')
                | Some (Some err, db') \<Rightarrow> (case cause of Some c \<Rightarrow> Some (Some c, limiters, db') | None \<Rightarrow> local db')))"

text \<open>The process' buckets are bounded, and an active bucket is not given up for another key.\<close>

lemma length_update: "length (AList.update k v xs) = (if k \<in> fst ` set xs then length xs else Suc (length xs))"
  by (induction xs) auto

lemma length_delete: "length (AList.delete k xs) \<le> length xs"
  by (simp add: AList.delete_eq)

lemma evict_idle_length: "length (evict_idle clock limiters) \<le> length limiters"
  by (simp add: evict_idle_def length_delete split: option.split)

lemma bucket_for_bounded:
  assumes "int (length limiters) \<le> MaxEntries"
  shows "int (length (snd (bucket_for clock now key rate limiters))) \<le> MaxEntries"
proof -
  have "int (length (evict_idle clock limiters)) \<le> MaxEntries"
    using assms evict_idle_length [of clock limiters] by linarith
  with assms show ?thesis
    by (auto simp: bucket_for_def new_bucket_def Let_def length_update split: option.split)
qed

lemma active_bucket_kept:
  assumes "map_of limiters other = Some tb" "time_sub (clock other) (tb_lastUpdate tb) \<le> minute" "other \<noteq> key"
    and "distinct (map fst limiters)"
  shows "map_of (snd (bucket_for clock now key rate limiters)) other = Some tb"
proof -
  have "map_of (evict_idle clock limiters) other = Some tb"
    using assms(1,2,4)
    by (auto simp: evict_idle_def delete_conv find_Some_iff split: option.split)
       (metis assms(1,2,4) map_of_is_SomeI not_le nth_mem option.inject)
  with assms(1,3) show ?thesis
    by (auto simp: bucket_for_def new_bucket_def Let_def update_conv split: option.split)
qed

section \<open>The registry remembers the latest deadline\<close>

datatype registry_op = Noted time string string string duration | Looked time string string string

fun op_time :: "registry_op \<Rightarrow> time" where
  "op_time (Noted t scope team model d) = t"
| "op_time (Looked t scope team model) = t"

fun apply_op :: "registry_op \<Rightarrow> Registry \<Rightarrow> Registry" where
  "apply_op (Noted t scope team model d) r =
     fst (Note id None \<lparr>le_now = t, le_clock = 0, le_answers = False\<rparr> scope team model d (r, []))"
| "apply_op (Looked t scope team model) r = snd (LocalRetryAfterFor t scope team model r)"

text \<open>Every deadline ever noted for a key.\<close>

fun noted :: "string \<Rightarrow> registry_op list \<Rightarrow> time list" where
  "noted key [] = []"
| "noted key (Noted t scope team model d # ops) =
     (if trim_space team \<noteq> [] \<and> trim_space model \<noteq> [] \<and> cooldownKey scope team model = key
      then (t + (if d \<le> 0 then minute else d)) # noted key ops else noted key ops)"
| "noted key (Looked t scope team model # ops) = noted key ops"

text \<open>A registry stands for the deadlines \<open>D\<close>: what it holds of a key is the latest, and what it lacks is over.\<close>

definition stands_for :: "Registry \<Rightarrow> (string \<Rightarrow> time set) \<Rightarrow> time \<Rightarrow> bool" where
  "stands_for r D now \<longleftrightarrow> (\<forall>key. case map_of (rg_entries r) key of
       None \<Rightarrow> \<forall>v \<in> D key. v \<le> now
     | Some u \<Rightarrow> u \<in> D key \<and> (\<forall>v \<in> D key. v \<le> u))"

lemma stands_for_later: "stands_for r D now \<Longrightarrow> now \<le> later \<Longrightarrow> stands_for r D later"
  by (force simp: stands_for_def split: option.splits)

lemma map_of_live: "map_of (filter (\<lambda>(key, u). u > now) xs) key =
  (case map_of xs key of Some u \<Rightarrow> if u > now then Some u else map_of (filter (\<lambda>(key, u). u > now) xs) key
   | None \<Rightarrow> None)"
  by (induction xs) (auto split: option.splits)

definition unique_keys :: "Registry \<Rightarrow> bool" where
  "unique_keys r \<longleftrightarrow> distinct (map fst (rg_entries r))"

lemma map_of_live_distinct: "distinct (map fst xs) \<Longrightarrow>
  map_of (filter (\<lambda>(key, u). u > now) xs) key = (case map_of xs key of Some u \<Rightarrow> if u > (now :: int) then Some u else None | None \<Rightarrow> None)"
  by (induction xs) (auto split: option.splits simp: map_of_eq_None_iff dest: weak_map_of_SomeI)

lemma gc_stands:
  assumes "stands_for r D now" "unique_keys r"
  shows "stands_for (maybeGC now r) D now" "unique_keys (maybeGC now r)"
proof -
  have "map_of (filter (\<lambda>(key, u). u > now) (rg_entries r)) key =
      (case map_of (rg_entries r) key of Some u \<Rightarrow> if u > now then Some u else None | None \<Rightarrow> None)" for key
    using assms(2) by (intro map_of_live_distinct) (simp add: unique_keys_def)
  with assms(1) show "stands_for (maybeGC now r) D now"
    by (fastforce simp: maybeGC_def stands_for_def split: option.splits if_splits)
  show "unique_keys (maybeGC now r)"
    using assms(2) by (auto simp: maybeGC_def unique_keys_def distinct_map inj_on_def intro: distinct_filter)
qed

lemma note_stands:
  assumes "stands_for r D now" "unique_keys r" "0 < d"
  shows "stands_for (snd (note_local now key d r)) (D(key := insert (now + d) (D key))) now"
    "unique_keys (snd (note_local now key d r))"
proof -
  let ?D = "D(key := insert (now + d) (D key))"
  let ?r = "r\<lparr>rg_entries := AList.update key (now + d) (rg_entries r)\<rparr>"
  have key: "case map_of (rg_entries r) k of None \<Rightarrow> \<forall>v \<in> D k. v \<le> now | Some u \<Rightarrow> u \<in> D k \<and> (\<forall>v \<in> D k. v \<le> u)" for k
    using assms(1) by (simp add: stands_for_def)
  have "stands_for (snd (note_local now key d r)) ?D now \<and> unique_keys (snd (note_local now key d r))"
  proof (cases "\<exists>cur. map_of (rg_entries r) key = Some cur \<and> cur > now + d")
    case True
    then obtain cur where cur: "map_of (rg_entries r) key = Some cur" "cur > now + d" by auto
    have "case map_of (rg_entries r) k of None \<Rightarrow> \<forall>v \<in> ?D k. v \<le> now | Some u \<Rightarrow> u \<in> ?D k \<and> (\<forall>v \<in> ?D k. v \<le> u)" for k
      using key [of k] cur by (cases "k = key") (auto split: option.splits)
    then show ?thesis using assms(2) cur by (simp add: note_local_def Let_def stands_for_def)
  next
    case False
    then have eq: "snd (note_local now key d r) = maybeGC now ?r" by (auto simp: note_local_def Let_def split: option.splits)
    have "stands_for ?r ?D now"
      unfolding stands_for_def
    proof
      fix k
      show "case map_of (rg_entries ?r) k of None \<Rightarrow> \<forall>v \<in> ?D k. v \<le> now | Some u \<Rightarrow> u \<in> ?D k \<and> (\<forall>v \<in> ?D k. v \<le> u)"
      proof (cases "k = key")
        case True
        with key [of key] False assms(3) show ?thesis by (fastforce simp: update_conv split: option.splits)
      qed (use key [of k] in \<open>simp add: update_conv split: option.splits\<close>)
    qed
    moreover have "unique_keys ?r" using assms(2) by (simp add: unique_keys_def distinct_update)
    ultimately show ?thesis unfolding eq using gc_stands by blast
  qed
  then show "stands_for (snd (note_local now key d r)) ?D now" "unique_keys (snd (note_local now key d r))" by blast+
qed

lemma look_stands:
  assumes "stands_for r D now" "unique_keys r"
  shows "stands_for (snd (LocalRetryAfterFor now scope team model r)) D now"
    "unique_keys (snd (LocalRetryAfterFor now scope team model r))"
    "trim_space team \<noteq> [] \<Longrightarrow> finite (D (cooldownKey scope team model)) \<Longrightarrow>
     fst (LocalRetryAfterFor now scope team model r) =
       (if \<exists>u \<in> D (cooldownKey scope team model). u > now then time_sub (Max (D (cooldownKey scope team model))) now else 0)"
proof -
  let ?key = "cooldownKey scope team model"
  have key: "case map_of (rg_entries r) k of None \<Rightarrow> \<forall>v \<in> D k. v \<le> now | Some u \<Rightarrow> u \<in> D k \<and> (\<forall>v \<in> D k. v \<le> u)" for k
    using assms(1) by (simp add: stands_for_def)
  have gone: "map_of (AList.delete ?key (rg_entries r)) k = (if k = ?key then None else map_of (rg_entries r) k)" for k
    by (simp add: delete_conv)
  show "stands_for (snd (LocalRetryAfterFor now scope team model r)) D now"
    using key key [of ?key] gone
    by (fastforce simp: LocalRetryAfterFor_def Let_def stands_for_def split: option.splits)
  show "unique_keys (snd (LocalRetryAfterFor now scope team model r))"
    using assms(2) by (auto simp: LocalRetryAfterFor_def Let_def unique_keys_def distinct_delete split: option.splits)
  show "fst (LocalRetryAfterFor now scope team model r) =
      (if \<exists>u \<in> D ?key. u > now then time_sub (Max (D ?key)) now else 0)" if "trim_space team \<noteq> []" "finite (D ?key)"
  proof (cases "map_of (rg_entries r) ?key")
    case None
    with key [of ?key] that show ?thesis by (auto simp: LocalRetryAfterFor_def Let_def)
  next
    case (Some u)
    with key [of ?key] have u: "u \<in> D ?key" "\<forall>v \<in> D ?key. v \<le> u" by auto
    then have "Max (D ?key) = u" using that(2) by (intro Max_eqI) auto
    with Some u that(1) show ?thesis by (fastforce simp: LocalRetryAfterFor_def Let_def)
  qed
qed

lemma op_stands:
  assumes "stands_for r D now" "unique_keys r" "now \<le> op_time op"
  shows "stands_for (apply_op op r) (\<lambda>key. D key \<union> set (noted key [op])) (op_time op)" "unique_keys (apply_op op r)"
proof -
  have "stands_for (apply_op op r) (\<lambda>key. D key \<union> set (noted key [op])) (op_time op) \<and> unique_keys (apply_op op r)"
  proof (cases op)
    case (Noted t scope team model d)
    have s: "stands_for r D t" using stands_for_later [OF assms(1)] assms(3) Noted by simp
    show ?thesis
    proof (cases "trim_space team = [] \<or> trim_space model = []")
      case True
      with s assms(2) Noted show ?thesis by (auto simp: Note_def)
    next
      case False
      let ?d = "if d \<le> 0 then minute else d"
      have "0 < ?d" by (simp add: minute_def)
      note n = note_stands [OF s assms(2) this, of "cooldownKey scope team model"]
      have "(\<lambda>key. D key \<union> set (noted key [op])) =
          D(cooldownKey scope team model := insert (t + ?d) (D (cooldownKey scope team model)))"
        using False Noted by (intro ext) auto
      moreover have "apply_op op r = snd (note_local t (cooldownKey scope team model) ?d r)"
        using False Noted by (auto simp: Note_def Let_def split: prod.split)
      ultimately show ?thesis using n Noted by simp
    qed
  next
    case (Looked t scope team model)
    have s: "stands_for r D t" using stands_for_later [OF assms(1)] assms(3) Looked by simp
    show ?thesis using look_stands(1,2) [OF s assms(2)] Looked by simp
  qed
  then show "stands_for (apply_op op r) (\<lambda>key. D key \<union> set (noted key [op])) (op_time op)" "unique_keys (apply_op op r)"
    by blast+
qed

lemma run_stands:
  assumes "stands_for r D now" "unique_keys r" "sorted (now # map op_time ops)" "\<forall>op \<in> set ops. op_time op \<le> later" "now \<le> later"
  shows "stands_for (fold apply_op ops r) (\<lambda>key. D key \<union> set (noted key ops)) later" "unique_keys (fold apply_op ops r)"
  using assms
proof (induction ops arbitrary: r D now)
  case Nil
  { case 1 then show ?case using stands_for_later by simp }
  { case 2 then show ?case by simp }
next
  case (Cons op ops)
  let ?t = "op_time op"
  let ?D = "\<lambda>D key. D key \<union> set (noted key [op])"
  have D: "(\<lambda>key. ?D D key \<union> set (noted key ops)) = (\<lambda>key. D key \<union> set (noted key (op # ops)))" for D
    by (rule ext, cases op) auto
  { case 1
    have "stands_for (fold apply_op ops (apply_op op r)) (\<lambda>key. ?D D key \<union> set (noted key ops)) later"
      by (rule Cons.IH(1) [of "apply_op op r" "?D D" ?t]) (use 1 op_stands [OF 1(1,2)] in auto)
    then show ?case unfolding D by simp }
  { case 2
    then show ?case using op_stands [OF 2(1,2)] Cons.IH(2) [of "apply_op op r" "?D D" ?t] by simp }
qed

text \<open>C24.
  The registry forgets nothing that still counts: after any notes and lookups at advancing times, however often
  it was swept, a lookup answers the time left to the latest deadline ever noted for the key, and zero when all
  of them are over.\<close>

theorem registry_remembers_latest:
  assumes "sorted (start # map op_time ops)" "\<forall>op \<in> set ops. op_time op \<le> now" "start \<le> now" "trim_space team \<noteq> []"
  shows "fst (LocalRetryAfterFor now scope team model (fold apply_op ops (NewRegistry start))) =
    (let D = noted (cooldownKey scope team model) ops in
     if \<exists>u \<in> set D. u > now then time_sub (Max (set D)) now else 0)"
proof -
  have "stands_for (NewRegistry start) (\<lambda>_. {}) start" "unique_keys (NewRegistry start)"
    by (simp_all add: stands_for_def NewRegistry_def unique_keys_def)
  note run = run_stands [OF this assms(1,2,3)]
  show ?thesis using look_stands(3) [OF run assms(4), of scope model] by (simp add: Let_def)
qed

theorem registry_remembers_latest_witness:
  "fst (LocalRetryAfterFor (60 * second) ScopeRPM ''build:a'' ''M'' (fold apply_op
      [Noted 0 ScopeRPM ''build:a'' ''m'' (90 * second), Noted (10 * second) ScopeRPM ''build:a'' ''m'' (20 * second)] (NewRegistry 0))) =
    30 * second"
proof -
  let ?ops = "[Noted 0 ScopeRPM ''build:a'' ''m'' (90 * second), Noted (10 * second) ScopeRPM ''build:a'' ''m'' (20 * second)]"
  have keys: "noted (cooldownKey ScopeRPM ''build:a'' ''M'') ?ops = [90 * second, 30 * second]" by code_simp
  have "trim_space ''build:a'' \<noteq> []" by code_simp
  with registry_remembers_latest [of 0 ?ops "60 * second" "''build:a''" ScopeRPM "''M''"] show ?thesis
    unfolding keys Let_def by (simp add: second_def time_sub_def saturate64_def max_int64_def min_int64_def)
qed

section \<open>A cooldown noted by one replica holds in all\<close>

text \<open>What any replica does to the shared keys.\<close>

inductive limit_step :: "limit_db \<Rightarrow> limit_db \<Rightarrow> bool" where
  step_note: "limit_step db (snd (Note sha backend e scope team model d (r, db)))"
| step_pace: "0 < interval \<Longrightarrow> limit_step db (snd (pace_script key interval clock db))"

definition lasts_until :: "string \<Rightarrow> int \<Rightarrow> limit_db \<Rightarrow> bool" where
  "lasts_until key e db \<longleftrightarrow> (\<exists>x \<ge> e. map_of db key = Some x)"

lemma note_script_lasts: "lasts_until key e db \<Longrightarrow> lasts_until key e (note_script k w c db)"
  by (auto simp: lasts_until_def note_script_def pttl_def update_conv split: if_splits)

lemma note_script_notes: "0 < w \<Longrightarrow> lasts_until key (c + w) (note_script key w c db)"
  by (auto simp: lasts_until_def note_script_def pttl_def update_conv split: option.splits if_splits)

lemma Note_lasts: "lasts_until key e (snd w) \<Longrightarrow> lasts_until key e (snd (Note sha backend env scope team model d w))"
  by (auto simp: Note_def noteCooldown_def Let_def note_script_lasts split: prod.splits option.splits)

lemma limit_step_lasts: "limit_step db db' \<Longrightarrow> lasts_until key e db \<Longrightarrow> lasts_until key e db'"
proof (induction rule: limit_step.induct)
  case (step_note db sha backend env scope team model d r)
  then show ?case using Note_lasts [of key e "(r, db)"] by simp
next
  case (step_pace interval db k clock)
  then show ?case by (auto simp: lasts_until_def pace_script_def pttl_def update_conv split: if_splits)
qed

lemma limit_steps_last: "limit_step\<^sup>*\<^sup>* db db' \<Longrightarrow> lasts_until key e db \<Longrightarrow> lasts_until key e db'"
  by (induction rule: rtranclp_induct) (auto intro: limit_step_lasts)

lemma targets_last: "lasts_until key e (snd w) \<Longrightarrow> lasts_until key e (snd (note_targets sha backend env k provider identity m ts w))"
  by (induction ts arbitrary: k w) (auto simp: Let_def Note_lasts)

text \<open>C25.
  Pacing holds across replicas: between two grants of a pacing slot at Redis, whoever asked and whatever else
  was noted or paced in between, at least the interval of the first grant has passed.\<close>

theorem pacing_grants_spaced:
  assumes "pace_script key interval clock db = (0, db1)" "0 < interval" "limit_step\<^sup>*\<^sup>* db1 db2"
    and "pace_script key interval' clock' db2 = (0, db3)"
  shows "clock + interval \<le> clock'"
proof -
  have "lasts_until key (clock + interval) db1"
    using assms(1) by (auto simp: pace_script_def lasts_until_def update_conv split: if_splits)
  then have "lasts_until key (clock + interval) db2" by (rule limit_steps_last [OF assms(3)])
  moreover have "pttl key clock' db2 < 0"
    using assms(4) by (auto simp: pace_script_def split: if_splits)
  ultimately show ?thesis by (auto simp: lasts_until_def pttl_def split: if_splits)
qed

theorem pacing_grants_spaced_witness:
  "pace_script ''k'' 500 1000 [] = (0, [(''k'', 1500)]) \<and> pace_script ''k'' 500 1500 [(''k'', 1500)] = (0, [(''k'', 2000)]) \<and>
     (1000 :: int) + 500 \<le> 1500"
proof -
  have g: "pace_script ''k'' 500 1000 [] = (0, [(''k'', 1500)])"
    "pace_script ''k'' 500 1500 [(''k'', 1500)] = (0, [(''k'', 2000)])"
    by (simp_all add: pace_script_def pttl_def)
  from pacing_grants_spaced [OF g(1) _ _ g(2)] g show ?thesis by simp
qed

text \<open>The scopes of a parsed body, and the queries of a selection.\<close>

lemma parsed_scope: "parseRateLimitText text = Some m \<Longrightarrow> md_Scope m \<in> {ScopeRPS, ScopeRPM}"
  by (auto simp: parseRateLimitText_def Let_def split: option.splits if_splits)

lemma metadata_scope: "ParseMetadata b = Some m \<Longrightarrow> md_Scope m \<in> {ScopeRPS, ScopeRPM}"
proof -
  assume p: "ParseMetadata b = Some m"
  then obtain ms where "filter (\<lambda>m. m \<noteq> None) (map parseRateLimitText (rateLimitTexts b)) = Some m # ms"
    by (auto simp: ParseMetadata_def split: list.splits)
  then have "Some m \<in> set (filter (\<lambda>m. m \<noteq> None) (map parseRateLimitText (rateLimitTexts b)))" by simp
  then have "Some m \<in> parseRateLimitText ` set (rateLimitTexts b)" unfolding set_filter set_map by blast
  then obtain line where "parseRateLimitText line = Some m" by (metis imageE)
  then show ?thesis by (rule parsed_scope)
qed

lemma recorded_scope: "md_Scope (recorded_metadata date now header b) \<in> {ScopeRPS, ScopeRPM}"
proof -
  have "md_Scope m \<in> {ScopeRPS, ScopeRPM}" if "FromResponse date now 429 (Some header) b = Some m" for m
    using that by (auto simp: FromResponse_def Let_def split: option.splits if_splits dest!: metadata_scope)
  then show ?thesis by (auto simp: recorded_metadata_def Let_def split: option.split)
qed

lemma query_of_model: "trim_space model \<noteq> [] \<Longrightarrow> scope \<in> {ScopeRPS, ScopeRPM} \<Longrightarrow>
  (scope, identity, trim_space model) \<in> set (Queries identity model)"
  by (auto simp: Queries_def UniqueStrings_def Let_def)

lemma first_target: "trim_space model \<noteq> [] \<Longrightarrow> \<exists>ts. UniqueStrings [FirstNonEmpty [model, mm, ''*''], mm] = trim_space model # ts"
  by (simp add: UniqueStrings_def FirstNonEmpty_def Let_def)

lemma map_of_map_self: "q \<in> set qs \<Longrightarrow> map_of (map (\<lambda>q. (q, f q)) qs) q = Some (f q)"
  by (induction qs) auto

lemma map_of_filter_self: "distinct qs \<Longrightarrow> q \<in> set qs \<Longrightarrow>
  map_of (filter (\<lambda>(q, d). 0 < d) (map (\<lambda>q. (q, f q)) qs)) q = (if 0 < (f q :: int) then Some (f q) else None)"
  by (induction qs) (auto simp: map_of_eq_None_iff image_iff)

lemma check_hits: "q \<in> set qs \<Longrightarrow> now < (case map_of deadlines q of None \<Rightarrow> 0 | Some t \<Rightarrow> t) \<Longrightarrow>
  \<exists>q' d r'. check_queries now deadlines qs r = (Some (q', d), r') \<and> 0 < d"
proof (induction qs arbitrary: r)
  case (Cons p qs)
  obtain scope identity model where p: "p = (scope, identity, model)" by (cases p)
  obtain here r1 where l: "LocalRetryAfterFor now scope identity model r = (here, r1)" by fastforce
  show ?case
  proof (cases "0 < max here (time_sub (case map_of deadlines p of None \<Rightarrow> 0 | Some t \<Rightarrow> t) now)")
    case True
    with p l show ?thesis by (simp add: Let_def)
  next
    case False
    then have "\<not> now < (case map_of deadlines p of None \<Rightarrow> 0 | Some t \<Rightarrow> t)" by (simp add: less_max_iff_disj time_sub_pos_iff)
    with Cons.prems have "q \<in> set qs" by auto
    with Cons.IH [of r1] Cons.prems(2) False p l show ?thesis by (simp add: Let_def)
  qed
qed simp

lemma Note_shares:
  assumes "le_answers e" "trim_space identity \<noteq> []" "trim_space model \<noteq> []"
    and "\<forall>u. map_of (rg_entries r) (cooldownKey scope identity (trim_space model)) = Some u \<longrightarrow> u \<le> le_now e"
    and "D = (if d \<le> 0 then minute else d)" "0 < D div millisecond"
  shows "lasts_until (backend_key sha pre ''cooldown'' [scope, identity, trim_space model]) (le_clock e + D div millisecond)
    (snd (Note sha (Some pre) e scope identity (trim_space model) d (r, db)))"
proof -
  have pos: "0 < D" using assms(6) by (auto simp: millisecond_def pos_imp_zdiv_pos_iff)
  have "fst (note_local (le_now e) (cooldownKey scope identity (trim_space model)) D r)"
    using assms(4) pos by (fastforce simp: note_local_def Let_def split: option.split)
  then obtain r' where n: "note_local (le_now e) (cooldownKey scope identity (trim_space model)) D r = (True, r')"
    by (metis prod.collapse)
  have "trim_space (trim_space model) \<noteq> []" using assms(3) by simp
  moreover have "noteCooldown sha pre e scope identity (trim_space model) D db =
      note_script (backend_key sha pre ''cooldown'' [scope, identity, trim_space model]) (D div millisecond) (le_clock e) db"
    using assms(1) pos by (simp add: noteCooldown_def)
  ultimately have "snd (Note sha (Some pre) e scope identity (trim_space model) d (r, db)) =
      note_script (backend_key sha pre ''cooldown'' [scope, identity, trim_space model]) (D div millisecond) (le_clock e) db"
    using assms(2) n unfolding Note_def Let_def assms(5) [symmetric] by simp
  with note_script_notes [OF assms(6)] show ?thesis by simp
qed

lemma Prepare_reads:
  assumes "le_answers e" "\<forall>k. ctx k = None" "lasts_until (backend_key sha pre ''cooldown'' [scope, identity, model]) until db"
    and "le_clock e < until" "(scope, identity, model) \<in> set queries"
  shows "\<exists>deadlines. Prepare sha (Some pre) ctx e queries db [] = (None, deadlines) \<and>
    map_of deadlines (scope, identity, model) =
      Some (le_now e + pttl (backend_key sha pre ''cooldown'' [scope, identity, model]) (le_clock e) db * millisecond) \<and>
    until - le_clock e \<le> pttl (backend_key sha pre ''cooldown'' [scope, identity, model]) (le_clock e) db"
proof -
  let ?q = "(scope, identity, model)"
  let ?f = "\<lambda>q. case q of (scope, identity, model) \<Rightarrow> pttl (backend_key sha pre ''cooldown'' [scope, identity, model]) (le_clock e) db * millisecond"
  let ?missing = "rev (remdups (rev queries))"
  have ttl: "until - le_clock e \<le> pttl (backend_key sha pre ''cooldown'' [scope, identity, model]) (le_clock e) db"
    using assms(3,4) by (auto simp: lasts_until_def pttl_def)
  have in_missing: "?q \<in> set ?missing" using assms(5) by simp
  then have some: "?missing \<noteq> []" by force
  have "0 < ?f ?q" using ttl assms(4) by (simp add: millisecond_def)
  then have shared: "map_of (cooldownsRemaining sha pre e ?missing db) ?q = Some (?f ?q)"
    using map_of_filter_self [of ?missing ?q ?f] in_missing assms(1) by (simp add: cooldownsRemaining_def)
  have "Prepare sha (Some pre) ctx e queries db [] = (None, map (\<lambda>q. (q, case map_of (cooldownsRemaining sha pre e ?missing db) q of
      None \<Rightarrow> 0 | Some d \<Rightarrow> le_now e + d)) ?missing)"
    using some assms(2) by (simp add: Prepare_def Let_def)
  moreover note map_of_map_self [OF in_missing, of "\<lambda>q. case map_of (cooldownsRemaining sha pre e ?missing db) q of None \<Rightarrow> 0 | Some d \<Rightarrow> le_now e + d"]
  ultimately show ?thesis using shared ttl by simp
qed



text \<open>Only the end of a cooldown frees its entry: the registry grows past \<open>MaxEntries\<close> while its cooldowns last.\<close>

lemma update_fresh: "key \<notin> fst ` set xs \<Longrightarrow> AList.update key v xs = xs @ [(key, v)]"
  by (induction xs) auto

lemma note_local_grows:
  assumes "\<forall>(key, u) \<in> set (rg_entries r). now < u" "key \<notin> fst ` set (rg_entries r)" "0 < d"
  shows "length (rg_entries (snd (note_local now key d r))) = Suc (length (rg_entries r))"
proof -
  have new: "AList.update key (now + d) (rg_entries r) = rg_entries r @ [(key, now + d)]"
    using assms(2) by (rule update_fresh)
  have "map_of (rg_entries r) key = None" using assms(2) by (simp add: map_of_eq_None_iff)
  moreover have "filter (\<lambda>(key, u). now < u) (rg_entries r @ [(key, now + d)]) = rg_entries r @ [(key, now + d)]"
    using assms(1,3) by (auto simp: filter_id_conv)
  ultimately show ?thesis by (simp add: note_local_def maybeGC_def Let_def new)
qed

end
