(* ===== verification/Egress_Nodes.thy ===== *)
theory Egress_Nodes
  imports Go_Prelude "HOL-Library.AList"
begin

text \<open>
  The registry of egress nodes: the records in Redis (\<^verbatim>\<open>internal/store/grok_egress.go\<close>), the routing snapshot every
  instance builds of them (\<^verbatim>\<open>internal/grok/egressnodes/registry.go\<close>, \<^verbatim>\<open>runtime.go\<close>, \<^verbatim>\<open>proxy.go\<close>) and the assignment
  of accounts to nodes (\<^verbatim>\<open>assign.go\<close>).

  \<^item> \<open>egress_store\<close> is what Redis holds, hashes as association lists. Records are sealed on their way in and opened on
    their way out, so they are kept here as they are read.
  \<^item> A \<open>Registry_state\<close> is one instance: its snapshot, the version it loaded and its pending bindings.
  \<^item> Parsing a URL (\<open>parse_url\<close>), opening a tunnel link (\<open>tunnel\<close>, an error or its local endpoint) and SHA-256 (\<open>sha\<close>,
    hexadecimal) are parameters.
\<close>

section \<open>Stored records\<close>

definition GrokEgressScopeBuild :: string where "GrokEgressScopeBuild = ''grok_build''"
definition GrokEgressScopeWeb :: string where "GrokEgressScopeWeb = ''grok_web''"
definition GrokEgressScopeWebAsset :: string where "GrokEgressScopeWebAsset = ''grok_web_asset''"

definition GrokEgressScopes :: "string list" where
  "GrokEgressScopes = [GrokEgressScopeBuild, GrokEgressScopeWeb, GrokEgressScopeWebAsset]"

definition ValidGrokEgressScope :: "string \<Rightarrow> bool" where
  "ValidGrokEgressScope scope \<longleftrightarrow> scope \<in> set GrokEgressScopes"

record GrokEgressNode =
  gn_ID :: string
  gn_Name :: string
  gn_Scope :: string
  gn_Enabled :: bool
  gn_ProxyURL :: string
  gn_ProxyProfileID :: string
  gn_ProxyPool :: bool
  gn_AccountCapacity :: int
  gn_UserAgent :: string
  gn_CloudflareCookies :: string
  gn_SourceID :: string

record GrokEgressProxyProfile =
  gp_ID :: string
  gp_Name :: string
  gp_ProxyURL :: string

record GrokEgressFallback =
  fb_Mode :: string
  fb_NodeID :: string

record GrokEgressOperations =
  op_ProbeProvider :: string
  op_ProbeIntervalSeconds :: int
  op_AssignmentIntervalSeconds :: int
  op_AutoAssignEnabled :: bool
  op_AutoBalanceEnabled :: bool
  op_Fallbacks :: "(string \<times> GrokEgressFallback) list"

definition DefaultGrokEgressOperations :: GrokEgressOperations where
  "DefaultGrokEgressOperations =
     \<lparr>op_ProbeProvider = ''cloudflare'', op_ProbeIntervalSeconds = 900, op_AssignmentIntervalSeconds = 300,
      op_AutoAssignEnabled = False, op_AutoBalanceEnabled = False,
      op_Fallbacks = map (\<lambda>scope. (scope, \<lparr>fb_Mode = ''direct'', fb_NodeID = []\<rparr>)) GrokEgressScopes\<rparr>"

definition clampSeconds :: "int \<Rightarrow> int \<Rightarrow> int" where
  "clampSeconds value fallback = (if value \<le> 0 then fallback else min (max value 60) 86400)"

definition normal_fallback :: "(string \<times> GrokEgressFallback) list \<Rightarrow> string \<Rightarrow> GrokEgressFallback" where
  "normal_fallback fallbacks scope =
     (case map_of fallbacks scope of
        None \<Rightarrow> \<lparr>fb_Mode = ''direct'', fb_NodeID = []\<rparr>
      | Some fallback \<Rightarrow>
          if fb_Mode fallback = ''fixed'' \<and> trim_space (fb_NodeID fallback) \<noteq> [] then fallback
          else if fb_Mode fallback = ''none'' then fallback\<lparr>fb_NodeID := []\<rparr>
          else \<lparr>fb_Mode = ''direct'', fb_NodeID = []\<rparr>)"

definition Normalize :: "GrokEgressOperations \<Rightarrow> GrokEgressOperations" where
  "Normalize ops =
     ops\<lparr>op_ProbeProvider := if op_ProbeProvider ops \<noteq> ''ipinfo'' then ''cloudflare'' else op_ProbeProvider ops,
         op_ProbeIntervalSeconds := clampSeconds (op_ProbeIntervalSeconds ops) 900,
         op_AssignmentIntervalSeconds := clampSeconds (op_AssignmentIntervalSeconds ops) 300,
         op_Fallbacks := filter (\<lambda>(scope, _). ValidGrokEgressScope scope)
           (fold (\<lambda>scope fs. AList.update scope (normal_fallback (op_Fallbacks ops) scope) fs) GrokEgressScopes (op_Fallbacks ops))\<rparr>"

record egress_store =
  es_nodes :: "(string \<times> GrokEgressNode) list"
  es_profiles :: "(string \<times> GrokEgressProxyProfile) list"
  es_operations :: "GrokEgressOperations option"
  es_bindings :: "(string \<times> string) list"
  es_probes :: "(string \<times> string) list"
  es_version :: int

definition bumpEgress :: "egress_store \<Rightarrow> egress_store" where
  "bumpEgress st = st\<lparr>es_version := es_version st + 1\<rparr>"

text \<open>\<open>fails\<close> is the error of the round trip to Redis, a transaction that was not applied.\<close>

definition SaveGrokEgressNode :: "string option \<Rightarrow> GrokEgressNode \<Rightarrow> egress_store \<Rightarrow> string option \<times> egress_store" where
  "SaveGrokEgressNode fails node st =
     (if trim_space (gn_ID node) = [] then (Some ''egress node id is required'', st)
      else case fails of
             Some err \<Rightarrow> (Some err, st)
           | None \<Rightarrow> (None, bumpEgress (st\<lparr>es_nodes := AList.update (gn_ID node) node (es_nodes st)\<rparr>)))"

definition SaveGrokEgressNodes :: "string option \<Rightarrow> GrokEgressNode list \<Rightarrow> egress_store \<Rightarrow> string option \<times> egress_store" where
  "SaveGrokEgressNodes fails nodes st =
     (if nodes = [] then (None, st)
      else case fails of
             Some err \<Rightarrow> (Some err, st)
           | None \<Rightarrow> (None, bumpEgress (st\<lparr>es_nodes := fold (\<lambda>n. AList.update (gn_ID n) n) nodes (es_nodes st)\<rparr>)))"

definition SetGrokEgressBinding :: "string option \<Rightarrow> string \<Rightarrow> string \<Rightarrow> string \<Rightarrow> egress_store \<Rightarrow> string option \<times> egress_store" where
  "SetGrokEgressBinding fails scope account nodeID st =
     (let field = scope @ ''|'' @ account in
      case fails of
        Some err \<Rightarrow> (Some err, st)
      | None \<Rightarrow>
          (None, st\<lparr>es_bindings := if nodeID = [] then AList.delete field (es_bindings st)
                                  else AList.update field nodeID (es_bindings st)\<rparr>))"

definition ReplaceGrokEgressBindings :: "string option \<Rightarrow> (string \<times> string) list \<Rightarrow> egress_store \<Rightarrow> string option \<times> egress_store" where
  "ReplaceGrokEgressBindings fails bindings st =
     (case fails of Some err \<Rightarrow> (Some err, st) | None \<Rightarrow> (None, st\<lparr>es_bindings := bindings\<rparr>))"

text \<open>The bindings are read in one round trip and removed in another.\<close>

definition unbindGrokEgressNodes :: "string option \<Rightarrow> string option \<Rightarrow> string list \<Rightarrow> egress_store \<Rightarrow> string option \<times> egress_store" where
  "unbindGrokEgressNodes list_fails fails ids st =
     (case list_fails of
        Some err \<Rightarrow> (Some err, st)
      | None \<Rightarrow>
          let fields = map fst (filter (\<lambda>(field, node). node \<in> set ids) (es_bindings st)) in
          if fields = [] then (None, st)
          else case fails of
                 Some err \<Rightarrow> (Some err, st)
               | None \<Rightarrow> (None, st\<lparr>es_bindings := filter (\<lambda>(field, node). field \<notin> set fields) (es_bindings st)\<rparr>))"

definition DeleteGrokEgressNodes ::
  "string option \<Rightarrow> string option \<Rightarrow> string option \<Rightarrow> string option \<Rightarrow> string list \<Rightarrow> egress_store \<Rightarrow> string option \<times> egress_store" where
  "DeleteGrokEgressNodes probe_fails list_fails unbind_fails fails ids st =
     (if ids = [] then (None, st)
      else
        let st1 = (if probe_fails = None then st\<lparr>es_probes := filter (\<lambda>(i, status). i \<notin> set ids) (es_probes st)\<rparr> else st) in
        case unbindGrokEgressNodes list_fails unbind_fails ids st1 of
          (Some err, st2) \<Rightarrow> (Some err, st2)
        | (None, st2) \<Rightarrow>
            (case fails of
               Some err \<Rightarrow> (Some err, st2)
             | None \<Rightarrow> (None, bumpEgress (st2\<lparr>es_nodes := filter (\<lambda>(i, n). i \<notin> set ids) (es_nodes st2)\<rparr>))))"

text \<open>Of a probe, its verdict.\<close>

definition SaveGrokEgressProbe :: "string option \<Rightarrow> string \<Rightarrow> string \<Rightarrow> egress_store \<Rightarrow> string option \<times> egress_store" where
  "SaveGrokEgressProbe fails i status st =
     (case fails of Some err \<Rightarrow> (Some err, st) | None \<Rightarrow> (None, st\<lparr>es_probes := AList.update i status (es_probes st)\<rparr>))"

definition SaveGrokEgressProxyProfile :: "string option \<Rightarrow> GrokEgressProxyProfile \<Rightarrow> egress_store \<Rightarrow> string option \<times> egress_store" where
  "SaveGrokEgressProxyProfile fails profile st =
     (case fails of
        Some err \<Rightarrow> (Some err, st)
      | None \<Rightarrow> (None, bumpEgress (st\<lparr>es_profiles := AList.update (gp_ID profile) profile (es_profiles st)\<rparr>)))"

definition ErrGrokEgressNotFound :: string where "ErrGrokEgressNotFound = ''grok egress record not found''"

definition DeleteGrokEgressProxyProfile :: "string option \<Rightarrow> string \<Rightarrow> egress_store \<Rightarrow> string option \<times> egress_store" where
  "DeleteGrokEgressProxyProfile fails i st =
     (case fails of
        Some err \<Rightarrow> (Some err, st)
      | None \<Rightarrow>
          (if map_of (es_profiles st) i = None then Some ErrGrokEgressNotFound else None,
           bumpEgress (st\<lparr>es_profiles := AList.delete i (es_profiles st)\<rparr>)))"

definition SaveGrokEgressOperations :: "string option \<Rightarrow> GrokEgressOperations \<Rightarrow> egress_store \<Rightarrow> string option \<times> egress_store" where
  "SaveGrokEgressOperations fails ops st =
     (case fails of
        Some err \<Rightarrow> (Some err, st)
      | None \<Rightarrow> (None, bumpEgress (st\<lparr>es_operations := Some (Normalize ops)\<rparr>)))"

definition GetGrokEgressOperations :: "egress_store \<Rightarrow> GrokEgressOperations" where
  "GetGrokEgressOperations st =
     (case es_operations st of None \<Rightarrow> DefaultGrokEgressOperations | Some stored \<Rightarrow> Normalize stored)"

fun string_less :: "string \<Rightarrow> string \<Rightarrow> bool" where
  "string_less s [] = False"
| "string_less [] (d # ds) = True"
| "string_less (c # cs) (d # ds) = (if byte_of c = byte_of d then string_less cs ds else byte_of c < byte_of d)"

definition node_before :: "GrokEgressNode \<Rightarrow> GrokEgressNode \<Rightarrow> bool" where
  "node_before a b =
     (if gn_Name a \<noteq> gn_Name b then string_less (gn_Name a) (gn_Name b) else string_less (gn_ID a) (gn_ID b))"

fun insert_by :: "('a \<Rightarrow> 'a \<Rightarrow> bool) \<Rightarrow> 'a \<Rightarrow> 'a list \<Rightarrow> 'a list" where
  "insert_by before n [] = [n]"
| "insert_by before n (m # ms) = (if before m n then m # insert_by before n ms else n # m # ms)"

definition ListGrokEgressNodes :: "egress_store \<Rightarrow> GrokEgressNode list" where
  "ListGrokEgressNodes st = foldr (insert_by node_before) (map snd (es_nodes st)) []"

definition ListGrokEgressProxyProfiles :: "egress_store \<Rightarrow> GrokEgressProxyProfile list" where
  "ListGrokEgressProxyProfiles st =
     foldr (insert_by (\<lambda>a b. string_less (gp_Name a) (gp_Name b))) (map snd (es_profiles st)) []"

section \<open>Proxy addresses\<close>

record parsed_url =
  pu_Scheme :: string
  pu_Hostname :: string
  pu_Port :: string
  pu_Text :: string

definition directSchemes :: "string list" where "directSchemes = [''http'', ''socks5'', ''socks5h'']"
definition tunnelSchemes :: "string list" where "tunnelSchemes = [''trojan'', ''vless'', ''ss'', ''vmess'']"

fun cut :: "string \<Rightarrow> string \<Rightarrow> (string \<times> string) option" where
  "cut sep [] = (if sep = [] then Some ([], []) else None)"
| "cut sep (c # s) =
     (if has_prefix (c # s) sep then Some ([], drop (length sep) (c # s))
      else case cut sep s of None \<Rightarrow> None | Some (a, b) \<Rightarrow> Some (c # a, b))"

definition IsTunnelURL :: "string \<Rightarrow> bool" where
  "IsTunnelURL raw =
     (case cut ''://'' (trim_space raw) of None \<Rightarrow> False | Some (scheme, _) \<Rightarrow> to_lower scheme \<in> set tunnelSchemes)"

definition quoted :: "string \<Rightarrow> string" where "quoted s = CHR 0x22 # s @ [CHR 0x22]"

definition ParseProxyURL ::
  "(string \<Rightarrow> parsed_url option) \<Rightarrow> (string \<Rightarrow> string + parsed_url) \<Rightarrow> string \<Rightarrow> string + parsed_url option" where
  "ParseProxyURL parse_url tunnel raw0 =
     (let raw = trim_space raw0 in
      if raw = [] then Inr None
      else if IsTunnelURL raw then (case tunnel raw of Inl err \<Rightarrow> Inl err | Inr u \<Rightarrow> Inr (Some u))
      else case parse_url raw of
             None \<Rightarrow> Inl ''invalid proxy URL''
           | Some u \<Rightarrow>
               if to_lower (pu_Scheme u) \<notin> set directSchemes
               then Inl (''unsupported proxy scheme '' @ quoted (pu_Scheme u) @ '' (supported: http, socks5, socks5h, trojan, vless, ss, vmess)'')
               else if trim_space (pu_Hostname u) = [] then Inl ''proxy URL missing host''
               else if \<exists>c \<in> set (pu_Port u). \<not> is_digit c then Inl (''invalid proxy port '' @ quoted (pu_Port u))
               else Inr (Some u))"

definition account_placeholder :: string where "account_placeholder = ''{account}''"

text \<open>\<open>check_tunnel\<close> is \<open>validateTunnelURL\<close> and \<open>tunnelRoutable\<close>: the error of a link that cannot be opened.\<close>

definition ValidateProxyURL ::
  "(string \<Rightarrow> parsed_url option) \<Rightarrow> (string \<Rightarrow> string + parsed_url) \<Rightarrow> (string \<Rightarrow> string option) \<Rightarrow> string \<Rightarrow> string option" where
  "ValidateProxyURL parse_url tunnel check_tunnel raw0 =
     (let raw = trim_space raw0 in
      if raw = [] then None
      else if IsTunnelURL raw then check_tunnel raw
      else case ParseProxyURL parse_url tunnel (replace_all raw account_placeholder ''account'') of
             Inl err \<Rightarrow> Some err | Inr _ \<Rightarrow> None)"

section \<open>The routing snapshot\<close>

record Node =
  nd_ID :: string
  nd_Name :: string
  nd_Scope :: string
  nd_ProxyURL :: string
  nd_Pool :: bool
  nd_Capacity :: int
  nd_UserAgent :: string
  nd_Cookies :: string
  nd_SourceID :: string

definition Direct :: "Node \<Rightarrow> bool" where "Direct n \<longleftrightarrow> trim_space (nd_ProxyURL n) = []"

definition ProxyFor ::
  "(string \<Rightarrow> string) \<Rightarrow> (string \<Rightarrow> parsed_url option) \<Rightarrow> (string \<Rightarrow> string + parsed_url) \<Rightarrow> string \<Rightarrow> string \<Rightarrow> string + parsed_url option" where
  "ProxyFor sha parse_url tunnel url affinity =
     (let raw = trim_space url in
      if raw = [] then Inr None
      else ParseProxyURL parse_url tunnel
        (if contains raw account_placeholder then replace_all raw account_placeholder (take 12 (sha affinity)) else raw))"

record Snapshot =
  sn_Nodes :: "Node list"
  sn_Invalid :: "(string \<times> string) list"
  sn_Operations :: GrokEgressOperations
  sn_Bindings :: "(string \<times> string) list"

definition emptySnapshot :: Snapshot where
  "emptySnapshot = \<lparr>sn_Nodes = [], sn_Invalid = [], sn_Operations = DefaultGrokEgressOperations, sn_Bindings = []\<rparr>"

text \<open>The map \<open>byID\<close>: the last node with an ID.\<close>

definition node_by_ID :: "Snapshot \<Rightarrow> string \<Rightarrow> Node option" where
  "node_by_ID s i = map_of (rev (map (\<lambda>n. (nd_ID n, n)) (sn_Nodes s))) i"

definition scope_nodes :: "Snapshot \<Rightarrow> string \<Rightarrow> Node list" where
  "scope_nodes s scope = filter (\<lambda>n. nd_Scope n = scope) (sn_Nodes s)"

definition Candidates :: "Snapshot \<Rightarrow> string \<Rightarrow> Node list" where
  "Candidates s scope =
     (let out = scope_nodes s scope in
      if out = [] \<and> scope = GrokEgressScopeWebAsset then scope_nodes s GrokEgressScopeWeb else out)"

definition Fallback :: "Snapshot \<Rightarrow> string \<Rightarrow> GrokEgressFallback" where
  "Fallback s scope =
     (case map_of (op_Fallbacks (sn_Operations s)) scope of
        Some fallback \<Rightarrow> fallback | None \<Rightarrow> \<lparr>fb_Mode = ''direct'', fb_NodeID = []\<rparr>)"

definition Routes :: "Snapshot \<Rightarrow> string \<Rightarrow> bool" where
  "Routes s scope \<longleftrightarrow> Candidates s scope \<noteq> [] \<or> fb_Mode (Fallback s scope) \<noteq> ''direct''"

definition Binding :: "Snapshot \<Rightarrow> string \<Rightarrow> string \<Rightarrow> string" where
  "Binding s scope account =
     (if account = [] then []
      else case map_of (sn_Bindings s) (scope @ ''|'' @ account) of None \<Rightarrow> [] | Some node \<Rightarrow> node)"

definition BoundCount :: "Snapshot \<Rightarrow> string \<Rightarrow> int" where
  "BoundCount s node = int (length (filter (\<lambda>(field, n). n = node) (sn_Bindings s)))"

text \<open>One stored node: \<open>validate\<close> is \<open>ValidateProxyURL\<close>, \<open>routable\<close> the error of \<open>tunnelRoutable\<close>.\<close>

definition add_node :: "(string \<Rightarrow> string option) \<Rightarrow> (string \<Rightarrow> string option) \<Rightarrow> GrokEgressProxyProfile list \<Rightarrow> GrokEgressNode \<Rightarrow> Snapshot \<Rightarrow> Snapshot" where
  "add_node validate routable profiles stored snap =
     (let invalid = (\<lambda>err. snap\<lparr>sn_Invalid := AList.update (gn_ID stored) err (sn_Invalid snap)\<rparr>);
          keep = (\<lambda>proxy. snap\<lparr>sn_Nodes := sn_Nodes snap @
            [\<lparr>nd_ID = gn_ID stored, nd_Name = gn_Name stored, nd_Scope = gn_Scope stored, nd_ProxyURL = trim_space proxy,
              nd_Pool = gn_ProxyPool stored, nd_Capacity = gn_AccountCapacity stored, nd_UserAgent = trim_space (gn_UserAgent stored),
              nd_Cookies = trim_space (gn_CloudflareCookies stored), nd_SourceID = gn_SourceID stored\<rparr>]\<rparr>)
      in if \<not> gn_Enabled stored then snap
         else case (if gn_ProxyProfileID stored \<noteq> []
                    then map_option gp_ProxyURL (find (\<lambda>p. gp_ID p = gn_ProxyProfileID stored) (rev profiles))
                    else Some (gn_ProxyURL stored)) of
                None \<Rightarrow> invalid ''proxy profile missing''
              | Some proxy \<Rightarrow>
                  (case validate proxy of
                     Some err \<Rightarrow> invalid err
                   | None \<Rightarrow>
                       if IsTunnelURL proxy
                       then (case routable proxy of Some err \<Rightarrow> invalid err | None \<Rightarrow> keep proxy)
                       else keep proxy))"

definition buildSnapshot ::
  "(string \<Rightarrow> string option) \<Rightarrow> (string \<Rightarrow> string option) \<Rightarrow> GrokEgressNode list \<Rightarrow> GrokEgressProxyProfile list \<Rightarrow>
   GrokEgressOperations \<Rightarrow> (string \<times> string) list \<Rightarrow> Snapshot" where
  "buildSnapshot validate routable nodes profiles ops bindings =
     (let snap = fold (add_node validate routable profiles) nodes
            \<lparr>sn_Nodes = [], sn_Invalid = [], sn_Operations = ops, sn_Bindings = []\<rparr>
      in snap\<lparr>sn_Bindings := filter (\<lambda>(field, node). node_by_ID snap node \<noteq> None) bindings\<rparr>)"

definition RegistryScope :: "string \<Rightarrow> string" where
  "RegistryScope scope =
     (let s = to_lower (trim_space scope) in
      if s \<in> {''cli'', ''build'', GrokEgressScopeBuild} then GrokEgressScopeBuild
      else if s \<in> {''asset'', GrokEgressScopeWebAsset} then GrokEgressScopeWebAsset
      else GrokEgressScopeWeb)"

section \<open>One instance of the registry\<close>

type_synonym pending = "(string \<times> string) list"

record Registry_state =
  er_snapshot :: Snapshot
  er_version :: int
  er_pending :: pending

text \<open>\<open>reads k\<close> is the answer to the \<open>k\<close>th read: its error, or the store at that moment.\<close>

definition Reload ::
  "(string \<Rightarrow> string option) \<Rightarrow> (string \<Rightarrow> string option) \<Rightarrow> (nat \<Rightarrow> string + egress_store) \<Rightarrow> Registry_state \<Rightarrow>
   string option \<times> Registry_state" where
  "Reload validate routable reads r =
     (case reads 0 of Inl err \<Rightarrow> (Some err, r) | Inr version_at \<Rightarrow>
      (case reads 1 of Inl err \<Rightarrow> (Some err, r) | Inr nodes_at \<Rightarrow>
       (case reads 2 of Inl err \<Rightarrow> (Some err, r) | Inr profiles_at \<Rightarrow>
        (case reads 3 of Inl err \<Rightarrow> (Some err, r) | Inr ops_at \<Rightarrow>
         (case reads 4 of Inl err \<Rightarrow> (Some err, r) | Inr bindings_at \<Rightarrow>
            (None, r\<lparr>er_snapshot := buildSnapshot validate routable (ListGrokEgressNodes nodes_at)
                       (ListGrokEgressProxyProfiles profiles_at) (GetGrokEgressOperations ops_at) (es_bindings bindings_at),
                     er_version := es_version version_at\<rparr>))))))"

text \<open>A tick of \<open>watch\<close>: \<open>seen\<close> is its read of the version.\<close>

definition watch_tick ::
  "(string \<Rightarrow> string option) \<Rightarrow> (string \<Rightarrow> string option) \<Rightarrow> string + egress_store \<Rightarrow> (nat \<Rightarrow> string + egress_store) \<Rightarrow>
   Registry_state \<Rightarrow> Registry_state" where
  "watch_tick validate routable seen reads r =
     (case seen of
        Inl err \<Rightarrow> r
      | Inr st \<Rightarrow> if es_version st = er_version r then r else snd (Reload validate routable reads r))"

text \<open>\<open>AutoBind\<close>: \<open>cur\<close> is \<open>Current\<close> of the process registry, if there is one. The binding it starts is saved by
  \<open>finish_bind\<close>, the goroutine; until then it is pending.\<close>

definition autobind_count :: "Snapshot \<Rightarrow> pending \<Rightarrow> string \<Rightarrow> int" where
  "autobind_count snap pending i =
     BoundCount snap i + int (length (filter (\<lambda>(field, node). node = i \<and> map_of (sn_Bindings snap) field = None) pending))"

definition least_bound :: "Snapshot \<Rightarrow> pending \<Rightarrow> string list \<Rightarrow> string" where
  "least_bound snap pending candidates =
     fold (\<lambda>i best.
         case node_by_ID snap i of
           None \<Rightarrow> best
         | Some node \<Rightarrow>
             if nd_Capacity node > 0 \<and> autobind_count snap pending i \<ge> nd_Capacity node then best
             else if best = [] \<or> autobind_count snap pending i < autobind_count snap pending best then i else best)
       candidates []"

definition AutoBind :: "Snapshot option \<Rightarrow> string \<Rightarrow> string \<Rightarrow> string list \<Rightarrow> pending \<Rightarrow> string \<times> pending" where
  "AutoBind cur scope affinity candidates pending =
     (case cur of
        None \<Rightarrow> ([], pending)
      | Some snap \<Rightarrow>
          if affinity = [] \<or> \<not> op_AutoAssignEnabled (sn_Operations snap) \<or> candidates = [] then ([], pending)
          else let field = scope @ ''|'' @ affinity in
            case map_of pending field of
              Some node \<Rightarrow> (node, pending)
            | None \<Rightarrow>
                let best = least_bound snap pending candidates in
                if best = [] then ([], pending) else (best, AList.update field best pending))"

definition finish_bind ::
  "(string \<Rightarrow> string option) \<Rightarrow> (string \<Rightarrow> string option) \<Rightarrow> string option \<Rightarrow> (egress_store \<Rightarrow> nat \<Rightarrow> string + egress_store) \<Rightarrow>
   string \<Rightarrow> string \<Rightarrow> string \<Rightarrow> Registry_state \<times> egress_store \<Rightarrow> Registry_state \<times> egress_store" where
  "finish_bind validate routable fails reads scope affinity best w =
     (let (r, st) = w;
          (err, st1) = SetGrokEgressBinding fails scope affinity best st;
          r1 = (if err \<noteq> None then r else snd (Reload validate routable (reads st1) r))
      in (r1\<lparr>er_pending := AList.delete (scope @ ''|'' @ affinity) (er_pending r1)\<rparr>, st1))"

section \<open>Nodes of the configuration file\<close>

record legacy_node =
  lg_Name :: string
  lg_URL :: string
  lg_Scope :: string

definition legacy_scopes :: "legacy_node \<Rightarrow> string list" where
  "legacy_scopes legacy =
     (let s = to_lower (trim_space (lg_Scope legacy)) in
      if s \<in> {''cli'', ''build''} then [GrokEgressScopeBuild]
      else if s \<in> {''app_chat'', ''web''} then [GrokEgressScopeWeb]
      else [GrokEgressScopeBuild, GrokEgressScopeWeb])"

definition stored_legacy :: "string \<Rightarrow> string \<Rightarrow> string \<Rightarrow> legacy_node \<Rightarrow> GrokEgressNode" where
  "stored_legacy i name scope legacy =
     \<lparr>gn_ID = i, gn_Name = name, gn_Scope = scope, gn_Enabled = True, gn_ProxyURL = trim_space (lg_URL legacy),
      gn_ProxyProfileID = [], gn_ProxyPool = False, gn_AccountCapacity = 0, gn_UserAgent = [], gn_CloudflareCookies = [], gn_SourceID = []\<rparr>"

text \<open>\<open>enabled\<close> is that there is a configuration and it enables egress nodes.\<close>

definition SnapshotFromConfig ::
  "(string \<Rightarrow> string option) \<Rightarrow> (string \<Rightarrow> string option) \<Rightarrow> bool \<Rightarrow> legacy_node list \<Rightarrow> Snapshot" where
  "SnapshotFromConfig validate routable enabled legacies =
     (if \<not> enabled then emptySnapshot
      else
        let nodes = concat (map (\<lambda>legacy. map (\<lambda>scope. stored_legacy (trim_space (lg_Name legacy)) (trim_space (lg_Name legacy)) scope legacy)
              (legacy_scopes legacy)) legacies);
            ops = DefaultGrokEgressOperations\<lparr>op_Fallbacks := map (\<lambda>scope. (scope, \<lparr>fb_Mode = ''none'', fb_NodeID = []\<rparr>)) GrokEgressScopes\<rparr>
        in buildSnapshot validate routable nodes [] ops [])"

text \<open>\<open>new_id k\<close> is the \<open>k\<close>th random ID.\<close>

fun migrated_nodes :: "(nat \<Rightarrow> string) \<Rightarrow> nat \<Rightarrow> int \<Rightarrow> legacy_node list \<Rightarrow> GrokEgressNode list" where
  "migrated_nodes new_id k i [] = []"
| "migrated_nodes new_id k i (legacy # rest) =
     (let name = (if trim_space (lg_Name legacy) = [] then ''node-'' @ itoa (i + 1) else trim_space (lg_Name legacy));
          scopes = legacy_scopes legacy
      in map (\<lambda>(j, scope). stored_legacy (new_id (k + j)) name scope legacy) (List.enumerate 0 scopes)
         @ migrated_nodes new_id (k + length scopes) (i + 1) rest)"

definition migrateConfigNodes ::
  "(nat \<Rightarrow> string) \<Rightarrow> bool \<Rightarrow> legacy_node list \<Rightarrow> string option \<Rightarrow> string option \<Rightarrow> egress_store \<Rightarrow> string option \<times> egress_store" where
  "migrateConfigNodes new_id enabled legacies list_fails fails st =
     (if \<not> enabled \<or> legacies = [] then (None, st)
      else case list_fails of
             Some err \<Rightarrow> (Some err, st)
           | None \<Rightarrow>
               if ListGrokEgressNodes st \<noteq> [] then (None, st)
               else SaveGrokEgressNodes fails (migrated_nodes new_id 0 0 legacies) st)"

section \<open>Rebalancing\<close>

record AccountRef =
  ar_Scope :: string
  ar_Affinity :: string
  ar_AccountID :: int

record RebalanceResult =
  rb_Accounts :: int
  rb_Assigned :: int
  rb_Moved :: int
  rb_Released :: int
  rb_Unplaced :: int

type_synonym loads = "string \<Rightarrow> string list"

definition full :: "loads \<Rightarrow> Node \<Rightarrow> bool" where
  "full load n \<longleftrightarrow> nd_Capacity n > 0 \<and> int (length (load (nd_ID n))) \<ge> nd_Capacity n"

definition leastLoaded :: "Node list \<Rightarrow> loads \<Rightarrow> string \<Rightarrow> string" where
  "leastLoaded nodes load exclude =
     fold (\<lambda>n best.
         if nd_ID n = exclude \<or> full load n then best
         else if best = [] \<or> length (load (nd_ID n)) < length (load best) then nd_ID n else best) nodes []"

definition busiest_node :: "Node list \<Rightarrow> loads \<Rightarrow> string" where
  "busiest_node nodes load =
     fold (\<lambda>n busiest. if busiest = [] \<or> length (load (nd_ID n)) > length (load busiest) then nd_ID n else busiest) nodes []"

text \<open>The first pass: bindings that stay, and the accounts left to place.\<close>

fun keep_bindings :: "Snapshot \<Rightarrow> Node list \<Rightarrow> string \<Rightarrow> AccountRef list \<Rightarrow> loads \<times> string list \<times> RebalanceResult \<Rightarrow> loads \<times> string list \<times> RebalanceResult" where
  "keep_bindings snap nodes scope [] acc = acc"
| "keep_bindings snap nodes scope (ref # refs) (load, unbound, result) =
     (let bound = Binding snap scope (ar_Affinity ref) in
      case map_of (rev (map (\<lambda>n. (nd_ID n, n)) nodes)) bound of
        Some node \<Rightarrow>
          if nd_Capacity node = 0 \<or> int (length (load bound)) < nd_Capacity node
          then keep_bindings snap nodes scope refs (load(bound := load bound @ [ar_Affinity ref]), unbound, result)
          else keep_bindings snap nodes scope refs (load, unbound @ [ar_Affinity ref],
                 (if bound \<noteq> [] then result\<lparr>rb_Moved := rb_Moved result + 1\<rparr> else result))
      | None \<Rightarrow> keep_bindings snap nodes scope refs (load, unbound @ [ar_Affinity ref],
                 (if bound \<noteq> [] then result\<lparr>rb_Moved := rb_Moved result + 1\<rparr> else result)))"

fun place_unbound :: "Node list \<Rightarrow> string list \<Rightarrow> loads \<times> RebalanceResult \<Rightarrow> loads \<times> RebalanceResult" where
  "place_unbound nodes [] acc = acc"
| "place_unbound nodes (affinity # rest) (load, result) =
     (let target = leastLoaded nodes load [] in
      if target = [] then place_unbound nodes rest (load, result\<lparr>rb_Unplaced := rb_Unplaced result + 1\<rparr>)
      else place_unbound nodes rest
             (load(target := load target @ [affinity]), result\<lparr>rb_Assigned := rb_Assigned result + 1\<rparr>))"

text \<open>The rounds of balancing, \<open>rounds\<close> at most.\<close>

function balance_loads :: "Node list \<Rightarrow> int \<Rightarrow> loads \<times> RebalanceResult \<Rightarrow> loads \<times> RebalanceResult" where
  "balance_loads nodes rounds (load, result) =
     (if rounds \<le> 0 then (load, result)
      else
        let busiest = busiest_node nodes load; target = leastLoaded nodes load busiest in
        if busiest = [] \<or> target = [] \<or> int (length (load busiest)) - int (length (load target)) \<le> 1 then (load, result)
        else let moved = last (load busiest); load1 = load(busiest := butlast (load busiest))
             in balance_loads nodes (rounds - 1)
                  (load1(target := load1 target @ [moved]), result\<lparr>rb_Moved := rb_Moved result + 1\<rparr>))"
  by pat_completeness auto

termination by (relation "measure (\<lambda>(nodes, rounds, acc). nat rounds)") auto

declare balance_loads.simps [simp del]

definition balance_rounds :: int where "balance_rounds = 10000"

text \<open>The turn of one scope: its accounts in the order of their IDs, and its nodes.\<close>

definition assign_scope ::
  "Snapshot \<Rightarrow> bool \<Rightarrow> string \<Rightarrow> Node list \<Rightarrow> AccountRef list \<Rightarrow> RebalanceResult \<Rightarrow> loads \<times> RebalanceResult" where
  "assign_scope snap balance scope nodes refs result =
     (if nodes = []
      then (\<lambda>_. [], result\<lparr>rb_Released := rb_Released result +
              int (length (filter (\<lambda>ref. Binding snap scope (ar_Affinity ref) \<noteq> []) refs))\<rparr>)
      else case keep_bindings snap nodes scope refs (\<lambda>_. [], [], result) of
        (load, unbound, result1) \<Rightarrow>
          let placed = place_unbound nodes unbound (load, result1)
          in if balance then balance_loads nodes balance_rounds placed else placed)"

text \<open>\<open>probes\<close> are the verdicts by node, none when they cannot be read; the nodes that may carry accounts.\<close>

definition assignable :: "Snapshot \<Rightarrow> (string \<times> string) list \<Rightarrow> string \<Rightarrow> Node list" where
  "assignable snap probes scope =
     filter (\<lambda>n. \<not> nd_Pool n \<and> map_of probes (nd_ID n) \<noteq> Some ''unhealthy'') (Candidates snap scope)"

definition scope_refs :: "AccountRef list \<Rightarrow> string \<Rightarrow> AccountRef list" where
  "scope_refs accounts scope =
     foldr (insert_by (\<lambda>a b. ar_AccountID a < ar_AccountID b)) (filter (\<lambda>ref. ar_Scope ref = scope) accounts) []"

definition scope_bindings :: "string \<Rightarrow> Node list \<Rightarrow> loads \<Rightarrow> (string \<times> string) list \<Rightarrow> (string \<times> string) list" where
  "scope_bindings scope nodes load next =
     fold (\<lambda>n. fold (\<lambda>affinity. AList.update (scope @ ''|'' @ affinity) (nd_ID n)) (load (nd_ID n))) nodes next"

definition plan_bindings ::
  "Snapshot \<Rightarrow> (string \<times> string) list \<Rightarrow> AccountRef list \<Rightarrow> bool \<Rightarrow> RebalanceResult \<times> (string \<times> string) list" where
  "plan_bindings snap probes accounts balance =
     fold (\<lambda>scope (result, next).
         let nodes = assignable snap probes scope;
             (load, result1) = assign_scope snap balance scope nodes (scope_refs accounts scope) result
         in (result1, scope_bindings scope nodes load next))
       GrokEgressScopes
       (\<lparr>rb_Accounts = int (length accounts), rb_Assigned = 0, rb_Moved = 0, rb_Released = 0, rb_Unplaced = 0\<rparr>, [])"

text \<open>\<open>listed\<close> is what the account lister answers, \<open>fails\<close> the error of the write.\<close>

definition Rebalance ::
  "(string \<Rightarrow> string option) \<Rightarrow> (string \<Rightarrow> string option) \<Rightarrow> string + AccountRef list \<Rightarrow> (string \<times> string) list \<Rightarrow> string option \<Rightarrow>
   (egress_store \<Rightarrow> nat \<Rightarrow> string + egress_store) \<Rightarrow> bool \<Rightarrow> Registry_state \<times> egress_store \<Rightarrow>
   (RebalanceResult \<times> string option) \<times> Registry_state \<times> egress_store" where
  "Rebalance validate routable listed probes fails reads balance w =
     (let (r, st) = w in
      case listed of
        Inl err \<Rightarrow> ((\<lparr>rb_Accounts = 0, rb_Assigned = 0, rb_Moved = 0, rb_Released = 0, rb_Unplaced = 0\<rparr>, Some err), w)
      | Inr accounts \<Rightarrow>
          (case plan_bindings (er_snapshot r) probes accounts balance of
             (result, next) \<Rightarrow>
               (case ReplaceGrokEgressBindings fails next st of
                  (Some err, st1) \<Rightarrow> ((result, Some err), r, st1)
                | (None, st1) \<Rightarrow> ((result, None), snd (Reload validate routable (reads st1) r), st1))))"

section \<open>A rebalanced scope is even and within capacity\<close>

text \<open>The nodes of a snapshot that comes from the store: IDs are set and differ.\<close>

definition node_list :: "Node list \<Rightarrow> bool" where
  "node_list nodes \<longleftrightarrow> distinct (map nd_ID nodes) \<and> (\<forall>n \<in> set nodes. nd_ID n \<noteq> [])"

definition within_capacity :: "Node list \<Rightarrow> loads \<Rightarrow> bool" where
  "within_capacity nodes load \<longleftrightarrow>
     (\<forall>n \<in> set nodes. nd_Capacity n > 0 \<longrightarrow> int (length (load (nd_ID n))) \<le> nd_Capacity n)"

definition even_loads :: "Node list \<Rightarrow> loads \<Rightarrow> bool" where
  "even_loads nodes load \<longleftrightarrow>
     (\<forall>u \<in> set nodes. \<forall>v \<in> set nodes. full load v \<or> length (load (nd_ID u)) \<le> Suc (length (load (nd_ID v))))"

definition placed_count :: "Node list \<Rightarrow> loads \<Rightarrow> nat" where
  "placed_count nodes load = (\<Sum>i \<in> nd_ID ` set nodes. length (load i))"

lemma leastLoaded_spec:
  assumes "\<forall>n \<in> set nodes. nd_ID n \<noteq> []"
  shows "if leastLoaded nodes load ex = [] then \<forall>n \<in> set nodes. nd_ID n = ex \<or> full load n
    else \<exists>n \<in> set nodes. leastLoaded nodes load ex = nd_ID n \<and> nd_ID n \<noteq> ex \<and> \<not> full load n \<and>
      (\<forall>m \<in> set nodes. nd_ID m = ex \<or> full load m \<or> length (load (nd_ID n)) \<le> length (load (nd_ID m)))"
  using assms
proof (induction nodes rule: rev_induct)
  case Nil
  then show ?case by (simp add: leastLoaded_def)
next
  case (snoc x xs)
  let ?b = "leastLoaded xs load ex"
  have step: "leastLoaded (xs @ [x]) load ex =
      (if nd_ID x = ex \<or> full load x then ?b
       else if ?b = [] \<or> length (load (nd_ID x)) < length (load ?b) then nd_ID x else ?b)"
    by (simp add: leastLoaded_def)
  from snoc have IH: "if ?b = [] then \<forall>n \<in> set xs. nd_ID n = ex \<or> full load n
    else \<exists>n \<in> set xs. ?b = nd_ID n \<and> nd_ID n \<noteq> ex \<and> \<not> full load n \<and>
      (\<forall>m \<in> set xs. nd_ID m = ex \<or> full load m \<or> length (load (nd_ID n)) \<le> length (load (nd_ID m)))"
    and x: "nd_ID x \<noteq> []" by auto
  show ?case
  proof (cases "?b = []")
    case True
    with IH x step show ?thesis by auto
  next
    case False
    with IH obtain n where n: "n \<in> set xs" "?b = nd_ID n" "nd_ID n \<noteq> ex" "\<not> full load n"
      "\<forall>m \<in> set xs. nd_ID m = ex \<or> full load m \<or> length (load (nd_ID n)) \<le> length (load (nd_ID m))" by auto
    then show ?thesis using step x False by (auto intro: le_trans less_imp_le)
  qed
qed

lemma busiest_spec:
  assumes "\<forall>n \<in> set nodes. nd_ID n \<noteq> []" "nodes \<noteq> []"
  shows "\<exists>n \<in> set nodes. busiest_node nodes load = nd_ID n \<and> (\<forall>m \<in> set nodes. length (load (nd_ID m)) \<le> length (load (nd_ID n)))"
  using assms
proof (induction nodes rule: rev_induct)
  case (snoc x xs)
  let ?b = "busiest_node xs load"
  have step: "busiest_node (xs @ [x]) load = (if ?b = [] \<or> length (load (nd_ID x)) > length (load ?b) then nd_ID x else ?b)"
    by (simp add: busiest_node_def)
  show ?case
  proof (cases "xs = []")
    case True
    then show ?thesis by (simp add: busiest_node_def)
  next
    case False
    with snoc obtain n where "n \<in> set xs" "?b = nd_ID n" "\<forall>m \<in> set xs. length (load (nd_ID m)) \<le> length (load (nd_ID n))" by auto
    with snoc.prems show ?thesis unfolding step by (auto intro: le_trans less_imp_le)
  qed
qed simp

text \<open>One move, from the busiest node to the least loaded one with room.\<close>

definition moved_load :: "string \<Rightarrow> string \<Rightarrow> loads \<Rightarrow> loads" where
  "moved_load busiest target load =
     (let load1 = load(busiest := butlast (load busiest)) in load1(target := load1 target @ [last (load busiest)]))"

definition may_move :: "Node list \<Rightarrow> loads \<Rightarrow> bool" where
  "may_move nodes load \<longleftrightarrow>
     (let b = busiest_node nodes load; t = leastLoaded nodes load b in
      b \<noteq> [] \<and> t \<noteq> [] \<and> Suc (length (load t)) < length (load b))"

lemma balance_step:
  "balance_loads nodes rounds (load, result) =
     (if rounds \<le> 0 \<or> \<not> may_move nodes load then (load, result)
      else balance_loads nodes (rounds - 1)
        (let b = busiest_node nodes load in moved_load b (leastLoaded nodes load b) load, result\<lparr>rb_Moved := rb_Moved result + 1\<rparr>))"
  by (subst balance_loads.simps) (auto simp: may_move_def moved_load_def Let_def)

lemma stuck_even:
  assumes "node_list nodes" "\<not> may_move nodes load"
  shows "even_loads nodes load"
  unfolding even_loads_def
proof (intro ballI)
  fix u v assume uv: "u \<in> set nodes" "v \<in> set nodes"
  let ?b = "busiest_node nodes load" let ?t = "leastLoaded nodes load ?b"
  have ids: "\<forall>n \<in> set nodes. nd_ID n \<noteq> []" using assms(1) by (simp add: node_list_def)
  from busiest_spec [OF ids, of load] uv obtain b where b: "b \<in> set nodes" "?b = nd_ID b"
    "\<forall>m \<in> set nodes. length (load (nd_ID m)) \<le> length (load (nd_ID b))" by fastforce
  have some: "?b \<noteq> []" using b(1,2) ids by auto
  show "full load v \<or> length (load (nd_ID u)) \<le> Suc (length (load (nd_ID v)))"
  proof (cases "nd_ID v = ?b \<or> full load v")
    case True
    with b uv(1) show ?thesis by (auto intro: le_SucI)
  next
    case False
    note t = leastLoaded_spec [OF ids, of load ?b]
    with False uv(2) have t0: "?t \<noteq> []" by (auto split: if_splits)
    with t False uv(2) have "length (load ?t) \<le> length (load (nd_ID v))" by (auto split: if_splits)
    moreover have "length (load ?b) \<le> Suc (length (load ?t))" using assms(2) t0 some by (auto simp: may_move_def Let_def)
    moreover have "length (load (nd_ID u)) \<le> length (load ?b)" using b uv(1) by simp
    ultimately show ?thesis by linarith
  qed
qed

lemma may_moveE:
  assumes "node_list nodes" "may_move nodes load"
  obtains b t where "b \<in> set nodes" "t \<in> set nodes" "busiest_node nodes load = nd_ID b"
    "leastLoaded nodes load (nd_ID b) = nd_ID t" "nd_ID t \<noteq> nd_ID b" "\<not> full load t"
    "Suc (length (load (nd_ID t))) < length (load (nd_ID b))"
    "\<forall>m \<in> set nodes. nd_ID m = nd_ID b \<or> full load m \<or> length (load (nd_ID t)) \<le> length (load (nd_ID m))"
proof -
  have ids: "\<forall>n \<in> set nodes. nd_ID n \<noteq> []" using assms(1) by (simp add: node_list_def)
  let ?b = "busiest_node nodes load"
  have m: "?b \<noteq> []" "leastLoaded nodes load ?b \<noteq> []" "Suc (length (load (leastLoaded nodes load ?b))) < length (load ?b)"
    using assms(2) by (simp_all add: may_move_def Let_def)
  then have "nodes \<noteq> []" by (auto simp: busiest_node_def)
  from busiest_spec [OF ids this, of load] obtain b where b: "b \<in> set nodes" "?b = nd_ID b" by auto
  from leastLoaded_spec [OF ids, of load ?b] m(2) obtain t where t: "t \<in> set nodes" "leastLoaded nodes load ?b = nd_ID t"
    "nd_ID t \<noteq> ?b" "\<not> full load t"
    "\<forall>m \<in> set nodes. nd_ID m = ?b \<or> full load m \<or> length (load (nd_ID t)) \<le> length (load (nd_ID m))"
    by (auto split: if_splits)
  show ?thesis using that [of b t] b t m(3) by simp
qed

text \<open>What a node holds beyond one more than the least loaded one; every move takes one of it away.\<close>

definition excess :: "Node list \<Rightarrow> nat \<Rightarrow> loads \<Rightarrow> nat" where
  "excess nodes m load = (\<Sum>i \<in> nd_ID ` set nodes. length (load i) - Suc m)"

definition least_load :: "Node list \<Rightarrow> loads \<Rightarrow> nat" where
  "least_load nodes load = length (load (leastLoaded nodes load (busiest_node nodes load)))"

lemma moved_length: "b \<noteq> t \<Longrightarrow> load b \<noteq> [] \<Longrightarrow> length (moved_load b t load i) =
  (if i = t then Suc (length (load t)) else if i = b then length (load b) - 1 else length (load i))"
  by (simp add: moved_load_def Let_def)

lemma move_progress:
  assumes "node_list nodes" "may_move nodes load"
    and "load' = (let b = busiest_node nodes load in moved_load b (leastLoaded nodes load b) load)"
  shows "may_move nodes load' \<Longrightarrow> excess nodes (least_load nodes load') load' < excess nodes (least_load nodes load) load"
    and "within_capacity nodes load \<Longrightarrow> within_capacity nodes load'"
    and "placed_count nodes load' = placed_count nodes load"
proof -
  from may_moveE [OF assms(1,2)] obtain b t where bt: "b \<in> set nodes" "t \<in> set nodes" "busiest_node nodes load = nd_ID b"
    "leastLoaded nodes load (nd_ID b) = nd_ID t" "nd_ID t \<noteq> nd_ID b" "\<not> full load t"
    "Suc (length (load (nd_ID t))) < length (load (nd_ID b))"
    "\<forall>m \<in> set nodes. nd_ID m = nd_ID b \<or> full load m \<or> length (load (nd_ID t)) \<le> length (load (nd_ID m))" by blast
  let ?m = "length (load (nd_ID t))"
  have some: "load (nd_ID b) \<noteq> []" using bt(7) by auto
  have len: "length (load' i) = (if i = nd_ID t then Suc ?m else if i = nd_ID b then length (load (nd_ID b)) - 1 else length (load i))" for i
    using moved_length [of "nd_ID b" "nd_ID t" load i, OF bt(5) [symmetric] some] bt(3,4) assms(3) by (simp add: Let_def)
  have least: "least_load nodes load = ?m" using bt(3,4) by (simp add: least_load_def)
  have same: "n = n'" if "nd_ID n = nd_ID n'" "n \<in> set nodes" "n' \<in> set nodes" for n n'
    using assms(1) that by (auto simp: node_list_def distinct_map inj_on_def)
  show "within_capacity nodes load'" if "within_capacity nodes load"
    unfolding within_capacity_def
  proof (intro ballI impI)
    fix n assume n: "n \<in> set nodes" "nd_Capacity n > 0"
    with that have "int (length (load (nd_ID n))) \<le> nd_Capacity n" by (simp add: within_capacity_def)
    moreover have "int (length (load (nd_ID t))) < nd_Capacity t" if "n = t" using that n(2) bt(6) by (simp add: full_def)
    ultimately show "int (length (load' (nd_ID n))) \<le> nd_Capacity n" using same [OF _ n(1) bt(2)] by (auto simp: len)
  qed
  show "placed_count nodes load' = placed_count nodes load"
  proof -
    let ?I = "nd_ID ` set nodes"
    have I: "finite ?I" "nd_ID b \<in> ?I" "nd_ID t \<in> ?I - {nd_ID b}" using bt by auto
    have split: "(\<Sum>i \<in> ?I. f i) = f (nd_ID b) + f (nd_ID t) + (\<Sum>i \<in> ?I - {nd_ID b} - {nd_ID t}. f i)" for f :: "string \<Rightarrow> nat"
      using sum.remove [OF I(1,2), of f] sum.remove [OF finite_Diff [OF I(1)] I(3), of f] by simp
    have "(\<Sum>i \<in> ?I - {nd_ID b} - {nd_ID t}. length (load' i)) = (\<Sum>i \<in> ?I - {nd_ID b} - {nd_ID t}. length (load i))"
      by (rule sum.cong) (auto simp: len)
    then show ?thesis using bt(5,7) unfolding placed_count_def split by (simp add: len)
  qed
  show "excess nodes (least_load nodes load') load' < excess nodes (least_load nodes load) load" if mv: "may_move nodes load'"
  proof -
    from may_moveE [OF assms(1) mv] obtain b' t' where bt': "b' \<in> set nodes" "t' \<in> set nodes" "busiest_node nodes load' = nd_ID b'"
      "leastLoaded nodes load' (nd_ID b') = nd_ID t'" "\<not> full load' t'" by metis
    then have least': "least_load nodes load' = length (load' (nd_ID t'))" by (simp add: least_load_def)
    have up: "?m \<le> length (load' (nd_ID t'))"
    proof (cases "nd_ID t' = nd_ID t \<or> nd_ID t' = nd_ID b")
      case True
      with bt(5,7) show ?thesis by (auto simp: len)
    next
      case False
      with bt'(5) have "\<not> full load t'" by (simp add: full_def len)
      with bt(8) bt'(2) False show ?thesis by (auto simp: len)
    qed
    have "excess nodes (least_load nodes load') load' \<le> excess nodes ?m load'"
      unfolding excess_def least' using up by (intro sum_mono) simp
    also have "\<dots> < excess nodes ?m load"
      unfolding excess_def
    proof (rule sum_strict_mono_ex1)
      show "\<forall>i \<in> nd_ID ` set nodes. length (load' i) - Suc ?m \<le> length (load i) - Suc ?m" by (auto simp: len)
      show "\<exists>i \<in> nd_ID ` set nodes. length (load' i) - Suc ?m < length (load i) - Suc ?m"
        using bt by (intro bexI [of _ "nd_ID b"]) (auto simp: len)
    qed simp
    finally show ?thesis using least by simp
  qed
qed

lemma move_excess:
  assumes "node_list nodes" "may_move nodes load"
  shows "0 < excess nodes (least_load nodes load) load"
proof (rule may_moveE [OF assms])
  fix b t
  assume bt: "b \<in> set nodes" "busiest_node nodes load = nd_ID b" "leastLoaded nodes load (nd_ID b) = nd_ID t"
    "Suc (length (load (nd_ID t))) < length (load (nd_ID b))"
  then have "0 < length (load (nd_ID b)) - Suc (least_load nodes load)" by (simp add: least_load_def)
  with bt(1) show ?thesis unfolding excess_def by (intro sum_pos2 [of _ "nd_ID b"]) auto
qed

definition next_load :: "Node list \<Rightarrow> loads \<Rightarrow> loads" where
  "next_load nodes load = (let b = busiest_node nodes load in moved_load b (leastLoaded nodes load b) load)"

text \<open>What every move keeps holds at the end.\<close>

lemma balance_loads_keeps:
  assumes "\<And>load. may_move nodes load \<Longrightarrow> P load \<Longrightarrow> P (next_load nodes load)" "P load"
  shows "P (fst (balance_loads nodes rounds (load, result)))"
  using assms(2)
proof (induction "nat rounds" arbitrary: rounds load result)
  case 0
  then show ?case by (simp add: balance_step)
next
  case (Suc k)
  then have "k = nat (rounds - 1)" by simp
  from Suc.hyps(1) [OF this] Suc.prems assms(1) [of load] show ?case
    by (subst balance_step) (simp add: next_load_def)
qed

lemma balance_loads_even:
  assumes "node_list nodes" "may_move nodes load \<Longrightarrow> int (excess nodes (least_load nodes load) load) \<le> rounds"
  shows "even_loads nodes (fst (balance_loads nodes rounds (load, result)))"
  using assms(2)
proof (induction "nat rounds" arbitrary: rounds load result)
  case 0
  then have "\<not> may_move nodes load" using move_excess [OF assms(1), of load] by force
  then show ?case using 0(1) stuck_even [OF assms(1)] by (simp add: balance_step)
next
  case (Suc k)
  then have k: "k = nat (rounds - 1)" and pos: "\<not> rounds \<le> 0" by simp_all
  show ?case
  proof (cases "may_move nodes load")
    case True
    have "even_loads nodes (fst (balance_loads nodes (rounds - 1) (next_load nodes load, result\<lparr>rb_Moved := rb_Moved result + 1\<rparr>)))"
      using move_progress(1) [OF assms(1) True next_load_def] Suc.prems [OF True] by (intro Suc.hyps(1) [OF k]) simp
    with True pos show ?thesis by (subst balance_step) (simp add: next_load_def)
  next
    case False
    then show ?thesis using stuck_even [OF assms(1)] by (simp add: balance_step)
  qed
qed

lemmas move_keeps = move_progress(2,3) [OF _ _ next_load_def]

text \<open>The first two passes.\<close>

lemma placed_count_update:
  "n \<in> set nodes \<Longrightarrow> placed_count nodes (load(nd_ID n := xs)) + length (load (nd_ID n)) = placed_count nodes load + length xs"
proof -
  assume n: "n \<in> set nodes"
  let ?I = "nd_ID ` set nodes"
  have I: "finite ?I" "nd_ID n \<in> ?I" using n by auto
  have "(\<Sum>i \<in> ?I - {nd_ID n}. length ((load(nd_ID n := xs)) i)) = (\<Sum>i \<in> ?I - {nd_ID n}. length (load i))"
    by (rule sum.cong) auto
  then show ?thesis unfolding placed_count_def
    using sum.remove [OF I, of "\<lambda>i. length (load i)"] sum.remove [OF I, of "\<lambda>i. length ((load(nd_ID n := xs)) i)"] by simp
qed

lemma append_within:
  assumes "node_list nodes" "within_capacity nodes load" "n \<in> set nodes" "\<not> full load n"
  shows "within_capacity nodes (load(nd_ID n := load (nd_ID n) @ [a]))"
proof -
  have same: "m = n" if "nd_ID m = nd_ID n" "m \<in> set nodes" for m
    using assms(1,3) that by (auto simp: node_list_def distinct_map inj_on_def)
  have "int (length ((load(nd_ID n := load (nd_ID n) @ [a])) (nd_ID m))) \<le> nd_Capacity m"
    if m: "m \<in> set nodes" "nd_Capacity m > 0" for m
  proof (cases "nd_ID m = nd_ID n")
    case True
    with same [OF True m(1)] assms(4) m(2) show ?thesis by (simp add: full_def)
  next
    case False
    with assms(2) m show ?thesis by (simp add: within_capacity_def)
  qed
  then show ?thesis by (simp add: within_capacity_def)
qed

lemma keep_bindings_result:
  assumes "node_list nodes" "within_capacity nodes load" "keep_bindings snap nodes scope refs (load, unbound, result) = (load', unbound', result')"
  shows "within_capacity nodes load'" "placed_count nodes load' + length unbound' = placed_count nodes load + length unbound + length refs"
    "rb_Unplaced result' = rb_Unplaced result"
proof -
  have "within_capacity nodes load' \<and> placed_count nodes load' + length unbound' = placed_count nodes load + length unbound + length refs \<and>
      rb_Unplaced result' = rb_Unplaced result"
    using assms(2,3)
  proof (induction refs arbitrary: load unbound result)
    case (Cons ref refs)
    let ?bound = "Binding snap scope (ar_Affinity ref)"
    let ?node = "map_of (rev (map (\<lambda>n. (nd_ID n, n)) nodes)) ?bound"
    have found: "n \<in> set nodes \<and> nd_ID n = ?bound" if "?node = Some n" for n
      using map_of_SomeD [OF that] by auto
    show ?case
    proof (cases "\<exists>n. ?node = Some n \<and> (nd_Capacity n = 0 \<or> int (length (load ?bound)) < nd_Capacity n)")
      case True
      then obtain n where n: "?node = Some n" "nd_Capacity n = 0 \<or> int (length (load ?bound)) < nd_Capacity n" by blast
      with found have b: "n \<in> set nodes" "nd_ID n = ?bound" by blast+
      have "\<not> full load n" using n(2) b(2) by (auto simp: full_def)
      with append_within [OF assms(1) Cons.prems(1) b(1)]
      have w: "within_capacity nodes (load(?bound := load ?bound @ [ar_Affinity ref]))" by (simp add: b(2))
      have c: "placed_count nodes (load(?bound := load ?bound @ [ar_Affinity ref])) = Suc (placed_count nodes load)"
        using placed_count_update [OF b(1), of load "load ?bound @ [ar_Affinity ref]"] b(2) by simp
      have "keep_bindings snap nodes scope refs (load(?bound := load ?bound @ [ar_Affinity ref]), unbound, result) = (load', unbound', result')"
        using Cons.prems(2) n by (simp add: Let_def)
      from Cons.IH [OF w this] show ?thesis unfolding c by simp
    next
      case False
      then show ?thesis using Cons.IH [OF Cons.prems(1)] Cons.prems(2)
        by (auto simp: Let_def split: option.splits if_splits)
    qed
  qed simp
  then show "within_capacity nodes load'" "placed_count nodes load' + length unbound' = placed_count nodes load + length unbound + length refs"
    "rb_Unplaced result' = rb_Unplaced result" by blast+
qed

lemma place_unbound_result:
  assumes "node_list nodes" "within_capacity nodes load" "place_unbound nodes affinities (load, result) = (load', result')"
  shows "within_capacity nodes load' \<and> rb_Unplaced result \<le> rb_Unplaced result' \<and>
    int (placed_count nodes load') + rb_Unplaced result' = int (placed_count nodes load) + rb_Unplaced result + int (length affinities)"
  using assms(2,3)
proof (induction affinities arbitrary: load result)
  case (Cons a rest)
  have ids: "\<forall>n \<in> set nodes. nd_ID n \<noteq> []" using assms(1) by (simp add: node_list_def)
  let ?t = "leastLoaded nodes load []"
  show ?case
  proof (cases "?t = []")
    case True
    with Cons.IH [OF Cons.prems(1), of "result\<lparr>rb_Unplaced := rb_Unplaced result + 1\<rparr>"] Cons.prems(2) show ?thesis by (simp add: Let_def)
  next
    case False
    with leastLoaded_spec [OF ids, of load "[]"] obtain n where n: "n \<in> set nodes" "?t = nd_ID n" "\<not> full load n" by auto
    have w: "within_capacity nodes (load(?t := load ?t @ [a]))" using append_within [OF assms(1) Cons.prems(1) n(1,3)] n(2) by simp
    have c: "placed_count nodes (load(?t := load ?t @ [a])) = Suc (placed_count nodes load)"
      using placed_count_update [OF n(1), of load "load ?t @ [a]"] n(2) by simp
    have "place_unbound nodes rest (load(?t := load ?t @ [a]), result\<lparr>rb_Assigned := rb_Assigned result + 1\<rparr>) = (load', result')"
      using Cons.prems(2) False by (simp add: Let_def)
    from Cons.IH [OF w this] show ?thesis unfolding c by simp
  qed
qed simp

lemma place_grows: "length (load i) \<le> length (fst (place_unbound nodes affinities (load, result)) i)"
proof (induction affinities arbitrary: load result)
  case (Cons a rest)
  let ?t = "leastLoaded nodes load []"
  let ?placed = "(load(?t := load ?t @ [a]), result\<lparr>rb_Assigned := rb_Assigned result + 1\<rparr>)"
  have "length (load i) \<le> length ((load(?t := load ?t @ [a])) i)" by simp
  also have "\<dots> \<le> length (fst (place_unbound nodes rest ?placed) i)" by (rule Cons.IH)
  finally have "length (load i) \<le> length (fst (place_unbound nodes rest ?placed) i)" .
  moreover have "length (load i) \<le> length (fst (place_unbound nodes rest (load, result\<lparr>rb_Unplaced := rb_Unplaced result + 1\<rparr>)) i)"
    by (rule Cons.IH)
  ultimately show ?case by (simp only: place_unbound.simps Let_def split: if_split) blast
qed simp

lemma place_keeps_full: "full load n \<Longrightarrow> full (fst (place_unbound nodes affinities (load, result))) n"
  using place_grows [of load "nd_ID n" nodes affinities result] by (simp add: full_def)

lemma unplaced_when_full:
  assumes "\<forall>n \<in> set nodes. nd_ID n \<noteq> []" "place_unbound nodes affinities (load, result) = (load', result')"
    "rb_Unplaced result \<noteq> rb_Unplaced result'" "n \<in> set nodes"
  shows "full load' n"
  using assms(2,3)
proof (induction affinities arbitrary: load result)
  case (Cons a rest)
  let ?t = "leastLoaded nodes load []"
  show ?case
  proof (cases "?t = []")
    case True
    with leastLoaded_spec [OF assms(1), of load "[]"] assms(1,4) have "full load n" by auto
    from place_keeps_full [OF this, of nodes "a # rest" result] Cons.prems(1) show ?thesis by simp
  next
    case False
    have "place_unbound nodes rest (load(?t := load ?t @ [a]), result\<lparr>rb_Assigned := rb_Assigned result + 1\<rparr>) = (load', result')"
      using Cons.prems(1) False by (simp add: Let_def)
    from Cons.IH [OF this] Cons.prems(2) show ?thesis by simp
  qed
qed simp

lemma balance_loads_unplaced: "rb_Unplaced (snd (balance_loads nodes rounds (load, result))) = rb_Unplaced result"
proof (induction "nat rounds" arbitrary: rounds load result)
  case 0
  then show ?case by (simp add: balance_step)
next
  case (Suc k)
  then have "k = nat (rounds - 1)" by simp
  from Suc.hyps(1) [OF this] show ?case by (subst balance_step) simp
qed

lemma full_nodes_stay:
  assumes "node_list nodes" "\<forall>n \<in> set nodes. full load n"
  shows "balance_loads nodes rounds (load, result) = (load, result)"
proof -
  have "\<forall>n \<in> set nodes. nd_ID n \<noteq> []" using assms(1) by (simp add: node_list_def)
  with leastLoaded_spec [OF this, of load "busiest_node nodes load"] assms(2) have "\<not> may_move nodes load"
    by (auto simp: may_move_def Let_def split: if_splits)
  then show ?thesis by (simp add: balance_step)
qed

lemma assign_scope_result:
  assumes "node_list nodes" "nodes \<noteq> []" "assign_scope snap balance scope nodes refs result = (load, result')"
  shows "within_capacity nodes load"
    and "int (placed_count nodes load) + (rb_Unplaced result' - rb_Unplaced result) = int (length refs)"
    and "rb_Unplaced result' \<noteq> rb_Unplaced result \<Longrightarrow> \<forall>n \<in> set nodes. full load n"
    and "balance \<Longrightarrow> length refs \<le> 10000 \<Longrightarrow> even_loads nodes load"
proof -
  obtain load1 unbound result1 where k: "keep_bindings snap nodes scope refs (\<lambda>_. [], [], result) = (load1, unbound, result1)"
    by (metis prod_cases3)
  have "within_capacity nodes (\<lambda>_. [])" "placed_count nodes (\<lambda>_. []) = 0" by (simp_all add: within_capacity_def placed_count_def)
  with keep_bindings_result [OF assms(1) _ k] have kept: "within_capacity nodes load1"
    "placed_count nodes load1 + length unbound = length refs" "rb_Unplaced result1 = rb_Unplaced result" by simp_all
  obtain load2 result2 where p: "place_unbound nodes unbound (load1, result1) = (load2, result2)" by fastforce
  from place_unbound_result [OF assms(1) kept(1) p] kept
  have placed: "within_capacity nodes load2"
    "int (placed_count nodes load2) + (rb_Unplaced result2 - rb_Unplaced result) = int (length refs)"
    "rb_Unplaced result \<le> rb_Unplaced result2" by simp_all
  have filled: "\<forall>n \<in> set nodes. full load2 n" if "rb_Unplaced result2 \<noteq> rb_Unplaced result"
    using unplaced_when_full [OF _ p] assms(1) that kept(3) by (auto simp: node_list_def)
  have "assign_scope snap balance scope nodes refs result =
      (if balance then balance_loads nodes balance_rounds (load2, result2) else (load2, result2))"
    using assms(2) k p by (simp add: assign_scope_def Let_def)
  with assms(3) have result: "(load, result') = (if balance then balance_loads nodes balance_rounds (load2, result2) else (load2, result2))"
    by simp
  let ?b = "fst (balance_loads nodes balance_rounds (load2, result2))"
  have within: "within_capacity nodes ?b"
    by (rule balance_loads_keeps [OF move_keeps(1) [OF assms(1)] placed(1)])
  have count: "placed_count nodes ?b = placed_count nodes load2"
    by (rule balance_loads_keeps [where P = "\<lambda>l. placed_count nodes l = placed_count nodes load2"])
      (simp_all add: move_keeps(2) [OF assms(1)])
  have unplaced: "rb_Unplaced result' = rb_Unplaced result2"
    using result balance_loads_unplaced [of nodes balance_rounds load2 result2] by (cases balance) (auto dest: arg_cong [where f = snd])
  have load: "load = (if balance then ?b else load2)" using result by (cases balance) (auto dest: arg_cong [where f = fst])
  show "within_capacity nodes load" using load within placed(1) by simp
  show "int (placed_count nodes load) + (rb_Unplaced result' - rb_Unplaced result) = int (length refs)"
    using load count placed(2) unplaced by simp
  show "\<forall>n \<in> set nodes. full load n" if "rb_Unplaced result' \<noteq> rb_Unplaced result"
    using that filled unplaced full_nodes_stay [OF assms(1), of load2 balance_rounds result2] load by auto
  show "even_loads nodes load" if "balance" "length refs \<le> 10000"
  proof -
    have "excess nodes (least_load nodes load2) load2 \<le> placed_count nodes load2"
      unfolding excess_def placed_count_def by (intro sum_mono) simp
    with placed(2,3) that(2) have "int (excess nodes (least_load nodes load2) load2) \<le> balance_rounds"
      by (simp add: balance_rounds_def)
    from balance_loads_even [OF assms(1) this] that(1) load show ?thesis by simp
  qed
qed


definition demo_node :: "string \<Rightarrow> int \<Rightarrow> Node" where
  "demo_node i capacity =
     \<lparr>nd_ID = i, nd_Name = i, nd_Scope = GrokEgressScopeBuild, nd_ProxyURL = [], nd_Pool = False, nd_Capacity = capacity,
      nd_UserAgent = [], nd_Cookies = [], nd_SourceID = []\<rparr>"

definition demo_snapshot :: Snapshot where
  "demo_snapshot =
     \<lparr>sn_Nodes = [demo_node ''a'' 0, demo_node ''b'' 2, demo_node ''c'' 1], sn_Invalid = [],
      sn_Operations = DefaultGrokEgressOperations,
      sn_Bindings = map (\<lambda>x. (''grok_build|'' @ x, ''a'')) [''u'', ''v'', ''w'', ''x'', ''y'']\<rparr>"

definition demo_refs :: "AccountRef list" where
  "demo_refs = map (\<lambda>x. \<lparr>ar_Scope = GrokEgressScopeBuild, ar_Affinity = x, ar_AccountID = 0\<rparr>) [''u'', ''v'', ''w'', ''x'', ''y'']"


section \<open>Every instance catches up with the nodes\<close>

text \<open>What any instance does to the store.\<close>

inductive store_step :: "egress_store \<Rightarrow> egress_store \<Rightarrow> bool" where
  step_node: "store_step st (snd (SaveGrokEgressNode fails node st))"
| step_nodes: "store_step st (snd (SaveGrokEgressNodes fails nodes st))"
| step_delete: "store_step st (snd (DeleteGrokEgressNodes probe_fails list_fails unbind_fails fails ids st))"
| step_profile: "store_step st (snd (SaveGrokEgressProxyProfile fails profile st))"
| step_unprofile: "store_step st (snd (DeleteGrokEgressProxyProfile fails i st))"
| step_operations: "store_step st (snd (SaveGrokEgressOperations fails ops st))"
| step_bind: "store_step st (snd (SetGrokEgressBinding fails scope account node st))"
| step_rebind: "store_step st (snd (ReplaceGrokEgressBindings fails bindings st))"
| step_probe: "store_step st (snd (SaveGrokEgressProbe fails i status st))"

definition routing_records :: "egress_store \<Rightarrow> (string \<times> GrokEgressNode) list \<times> (string \<times> GrokEgressProxyProfile) list \<times> GrokEgressOperations option" where
  "routing_records st = (es_nodes st, es_profiles st, es_operations st)"

lemma unbind_records: "unbindGrokEgressNodes list_fails fails ids st = (err, st') \<Longrightarrow>
  routing_records st' = routing_records st \<and> es_version st' = es_version st"
  by (auto simp: unbindGrokEgressNodes_def Let_def routing_records_def split: option.splits if_splits)

lemma store_step_version: "store_step st st' \<Longrightarrow>
  es_version st \<le> es_version st' \<and> (es_version st = es_version st' \<longrightarrow> routing_records st = routing_records st')"
proof (induction rule: store_step.induct)
  case (step_delete st probe_fails list_fails unbind_fails fails ids)
  let ?st1 = "if probe_fails = None then st\<lparr>es_probes := filter (\<lambda>(i, status). i \<notin> set ids) (es_probes st)\<rparr> else st"
  obtain err st2 where u: "unbindGrokEgressNodes list_fails unbind_fails ids ?st1 = (err, st2)" by fastforce
  have st2: "routing_records st2 = routing_records st" "es_version st2 = es_version st"
    using unbind_records [OF u] by (simp_all add: routing_records_def)
  have "snd (DeleteGrokEgressNodes probe_fails list_fails unbind_fails fails ids st) = (if ids = [] then st
      else if err = None \<and> fails = None then bumpEgress (st2\<lparr>es_nodes := filter (\<lambda>(i, n). i \<notin> set ids) (es_nodes st2)\<rparr>) else st2)"
    unfolding DeleteGrokEgressNodes_def Let_def u by (simp split: option.split)
  then show ?case using st2 by (simp add: bumpEgress_def)
qed (auto simp: SaveGrokEgressNode_def SaveGrokEgressNodes_def SaveGrokEgressProxyProfile_def DeleteGrokEgressProxyProfile_def
  SaveGrokEgressOperations_def SetGrokEgressBinding_def ReplaceGrokEgressBindings_def SaveGrokEgressProbe_def bumpEgress_def
  routing_records_def Let_def split: option.split)

lemma store_steps_version: "store_step\<^sup>*\<^sup>* st st' \<Longrightarrow>
  es_version st \<le> es_version st' \<and> (es_version st = es_version st' \<longrightarrow> routing_records st = routing_records st')"
  by (induction rule: rtranclp_induct) (auto dest!: store_step_version)

text \<open>C28.
  An instance at the version of the store routes with the store's nodes, profiles and settings, although its last
  reload read them one after the other while other instances wrote, and whatever they wrote since.\<close>

theorem registry_catches_up:
  assumes "Reload validate routable reads r = (None, r')"
    and "\<forall>k < 5. reads k = Inr (seen k)" "\<forall>k < 4. store_step\<^sup>*\<^sup>* (seen k) (seen (Suc k))" "store_step\<^sup>*\<^sup>* (seen 4) st"
    and "er_version r' = es_version st"
  shows "er_snapshot r' = buildSnapshot validate routable (ListGrokEgressNodes st) (ListGrokEgressProxyProfiles st)
    (GetGrokEgressOperations st) (es_bindings (seen 4))"
proof -
  have r': "er_snapshot r' = buildSnapshot validate routable (ListGrokEgressNodes (seen 1)) (ListGrokEgressProxyProfiles (seen 2))
      (GetGrokEgressOperations (seen 3)) (es_bindings (seen 4))" "er_version r' = es_version (seen 0)"
    using assms(1,2) by (auto simp: Reload_def)
  have step: "store_step\<^sup>*\<^sup>* (seen 0) (seen 1)" "store_step\<^sup>*\<^sup>* (seen 1) (seen 2)" "store_step\<^sup>*\<^sup>* (seen 2) (seen 3)" "store_step\<^sup>*\<^sup>* (seen 3) (seen 4)"
    using assms(3) by (auto simp: numeral_eq_Suc)
  note last3 = rtranclp_trans [OF step(4) assms(4)]
  note last2 = rtranclp_trans [OF step(3) last3]
  note last1 = rtranclp_trans [OF step(2) last2]
  have eq: "es_version (seen 0) = es_version st" using r'(2) assms(5) by simp
  have "es_version (seen 1) = es_version st" "es_version (seen 2) = es_version st" "es_version (seen 3) = es_version st"
    using eq store_steps_version [OF step(1)] store_steps_version [OF step(2)] store_steps_version [OF step(3)]
      store_steps_version [OF last1] store_steps_version [OF last2] store_steps_version [OF last3] by linarith+
  then have "routing_records (seen 1) = routing_records st" "routing_records (seen 2) = routing_records st"
    "routing_records (seen 3) = routing_records st"
    using store_steps_version [OF last1] store_steps_version [OF last2] store_steps_version [OF last3] by blast+
  then show ?thesis unfolding r'(1)
    by (simp add: routing_records_def ListGrokEgressNodes_def ListGrokEgressProxyProfiles_def GetGrokEgressOperations_def)
qed

definition demo_store :: egress_store where
  "demo_store = \<lparr>es_nodes = [], es_profiles = [], es_operations = None, es_bindings = [], es_probes = [], es_version = 0\<rparr>"

theorem registry_catches_up_witness:
  "(let st = snd (SaveGrokEgressProbe None ''a'' ''healthy'' demo_store);
        r = snd (Reload (\<lambda>_. None) (\<lambda>_. None) (\<lambda>_. Inr demo_store) \<lparr>er_snapshot = emptySnapshot, er_version = 3, er_pending = []\<rparr>)
    in er_version r = es_version st \<and>
       er_snapshot r = buildSnapshot (\<lambda>_. None) (\<lambda>_. None) (ListGrokEgressNodes st) (ListGrokEgressProxyProfiles st) (GetGrokEgressOperations st) [])"
proof -
  let ?r0 = "\<lparr>er_snapshot = emptySnapshot, er_version = 3, er_pending = []\<rparr>"
  let ?st = "snd (SaveGrokEgressProbe None ''a'' ''healthy'' demo_store)"
  let ?r = "snd (Reload (\<lambda>_. None) (\<lambda>_. None) (\<lambda>_. Inr demo_store) ?r0)"
  have reload: "Reload (\<lambda>_. None) (\<lambda>_. None) (\<lambda>_. Inr demo_store) ?r0 = (None, ?r)" by (simp add: Reload_def)
  have "store_step\<^sup>*\<^sup>* demo_store ?st" by (intro r_into_rtranclp step_probe)
  moreover have "er_version ?r = es_version ?st" by (simp add: Reload_def SaveGrokEgressProbe_def demo_store_def)
  moreover have "es_bindings demo_store = []" by (simp add: demo_store_def)
  ultimately show ?thesis using registry_catches_up [OF reload, of "\<lambda>_. demo_store" ?st] by simp
qed

text \<open>Bindings do not raise the version: an instance that is up to date does not see one another instance made.\<close>

lemma binding_not_announced:
  assumes "er_version r = es_version st"
  shows "watch_tick validate routable (Inr (snd (SetGrokEgressBinding fails scope account node st))) reads r = r"
    and "watch_tick validate routable (Inr (snd (ReplaceGrokEgressBindings fails bindings st))) reads r = r"
  using assms by (simp_all add: watch_tick_def SetGrokEgressBinding_def ReplaceGrokEgressBindings_def Let_def split: option.split)

text \<open>An automatic binding goes to a node with room, counting the bindings that are still being saved.\<close>

lemma least_bound_room:
  assumes "least_bound snap pending candidates = i" "i \<noteq> []"
  shows "i \<in> set candidates \<and> (\<exists>node. node_by_ID snap i = Some node \<and>
    (nd_Capacity node > 0 \<longrightarrow> autobind_count snap pending i < nd_Capacity node))"
  using assms
proof (induction candidates arbitrary: i rule: rev_induct)
  case Nil
  then show ?case by (simp add: least_bound_def)
next
  case (snoc c cs)
  then show ?case by (auto simp: least_bound_def Let_def split: option.splits if_splits)
qed

lemma AutoBind_room:
  assumes "AutoBind (Some snap) scope affinity candidates pending = (i, pending')" "i \<noteq> []"
    and "map_of pending (scope @ ''|'' @ affinity) = None"
  shows "i \<in> set candidates \<and> (\<exists>node. node_by_ID snap i = Some node \<and>
    (nd_Capacity node > 0 \<longrightarrow> autobind_count snap pending i < nd_Capacity node))"
  using assms least_bound_room by (auto simp: AutoBind_def Let_def split: if_splits)

text \<open>Rebalancing forgets the bindings of a scope whose accounts are not listed, as those of Web assets never are.\<close>

lemma update_keys_set: "fst ` set (AList.update k v xs) = insert k (fst ` set xs)"
  by (induction xs) auto

lemma scope_bindings_keys:
  "fst ` set (scope_bindings scope nodes load nxt) \<subseteq> fst ` set nxt \<union> range (\<lambda>affinity. scope @ ''|'' @ affinity)"
    (is "?K (scope_bindings scope nodes load nxt) \<subseteq> ?K nxt \<union> ?R")
proof -
  have one: "?K (fold (\<lambda>affinity. AList.update (scope @ ''|'' @ affinity) v) as nxt) \<subseteq> ?K nxt \<union> ?R" for as v nxt
  proof (induction as arbitrary: nxt)
    case (Cons a as)
    have "?K (fold (\<lambda>affinity. AList.update (scope @ ''|'' @ affinity) v) as (AList.update (scope @ ''|'' @ a) v nxt)) \<subseteq>
        ?K (AList.update (scope @ ''|'' @ a) v nxt) \<union> ?R" by (rule Cons.IH)
    also have "\<dots> \<subseteq> ?K nxt \<union> ?R" unfolding update_keys_set by blast
    finally show ?case by simp
  qed simp
  show ?thesis unfolding scope_bindings_def
  proof (induction nodes arbitrary: nxt)
    case (Cons n nodes)
    let ?nxt = "fold (\<lambda>affinity. AList.update (scope @ ''|'' @ affinity) (nd_ID n)) (load (nd_ID n)) nxt"
    have "?K (fold (\<lambda>n. fold (\<lambda>affinity. AList.update (scope @ ''|'' @ affinity) (nd_ID n)) (load (nd_ID n))) nodes ?nxt) \<subseteq> ?K ?nxt \<union> ?R"
      by (rule Cons.IH)
    also have "\<dots> \<subseteq> ?K nxt \<union> ?R" using one [of "nd_ID n" "load (nd_ID n)" nxt] by blast
    finally show ?case by simp
  qed simp
qed

lemma empty_scope_loads:
  assumes "assign_scope snap balance scope nodes [] result = (load, result')"
  shows "load = (\<lambda>_. [])"
proof -
  have "\<not> may_move nodes (\<lambda>_. [])" by (simp add: may_move_def Let_def)
  with assms show ?thesis by (auto simp: assign_scope_def Let_def balance_step split: if_splits)
qed

lemma scope_refs_empty: "\<forall>ref \<in> set accounts. ar_Scope ref \<noteq> scope \<Longrightarrow> scope_refs accounts scope = []"
  by (simp add: scope_refs_def)

lemma scope_bindings_none: "scope_bindings scope nodes (\<lambda>_. []) nxt = nxt"
  by (induction nodes) (simp_all add: scope_bindings_def)

lemma rebalance_forgets_assets:
  assumes "\<forall>ref \<in> set accounts. ar_Scope ref \<noteq> GrokEgressScopeWebAsset" "plan_bindings snap probes accounts balance = (result, nxt)"
  shows "map_of nxt (GrokEgressScopeWebAsset @ ''|'' @ affinity) = None"
proof -
  let ?r0 = "\<lparr>rb_Accounts = int (length accounts), rb_Assigned = 0, rb_Moved = 0, rb_Released = 0, rb_Unplaced = 0\<rparr>"
  let ?turn = "\<lambda>scope. assign_scope snap balance scope (assignable snap probes scope) (scope_refs accounts scope)"
  let ?field = "GrokEgressScopeWebAsset @ ''|'' @ affinity"
  obtain l1 r1 where 1: "?turn GrokEgressScopeBuild ?r0 = (l1, r1)" by fastforce
  obtain l2 r2 where 2: "?turn GrokEgressScopeWeb r1 = (l2, r2)" by fastforce
  obtain l3 r3 where 3: "?turn GrokEgressScopeWebAsset r2 = (l3, r3)" by fastforce
  have l3: "l3 = (\<lambda>_. [])" using empty_scope_loads 3 scope_refs_empty [OF assms(1)] by simp
  let ?n1 = "scope_bindings GrokEgressScopeBuild (assignable snap probes GrokEgressScopeBuild) l1 []"
  let ?n2 = "scope_bindings GrokEgressScopeWeb (assignable snap probes GrokEgressScopeWeb) l2 ?n1"
  have "nxt = ?n2" using assms(2) 1 2 3 by (simp add: plan_bindings_def GrokEgressScopes_def l3 scope_bindings_none)
  moreover have "?field \<notin> fst ` set ?n2"
  proof
    assume field: "?field \<in> fst ` set ?n2"
    let ?R = "\<lambda>scope. range (\<lambda>affinity. scope @ ''|'' @ affinity)"
    have "fst ` set ?n1 \<subseteq> ?R GrokEgressScopeBuild"
      using scope_bindings_keys [of GrokEgressScopeBuild "assignable snap probes GrokEgressScopeBuild" l1 "[]"] by simp
    moreover have "fst ` set ?n2 \<subseteq> fst ` set ?n1 \<union> ?R GrokEgressScopeWeb" by (rule scope_bindings_keys)
    ultimately have "?field \<in> ?R GrokEgressScopeBuild \<union> ?R GrokEgressScopeWeb" using field by blast
    then show False by (auto simp: GrokEgressScopeWebAsset_def GrokEgressScopeWeb_def GrokEgressScopeBuild_def)
  qed
  ultimately show ?thesis by (simp add: map_of_eq_None_iff)
qed

end
