(* ===== verification/Egress_Pool.thy ===== *)
theory Egress_Pool
  imports Egress_Nodes Go_Float
begin

text \<open>
  The pool of egress nodes of one plane (\<^verbatim>\<open>internal/grok/egresspool/pool.go\<close>, \<^verbatim>\<open>node.go\<close>, \<^verbatim>\<open>health.go\<close>): which node
  a request leaves by, how nodes are scored and withheld after failures, how they are probed back, and the health
  file that survives a restart.

  \<^item> A Go map with a default for missing keys is a total function, one whose keys are tested is partial.
  \<^item> A \<open>pick_env\<close> is one visit of the pool: the snapshot it refreshes from, \<open>Current\<close> of the process registry for
    automatic bindings, and the clock. \<open>between\<close> is what other calls do to the pool while a probe is under way.
  \<^item> Scores are \<open>float64\<close> values with every operation rounded.
\<close>

section \<open>Nodes and state\<close>

definition healthSkipThreshold :: rat where "healthSkipThreshold = float64 (1 / 5)"
definition nodeCooldown :: duration where "nodeCooldown = 30 * second"
definition nodeCooldownMax :: duration where "nodeCooldownMax = 10 * minute"
definition healthPersistInterval :: duration where "healthPersistInterval = 5 * second"

datatype Outcome = OutcomeSuccess | OutcomeTransportError | OutcomeServerError | OutcomeChallenge | OutcomeRateLimited
  | OutcomeAccountBlock | OutcomeForbidden

record egress_node =
  en_Name :: string
  en_Label :: string
  en_URL :: string
  en_Weight :: int
  en_Scope :: string
  en_Proxied :: bool
  en_UserAgent :: string
  en_Cookies :: string

definition nodeFromRegistry :: "Node \<Rightarrow> egress_node" where
  "nodeFromRegistry n =
     \<lparr>en_Name = nd_ID n, en_Label = nd_Name n, en_URL = nd_ProxyURL n, en_Weight = 1, en_Scope = nd_Scope n,
      en_Proxied = (\<not> Direct n), en_UserAgent = nd_UserAgent n, en_Cookies = nd_Cookies n\<rparr>"

record Pool =
  pl_nodes :: "egress_node list"
  pl_health :: "string \<Rightarrow> rat"
  pl_unhealthy :: "string \<Rightarrow> time option"
  pl_failures :: "string \<Rightarrow> int"
  pl_lastError :: "string \<Rightarrow> string"
  pl_lastProbe :: "string \<Rightarrow> time option"
  pl_lastPersist :: time
  pl_usedCount :: "string \<Rightarrow> int"
  pl_sticky :: "string \<Rightarrow> string"

record pick_env =
  pk_snap :: Snapshot
  pk_current :: "Snapshot option"
  pk_now :: time

definition refreshNodesLocked :: "Snapshot \<Rightarrow> Pool \<Rightarrow> Pool" where
  "refreshNodesLocked snap p = p\<lparr>pl_nodes := map nodeFromRegistry (sn_Nodes snap)\<rparr>"

definition targetScopeLocked :: "Pool \<Rightarrow> string \<Rightarrow> string" where
  "targetScopeLocked p scope =
     (let target = RegistryScope scope in
      if target = GrokEgressScopeWebAsset
      then (if \<exists>n \<in> set (pl_nodes p). en_Scope n = target then target else GrokEgressScopeWeb)
      else target)"

section \<open>Health\<close>

definition degradedLocked :: "Pool \<Rightarrow> string \<Rightarrow> time \<Rightarrow> bool" where
  "degradedLocked p name now \<longleftrightarrow>
     \<not> (pl_health p name \<ge> healthSkipThreshold \<or> pl_health p name = 0) \<and>
     (case pl_unhealthy p name of None \<Rightarrow> False | Some u \<Rightarrow> now < u)"

fun cooldown_loop :: "nat \<Rightarrow> duration \<Rightarrow> duration" where
  "cooldown_loop 0 cooldown = cooldown"
| "cooldown_loop (Suc n) cooldown =
     (let doubled = cooldown * 2 in if doubled \<ge> nodeCooldownMax then nodeCooldownMax else cooldown_loop n doubled)"

definition nodeCooldownFor :: "int \<Rightarrow> duration" where
  "nodeCooldownFor failures = (if failures \<le> 1 then nodeCooldown else cooldown_loop (nat (failures - 1)) nodeCooldown)"

definition outcomeReason :: "Outcome \<Rightarrow> string" where
  "outcomeReason outcome =
     (case outcome of OutcomeServerError \<Rightarrow> ''server'' | OutcomeChallenge \<Rightarrow> ''challenge'' | _ \<Rightarrow> ''transport'')"

text \<open>The health file; \<open>he_CooldownUntil\<close> is RFC 3339, in whole seconds.\<close>

record egressHealthEntry =
  he_Name :: string
  he_Health :: rat
  he_Failures :: int
  he_CooldownUntil :: "time option"
  he_LastError :: string

definition health_entry :: "time \<Rightarrow> Pool \<Rightarrow> string \<Rightarrow> egressHealthEntry" where
  "health_entry now p name =
     \<lparr>he_Name = name, he_Health = pl_health p name, he_Failures = pl_failures p name,
      he_CooldownUntil = (case pl_unhealthy p name of
          None \<Rightarrow> None
        | Some u \<Rightarrow> if u > now then Some (u div second * second) else None),
      he_LastError = pl_lastError p name\<rparr>"

text \<open>\<open>writes\<close> is whether the file can be written and renamed; there is no file without a media directory.\<close>

type_synonym health_file = "egressHealthEntry list option"

definition persistHealthLocked :: "bool \<Rightarrow> bool \<Rightarrow> time \<Rightarrow> Pool \<times> health_file \<Rightarrow> Pool \<times> health_file" where
  "persistHealthLocked configured writes now w =
     (let (p, saved) = w in
      if \<not> configured \<or> \<not> is_zero (pl_lastPersist p) \<and> time_sub now (pl_lastPersist p) < healthPersistInterval then (p, saved)
      else (p\<lparr>pl_lastPersist := now\<rparr>,
            if writes then Some (map (\<lambda>n. health_entry now p (en_Name n)) (pl_nodes p)) else saved))"

definition restore_entry :: "string set \<Rightarrow> time \<Rightarrow> egressHealthEntry \<Rightarrow> Pool \<Rightarrow> Pool" where
  "restore_entry known now entry p =
     (let name = he_Name entry in
      if name \<notin> known then p
      else p\<lparr>pl_health := (pl_health p)(name := he_Health entry),
             pl_failures := (pl_failures p)(name := he_Failures entry),
             pl_lastError := (if he_LastError entry \<noteq> [] then (pl_lastError p)(name := he_LastError entry) else pl_lastError p),
             pl_unhealthy := (case he_CooldownUntil entry of
                 None \<Rightarrow> pl_unhealthy p
               | Some u \<Rightarrow> if u > now then (pl_unhealthy p)(name \<mapsto> u) else pl_unhealthy p)\<rparr>)"

definition restoreHealth :: "time \<Rightarrow> health_file \<Rightarrow> Pool \<Rightarrow> Pool" where
  "restoreHealth now saved p =
     (case saved of
        None \<Rightarrow> p
      | Some entries \<Rightarrow> fold (restore_entry (set (map en_Name (pl_nodes p))) now) entries p)"

definition new_pool :: "Snapshot \<Rightarrow> time \<Rightarrow> health_file \<Rightarrow> Pool" where
  "new_pool snap now saved =
     restoreHealth now saved (refreshNodesLocked snap
       \<lparr>pl_nodes = [], pl_health = (\<lambda>_. 0), pl_unhealthy = (\<lambda>_. None), pl_failures = (\<lambda>_. 0), pl_lastError = (\<lambda>_. []),
        pl_lastProbe = (\<lambda>_. None), pl_lastPersist = 0, pl_usedCount = (\<lambda>_. 0), pl_sticky = (\<lambda>_. [])\<rparr>)"

definition tenth :: rat where "tenth = float64 (1 / 10)"

definition raised :: "rat \<Rightarrow> rat" where "raised score = float64 (score + float64 (float64 (1 - score) * tenth))"
definition lowered :: "rat \<Rightarrow> rat" where "lowered score = float64 (float64 (score * (1 / 2)) - tenth)"

text \<open>What \<open>Feedback\<close> records of an outcome.\<close>

definition record_outcome :: "time \<Rightarrow> string \<Rightarrow> Outcome \<Rightarrow> Pool \<Rightarrow> Pool" where
  "record_outcome now nodeID outcome p =
     (let score = pl_health p nodeID; wasDegraded = (score < healthSkipThreshold \<and> score \<noteq> 0) in
      case outcome of
        OutcomeSuccess \<Rightarrow>
          p\<lparr>pl_health := (pl_health p)(nodeID := raised score),
            pl_failures := (pl_failures p)(nodeID := 0),
            pl_lastError := (pl_lastError p)(nodeID := []),
            pl_unhealthy := (if wasDegraded then (pl_unhealthy p)(nodeID := None) else pl_unhealthy p)\<rparr>
      | OutcomeRateLimited \<Rightarrow> p
      | OutcomeAccountBlock \<Rightarrow> p
      | OutcomeForbidden \<Rightarrow> p
      | _ \<Rightarrow>
          let failures = wrap64 (pl_failures p nodeID + 1) in
          p\<lparr>pl_health := (pl_health p)(nodeID := lowered score),
            pl_failures := (pl_failures p)(nodeID := failures),
            pl_lastError := (pl_lastError p)(nodeID := outcomeReason outcome),
            pl_unhealthy := (pl_unhealthy p)(nodeID \<mapsto> now + nodeCooldownFor failures)\<rparr>)"

definition Feedback :: "bool \<Rightarrow> bool \<Rightarrow> time \<Rightarrow> time \<Rightarrow> string \<Rightarrow> Outcome \<Rightarrow> Pool \<times> health_file \<Rightarrow> Pool \<times> health_file" where
  "Feedback configured writes now persist_now nodeID outcome w =
     (if nodeID = [] then w
      else persistHealthLocked configured writes persist_now (record_outcome now nodeID outcome (fst w), snd w))"

section \<open>Choosing a node\<close>

definition go_rem :: "int \<Rightarrow> int \<Rightarrow> int" where "go_rem a b = sgn a * (\<bar>a\<bar> mod \<bar>b\<bar>)"

fun weighted_pick :: "int \<Rightarrow> egress_node list \<Rightarrow> egress_node option" where
  "weighted_pick threshold [] = None"
| "weighted_pick threshold (n # ns) =
     (if threshold - en_Weight n < 0 then Some n else weighted_pick (threshold - en_Weight n) ns)"

definition named :: "string \<Rightarrow> egress_node list \<Rightarrow> egress_node option" where
  "named name candidates = find (\<lambda>n. en_Name n = name) candidates"

definition pick_sticky :: "string \<Rightarrow> egress_node list \<Rightarrow> Pool \<Rightarrow> egress_node \<times> Pool" where
  "pick_sticky stickyKey candidates p =
     (case (if pl_sticky p stickyKey = [] then None else named (pl_sticky p stickyKey) candidates) of
        Some n \<Rightarrow> (n, p)
      | None \<Rightarrow>
          let seed = pl_usedCount p stickyKey;
              totalWeight = sum_list (map en_Weight candidates);
              pick = (case weighted_pick (go_rem (wrap64 (seed + 1)) totalWeight) candidates of
                  Some n \<Rightarrow> n | None \<Rightarrow> last candidates)
          in (pick, p\<lparr>pl_usedCount := (pl_usedCount p)(stickyKey := wrap64 (seed + 1)),
                      pl_sticky := (pl_sticky p)(stickyKey := en_Name pick)\<rparr>))"

definition healthy_candidates :: "pick_env \<Rightarrow> string \<Rightarrow> Pool \<Rightarrow> egress_node list" where
  "healthy_candidates e scope p =
     filter (\<lambda>n. en_Scope n = targetScopeLocked p (to_lower (trim_space scope)) \<and> \<not> degradedLocked p (en_Name n) (pk_now e)) (pl_nodes p)"

definition pickNode :: "pick_env \<Rightarrow> string \<Rightarrow> string \<Rightarrow> Pool \<times> pending \<Rightarrow> egress_node option \<times> Pool \<times> pending" where
  "pickNode e scope affinity w =
     (let p = refreshNodesLocked (pk_snap e) (fst w); pending = snd w;
          normalizedScope = to_lower (trim_space scope);
          candidates = healthy_candidates e scope p
      in if candidates = [] then (None, p, pending)
         else
           let stored = Binding (pk_snap e) (RegistryScope normalizedScope) affinity;
               (bound, pending1) = (if stored \<noteq> [] then (stored, pending)
                 else AutoBind (pk_current e) (RegistryScope normalizedScope) affinity (map en_Name candidates) pending);
               stickyKey = ''scope:'' @ normalizedScope @ '':'' @ (if affinity = [] then ''default'' else affinity)
           in case (if bound = [] then None else named bound candidates) of
                Some n \<Rightarrow> (Some n, p, pending1)
              | None \<Rightarrow> (case pick_sticky stickyKey candidates p of (n, p1) \<Rightarrow> (Some n, p1, pending1)))"

text \<open>A probe: the node it goes to, and what its result does.\<close>

fun probe_candidate :: "Pool \<Rightarrow> string \<Rightarrow> time \<Rightarrow> egress_node list \<Rightarrow> (egress_node \<times> time) option \<Rightarrow> (egress_node \<times> time) option" where
  "probe_candidate p target now [] best = best"
| "probe_candidate p target now (n # ns) best =
     (let next = (if en_Scope n \<noteq> target then best
        else case pl_unhealthy p (en_Name n) of
          None \<Rightarrow> best
        | Some u \<Rightarrow>
            if (case pl_lastProbe p (en_Name n) of None \<Rightarrow> False | Some probed \<Rightarrow> time_sub now probed < nodeCooldown) then best
            else case best of
              None \<Rightarrow> Some (n, u)
            | Some (_, earliest) \<Rightarrow> if u < earliest then Some (n, u) else best)
      in probe_candidate p target now ns next)"

definition probe_begin :: "pick_env \<Rightarrow> string \<Rightarrow> Pool \<Rightarrow> egress_node option \<times> Pool" where
  "probe_begin e scope p0 =
     (let p = refreshNodesLocked (pk_snap e) p0;
          target = targetScopeLocked p (to_lower (trim_space scope))
      in case probe_candidate p target (pk_now e) (pl_nodes p) None of
           None \<Rightarrow> (None, p)
         | Some (n, _) \<Rightarrow> (Some n, p\<lparr>pl_lastProbe := (pl_lastProbe p)(en_Name n \<mapsto> pk_now e)\<rparr>))"

definition probe_end :: "time \<Rightarrow> string \<Rightarrow> bool \<Rightarrow> Pool \<Rightarrow> Pool" where
  "probe_end now name answered p =
     (if answered
      then p\<lparr>pl_unhealthy := (pl_unhealthy p)(name := None), pl_health := (pl_health p)(name := healthSkipThreshold),
             pl_failures := (pl_failures p)(name := 0), pl_lastError := (pl_lastError p)(name := [])\<rparr>
      else let failures = wrap64 (pl_failures p name + 1) in
        p\<lparr>pl_failures := (pl_failures p)(name := failures), pl_lastError := (pl_lastError p)(name := ''probe''),
          pl_unhealthy := (pl_unhealthy p)(name \<mapsto> now + nodeCooldownFor failures)\<rparr>)"

text \<open>\<open>answers\<close> is the probe of the plane, with no error when the node can reach the upstream.\<close>

definition probeRecovery ::
  "pick_env \<Rightarrow> time \<Rightarrow> (egress_node \<Rightarrow> bool) \<Rightarrow> (Pool \<Rightarrow> Pool) \<Rightarrow> string \<Rightarrow> Pool \<Rightarrow> bool \<times> Pool" where
  "probeRecovery e later answers between scope p =
     (case probe_begin e scope p of
        (None, p1) \<Rightarrow> (False, p1)
      | (Some n, p1) \<Rightarrow> (answers n, probe_end later (en_Name n) (answers n) (between p1)))"

datatype picked = Picked egress_node | Direct_fallback | No_healthy_node

text \<open>The visits of \<open>Pick\<close>: the choice, the probe, the second choice, and both looks at the fallback.\<close>

definition Pick ::
  "(nat \<Rightarrow> pick_env) \<Rightarrow> time \<Rightarrow> (egress_node \<Rightarrow> bool) \<Rightarrow> (Pool \<Rightarrow> Pool) \<Rightarrow> string \<Rightarrow> string \<Rightarrow> Pool \<times> pending \<Rightarrow>
   picked \<times> Pool \<times> pending" where
  "Pick envs later answers between scope affinity w =
     (case pickNode (envs 0) scope affinity w of
        (Some n, w1) \<Rightarrow> (Picked n, w1)
      | (None, p1, pending1) \<Rightarrow>
          (case probeRecovery (envs 1) later answers between scope p1 of (admitted, p2) \<Rightarrow>
             (case (if admitted then pickNode (envs 2) scope affinity (p2, pending1) else (None, p2, pending1)) of
                (Some n, w2) \<Rightarrow> (Picked n, w2)
              | (None, p3, pending3) \<Rightarrow>
                  let fallback = Fallback (pk_snap (envs 3)) (RegistryScope scope);
                      p4 = refreshNodesLocked (pk_snap (envs 3)) p3
                  in if fb_Mode fallback = ''direct'' then (Direct_fallback, p4, pending3)
                     else if fb_Mode fallback = ''fixed''
                     then (case node_by_ID (pk_snap (envs 4)) (fb_NodeID fallback) of
                             Some n \<Rightarrow> (Picked (nodeFromRegistry n), refreshNodesLocked (pk_snap (envs 4)) p4, pending3)
                           | None \<Rightarrow> (No_healthy_node, refreshNodesLocked (pk_snap (envs 4)) p4, pending3))
                     else (No_healthy_node, p4, pending3))))"

text \<open>\<open>ProbeThrough\<close>: the status of the answer, or the error of the request.\<close>

definition ProbeThrough :: "string + int \<Rightarrow> string option" where
  "ProbeThrough response =
     (case response of
        Inl err \<Rightarrow> Some err
      | Inr status \<Rightarrow> if status = 403 \<or> status \<ge> 500 then Some (''probe status '' @ itoa status) else None)"

section \<open>Rounding\<close>

lemma ilog2_half: "0 < q \<Longrightarrow> ilog2 (q / 2) = ilog2 q - 1"
proof (rule ccontr)
  assume q: "0 < q" and ne: "ilog2 (q / 2) \<noteq> ilog2 q - 1"
  have two: "(2 :: rat) powi (k + 1) = 2 * 2 powi k" for k by (simp add: power_int_add)
  note b = ilog2_bounds [OF q] and h = ilog2_bounds [of "q / 2"]
  have "2 powi (ilog2 (q / 2) + 1) \<le> q" "q < 2 powi (ilog2 (q / 2) + 2)"
    using q h two [of "ilog2 (q / 2)"] two [of "ilog2 (q / 2) + 1"] by (simp_all add: add.commute add.left_commute)
  then have "(2 :: rat) powi (ilog2 q) < 2 powi (ilog2 (q / 2) + 2)" "(2 :: rat) powi (ilog2 (q / 2) + 1) < 2 powi (ilog2 q + 1)"
    using b by linarith+
  then have "ilog2 q < ilog2 (q / 2) + 2" "ilog2 (q / 2) + 1 < ilog2 q + 1"
    by (meson powi_mono leD not_le)+
  with ne show False by linarith
qed

lemma float_pos_half: "0 < q \<Longrightarrow> float_pos (q / 2) = float_pos q / 2"
proof -
  assume q: "0 < q"
  have e: "(2 :: rat) powi (ilog2 (q / 2) - 52) = 2 powi (ilog2 q - 52) / 2"
    unfolding ilog2_half [OF q] using power_int_diff [of "2 :: rat" "ilog2 q - 52" 1] by (simp add: algebra_simps)
  show ?thesis unfolding float_pos_def Let_def e by simp
qed

lemma float64_half: "float64 (q / 2) = float64 q / 2"
  using float_pos_half [of q] float_pos_half [of "- q"] by (auto simp: float64_def)

lemma float_pos_doubles: "0 < q \<Longrightarrow> float_pos q \<le> 2 * q"
  using float_pos_binade(2) [of q] ilog2_bounds(1) [of q] powi_step [of "ilog2 q" 1] by (simp add: power_int_add)

lemma float64_doubles: "0 \<le> q \<Longrightarrow> float64 q \<le> 2 * q"
  using float_pos_doubles [of q] by (auto simp: float64_def)

lemma float64_idem: "float64 (float64 q) = float64 q"
proof -
  have pos: "float64 (float_pos q) = float_pos q" if "0 < q" for q
  proof -
    let ?s = "ilog2 q - 52"
    obtain m where m: "float_pos q = of_int m * 2 powi ?s" by (auto simp: float_pos_def Let_def)
    have s: "0 < (2 :: rat) powi ?s" by simp
    have "float_pos q \<le> of_int (2 ^ 53) * 2 powi ?s"
      using float_pos_binade(2) [OF that] powi_bits(2) [of ?s] by (simp add: algebra_simps)
    with m s have "(of_int m :: rat) \<le> of_int (2 ^ 53)" by (metis mult_le_cancel_right_pos)
    then have le: "m \<le> 2 ^ 53" by (simp only: of_int_le_iff)
    have "0 < float_pos q" by (rule float_pos_pos [OF that])
    then have "(0 :: rat) < of_int m" unfolding m using s by (rule zero_less_mult_pos2)
    then have "0 < m" by simp
    show ?thesis
    proof (cases "m = 2 ^ 53")
      case True
      then have "float_pos q = of_int 1 * 2 powi (?s + 53)" using m powi_bits(2) [of ?s] by simp
      then show ?thesis using float64_exact [of 1 "?s + 53"] by simp
    next
      case False
      with le \<open>0 < m\<close> show ?thesis using float64_exact [of m ?s] m by simp
    qed
  qed
  show ?thesis using pos [of q] pos [of "- q"] by (auto simp: float64_def [of q] float64_neg)
qed

text \<open>Scores are \<open>float64\<close> values between minus a fifth and one.\<close>

definition score_ok :: "rat \<Rightarrow> bool" where
  "score_ok score \<longleftrightarrow> float64 score = score \<and> - healthSkipThreshold \<le> score \<and> score \<le> 1"

lemma threshold_values: "float64 (- healthSkipThreshold) = - healthSkipThreshold" "healthSkipThreshold * (1 / 2) = tenth"
  "0 < tenth" "tenth \<le> 1 / 8" "healthSkipThreshold < 1" "0 < healthSkipThreshold" "float64 1 = 1"
  by code_simp+

lemma raised_ok: "score_ok score \<Longrightarrow> score_ok (raised score)"
proof -
  assume ok: "score_ok score"
  then have b: "- healthSkipThreshold \<le> score" "score \<le> 1" by (simp_all add: score_ok_def)
  let ?d = "float64 (1 - score)" and ?y = "float64 (float64 (1 - score) * tenth)"
  have d: "0 \<le> ?d" "?d \<le> 2 * (1 - score)" using b(2) float64_doubles [of "1 - score"] float64_mono [of 0 "1 - score"] by simp_all
  have y0: "0 \<le> ?y" using float64_mono [of 0 "?d * tenth"] d(1) threshold_values(3) by simp
  have "?y \<le> 2 * (?d * tenth)" using float64_doubles [of "?d * tenth"] d(1) threshold_values(3) by simp
  also have "\<dots> \<le> 2 * (2 * (1 - score) * (1 / 8))"
    using mult_mono [OF d(2) threshold_values(4)] b(2) threshold_values(3) by simp
  finally have "score + ?y \<le> 1" using b(2) by simp
  then have "raised score \<le> float64 1" unfolding raised_def by (rule float64_mono)
  moreover have "float64 (- healthSkipThreshold) \<le> raised score" unfolding raised_def using b(1) y0 by (intro float64_mono) simp
  ultimately show ?thesis using threshold_values by (simp add: score_ok_def raised_def float64_idem)
qed

lemma lowered_value: "score_ok score \<Longrightarrow> lowered score = float64 (score / 2 - tenth)"
  by (simp add: lowered_def float64_half score_ok_def)

lemma lowered_ok: "score_ok score \<Longrightarrow> score_ok (lowered score)"
proof -
  assume ok: "score_ok score"
  have "float64 (- healthSkipThreshold) \<le> lowered score"
    unfolding lowered_value [OF ok] using ok threshold_values(2) by (intro float64_mono) (simp add: score_ok_def)
  moreover have "lowered score \<le> float64 1"
    unfolding lowered_value [OF ok] using ok threshold_values(3) by (intro float64_mono) (simp add: score_ok_def)
  ultimately show ?thesis using threshold_values by (simp add: score_ok_def lowered_def float64_idem)
qed

lemma lowered_negative: "score_ok score \<Longrightarrow> score < healthSkipThreshold \<Longrightarrow> lowered score < 0"
  using lowered_value threshold_values(2) by (simp add: float64_sgn)

section \<open>What happens to a pool\<close>

text \<open>The steps of a pool, each with the node whose health it concerns.\<close>

inductive pool_step :: "Pool \<Rightarrow> string option \<Rightarrow> Pool \<Rightarrow> bool" where
  step_outcome: "pool_step p (Some name) (record_outcome now name outcome p)"
| step_probed: "pool_step p (Some name) (probe_end now name answered p)"
| step_persist: "pool_step p None (fst (persistHealthLocked configured writes now (p, saved)))"
| step_pick: "pool_step p None (fst (snd (pickNode e scope affinity (p, pending))))"
| step_probe: "pool_step p None (snd (probe_begin e scope p))"

definition failure :: "Outcome \<Rightarrow> bool" where
  "failure outcome \<longleftrightarrow> outcome \<in> {OutcomeTransportError, OutcomeServerError, OutcomeChallenge}"

lemma pick_sticky_health:
  "pick_sticky key candidates p = (n, p') \<Longrightarrow> pl_health p' = pl_health p \<and> pl_unhealthy p' = pl_unhealthy p"
  by (auto simp: pick_sticky_def Let_def split: option.splits if_splits)

lemma pickNode_health:
  "pickNode e scope affinity w = (n, p', pending') \<Longrightarrow> pl_health p' = pl_health (fst w) \<and> pl_unhealthy p' = pl_unhealthy (fst w)"
  by (auto simp: pickNode_def Let_def refreshNodesLocked_def dest!: pick_sticky_health split: if_splits prod.splits option.splits)

lemma probe_begin_health:
  "pl_health (snd (probe_begin e scope p)) = pl_health p" "pl_unhealthy (snd (probe_begin e scope p)) = pl_unhealthy p"
  by (auto simp: probe_begin_def Let_def refreshNodesLocked_def split: option.split)

lemma persist_health:
  "pl_health (fst (persistHealthLocked configured writes now (p, saved))) = pl_health p"
  "pl_unhealthy (fst (persistHealthLocked configured writes now (p, saved))) = pl_unhealthy p"
  by (auto simp: persistHealthLocked_def Let_def)

lemma step_frame:
  assumes "pool_step p concerned p'" "concerned \<noteq> Some name"
  shows "pl_health p' name = pl_health p name \<and> pl_unhealthy p' name = pl_unhealthy p name"
  using assms
proof (induction rule: pool_step.induct)
  case (step_outcome p other now outcome)
  then show ?case by (cases outcome) (auto simp: record_outcome_def Let_def)
next
  case (step_probed p other now answered)
  then show ?case by (auto simp: probe_end_def Let_def)
next
  case (step_persist p configured writes now saved)
  then show ?case by (simp add: persist_health)
next
  case (step_pick p e scope affinity pending)
  obtain n p' pending' where "pickNode e scope affinity (p, pending) = (n, p', pending')" by (metis prod_cases3)
  with pickNode_health [OF this] show ?case by simp
next
  case (step_probe p e scope)
  then show ?case by (simp add: probe_begin_health)
qed

lemma step_scores:
  assumes "pool_step p concerned p'" "\<forall>name. score_ok (pl_health p name)"
  shows "\<forall>name. score_ok (pl_health p' name)"
proof
  fix name
  show "score_ok (pl_health p' name)"
  proof (cases "concerned = Some name")
    case True
    have "score_ok healthSkipThreshold" by code_simp
    with assms True show ?thesis
    proof (cases rule: pool_step.cases)
      case (step_outcome other now outcome)
      then show ?thesis using assms(2) True raised_ok lowered_ok by (cases outcome) (auto simp: record_outcome_def Let_def)
    qed (auto simp: probe_end_def Let_def)
  next
    case False
    with step_frame [OF assms(1) False] assms(2) show ?thesis by simp
  qed
qed

lemma weighted_pick_member: "weighted_pick threshold ns = Some n \<Longrightarrow> n \<in> set ns"
  by (induction ns arbitrary: threshold) (auto split: if_splits)

lemma named_member: "named name ns = Some n \<Longrightarrow> n \<in> set ns \<and> en_Name n = name"
  by (auto simp: named_def find_Some_iff)

lemma pick_sticky_member: "ns \<noteq> [] \<Longrightarrow> fst (pick_sticky key ns p) \<in> set ns"
  by (auto simp: pick_sticky_def Let_def dest: weighted_pick_member named_member split: option.split)

text \<open>A choice is a healthy node of the scope, and there is none only if there is no such node.\<close>

lemma pickNode_candidate:
  assumes "pickNode e scope affinity w = (choice, w')"
  shows "case choice of
      None \<Rightarrow> healthy_candidates e scope (refreshNodesLocked (pk_snap e) (fst w)) = []
    | Some n \<Rightarrow> n \<in> set (healthy_candidates e scope (refreshNodesLocked (pk_snap e) (fst w)))"
  using assms pick_sticky_member [of "healthy_candidates e scope (refreshNodesLocked (pk_snap e) (fst w))"]
  by (auto simp: pickNode_def Let_def split: if_splits prod.splits option.splits dest: named_member)
     (metis fst_conv)+

text \<open>The score of a node stays a \<open>float64\<close> between minus a fifth and one, whatever outcomes, probes and choices the
  pool sees, so that a long run of failures is forgotten as fast as a short one.\<close>

lemma scores_stay_bounded:
  assumes "(\<lambda>p p'. \<exists>concerned. pool_step p concerned p')\<^sup>*\<^sup>* (new_pool snap now None) p"
  shows "- healthSkipThreshold \<le> pl_health p name \<and> pl_health p name \<le> 1"
proof -
  have "\<forall>name. score_ok (pl_health p name)"
    using assms
  proof (induction rule: rtranclp_induct)
    case base
    show ?case using threshold_values by (simp add: new_pool_def restoreHealth_def refreshNodesLocked_def score_ok_def)
  qed (use step_scores in blast)
  then show ?thesis by (simp add: score_ok_def)
qed

text \<open>The cooldowns double from half a minute to ten minutes.\<close>

lemma cooldown_loop_eq: "0 < c \<Longrightarrow> c < nodeCooldownMax \<Longrightarrow> cooldown_loop n c = min (c * 2 ^ n) nodeCooldownMax"
proof (induction n arbitrary: c)
  case (Suc n)
  show ?case
  proof (cases "c * 2 \<ge> nodeCooldownMax")
    case True
    have "c * 2 \<le> c * 2 ^ Suc n" using Suc.prems by simp
    with True have "nodeCooldownMax \<le> c * 2 ^ Suc n" by (rule order_trans)
    with True show ?thesis by (simp add: Let_def min_absorb2)
  next
    case False
    with Suc show ?thesis by (simp add: Let_def mult.assoc)
  qed
qed simp

lemma nodeCooldownFor_doubles: "1 \<le> failures \<Longrightarrow> nodeCooldownFor failures = min (nodeCooldown * 2 ^ nat (failures - 1)) nodeCooldownMax"
proof -
  assume f: "1 \<le> failures"
  have "0 < nodeCooldown" "nodeCooldown < nodeCooldownMax" by (simp_all add: nodeCooldown_def nodeCooldownMax_def second_def minute_def)
  with f show ?thesis by (cases "failures = 1") (simp_all add: nodeCooldownFor_def cooldown_loop_eq)
qed

text \<open>A node that fails while its score is below the threshold, as a fresh or a degraded node, is withheld for its
  cooldown: half a minute, doubled for every failure in a row up to ten minutes. Whatever becomes of other nodes, no
  choice returns it before the cooldown is over.\<close>

lemma failed_node_withheld:
  assumes "score_ok (pl_health p name)" "pl_health p name < healthSkipThreshold" "failure outcome"
    and "0 \<le> pl_failures p name" "pl_failures p name < 2 ^ 62"
    and "(\<lambda>p p'. \<exists>concerned. concerned \<noteq> Some name \<and> pool_step p concerned p')\<^sup>*\<^sup>* (record_outcome t name outcome p) p'"
    and "pickNode e scope affinity (p', pending) = (Some n, w')"
    and "pk_now e < t + min (nodeCooldown * 2 ^ nat (pl_failures p name)) nodeCooldownMax"
  shows "en_Name n \<noteq> name"
proof -
  let ?q = "record_outcome t name outcome p"
  have wrap: "wrap64 (pl_failures p name + 1) = pl_failures p name + 1"
    using assms(4,5) by (intro wrap64_id) (simp_all add: min_int64_def max_int64_def)
  have q: "pl_health ?q name = lowered (pl_health p name)"
    "pl_unhealthy ?q name = Some (t + nodeCooldownFor (pl_failures p name + 1))"
    using assms(3) by (auto simp: failure_def record_outcome_def Let_def wrap)
  have "pl_health p' name = pl_health ?q name \<and> pl_unhealthy p' name = pl_unhealthy ?q name"
    using assms(6) by (induction rule: rtranclp_induct) (auto dest: step_frame)
  then have "degradedLocked (refreshNodesLocked (pk_snap e) p') name (pk_now e)"
    using q lowered_negative [OF assms(1,2)] threshold_values(6) nodeCooldownFor_doubles [of "pl_failures p name + 1"] assms(4,8)
    by (simp add: degradedLocked_def refreshNodesLocked_def)
  with pickNode_candidate [OF assms(7)] show ?thesis by (auto simp: healthy_candidates_def)
qed

definition demo_pool :: Pool where "demo_pool = new_pool emptySnapshot 0 None"

definition demo_routes :: Snapshot where
  "demo_routes = emptySnapshot\<lparr>sn_Nodes := map (\<lambda>i. \<lparr>nd_ID = i, nd_Name = i, nd_Scope = GrokEgressScopeBuild, nd_ProxyURL = ''http://p:1'',
     nd_Pool = False, nd_Capacity = 0, nd_UserAgent = [], nd_Cookies = [], nd_SourceID = []\<rparr>) [''a'', ''b'']\<rparr>"

text \<open>A node that was probed back has a score of exactly the threshold; one failure then makes it exactly zero, the
  score of a node never probed, and the node is not withheld at all, although its cooldown was set.\<close>

lemma recovered_node_not_withheld:
  assumes "failure outcome"
  shows "pl_unhealthy (record_outcome t name outcome (probe_end s name True p)) name \<noteq> None \<and>
    \<not> degradedLocked (record_outcome t name outcome (probe_end s name True p)) name now"
proof -
  have "lowered healthSkipThreshold = 0" by code_simp
  with assms show ?thesis by (auto simp: failure_def record_outcome_def probe_end_def degradedLocked_def Let_def)
qed


definition demo_closed :: Snapshot where
  "demo_closed = demo_routes\<lparr>sn_Operations := DefaultGrokEgressOperations\<lparr>op_Fallbacks := [(GrokEgressScopeBuild, \<lparr>fb_Mode = ''none'', fb_NodeID = []\<rparr>)]\<rparr>\<rparr>"


text \<open>Restoring a file puts back what was saved of the nodes that still exist.\<close>

lemma restore_all:
  fixes p q :: Pool and known :: "string set" and later now :: time
  defines "q' ns \<equiv> fold (restore_entry known later) (map (health_entry now p) ns) q"
  shows "pl_health (q' ns) x = (if x \<in> set ns \<inter> known then pl_health p x else pl_health q x)"
    and "pl_failures (q' ns) x = (if x \<in> set ns \<inter> known then pl_failures p x else pl_failures q x)"
    and "pl_lastError (q' ns) x = (if x \<in> set ns \<inter> known \<and> pl_lastError p x \<noteq> [] then pl_lastError p x else pl_lastError q x)"
    and "pl_unhealthy (q' ns) x = (if x \<in> set ns \<inter> known \<and>
        (\<exists>u. pl_unhealthy p x = Some u \<and> u > now \<and> u div second * second > later)
      then map_option (\<lambda>u. u div second * second) (pl_unhealthy p x) else pl_unhealthy q x)"
  unfolding q'_def
  by (induction ns rule: rev_induct) (auto simp: restore_entry_def health_entry_def Let_def split: option.splits if_splits)

lemma whole_second: "u div second * second \<le> u" "u < u div second * second + second"
  by (simp_all add: second_def)

text \<open>C29.
  Health survives a restart. Of every node that is saved and still configured, a pool built from the file has the score,
  the failures and the last error that were saved, and withholds the node until the saved cooldown ends, less
  the fraction of a second the file drops.\<close>

theorem health_survives_restart:
  assumes "persistHealthLocked True True now (p, saved) = (p', Some entries)"
    and "is_zero (pl_lastPersist p) \<or> time_sub now (pl_lastPersist p) \<ge> healthPersistInterval"
    and "name \<in> en_Name ` set (pl_nodes p)" "name \<in> nd_ID ` set (sn_Nodes snap)"
  shows "let q = new_pool snap later (Some entries) in
    pl_health q name = pl_health p name \<and> pl_failures q name = pl_failures p name \<and> pl_lastError q name = pl_lastError p name \<and>
    (case pl_unhealthy q name of
       Some u \<Rightarrow> (\<exists>v. pl_unhealthy p name = Some v \<and> u \<le> v \<and> v < u + second)
     | None \<Rightarrow> (case pl_unhealthy p name of None \<Rightarrow> True | Some v \<Rightarrow> v \<le> now \<or> v < later + second))"
proof -
  have entries: "entries = map (health_entry now p) (map en_Name (pl_nodes p))"
    using assms(1,2) by (auto simp: persistHealthLocked_def Let_def)
  let ?q0 = "refreshNodesLocked snap
       \<lparr>pl_nodes = [], pl_health = (\<lambda>_. 0), pl_unhealthy = (\<lambda>_. None), pl_failures = (\<lambda>_. 0), pl_lastError = (\<lambda>_. []),
        pl_lastProbe = (\<lambda>_. None), pl_lastPersist = 0, pl_usedCount = (\<lambda>_. 0), pl_sticky = (\<lambda>_. [])\<rparr>"
  have known: "set (map en_Name (pl_nodes ?q0)) = nd_ID ` set (sn_Nodes snap)"
    by (simp add: refreshNodesLocked_def nodeFromRegistry_def image_image)
  have q: "new_pool snap later (Some entries) =
      fold (restore_entry (nd_ID ` set (sn_Nodes snap)) later) (map (health_entry now p) (map en_Name (pl_nodes p))) ?q0"
    unfolding new_pool_def restoreHealth_def entries known by simp
  have here: "name \<in> set (map en_Name (pl_nodes p)) \<inter> nd_ID ` set (sn_Nodes snap)" using assms(3,4) by simp
  have empty: "pl_unhealthy ?q0 name = None" "pl_lastError ?q0 name = []" by (simp_all add: refreshNodesLocked_def)
  note restored = restore_all [where known = "nd_ID ` set (sn_Nodes snap)" and later = later and now = now and p = p and q = ?q0
      and ns = "map en_Name (pl_nodes p)" and x = name]
  show ?thesis
  proof (cases "pl_unhealthy p name")
    case None
    with here empty show ?thesis unfolding q Let_def restored by simp
  next
    case (Some v)
    with here empty whole_second [of v] show ?thesis unfolding q Let_def restored by (simp add: not_less)
  qed
qed

theorem health_survives_restart_witness:
  "let p = record_outcome second ''a'' OutcomeTransportError (new_pool demo_routes 0 None);
       saved = snd (persistHealthLocked True True second (p, None));
       q = new_pool demo_routes (2 * second) saved
   in pl_health q ''a'' = pl_health p ''a'' \<and> pl_failures q ''a'' = 1 \<and> pl_unhealthy q ''a'' = Some (31 * second)"
proof -
  let ?p = "record_outcome second ''a'' OutcomeTransportError (new_pool demo_routes 0 None)"
  let ?w = "persistHealthLocked True True second (?p, None)"
  have "snd ?w \<noteq> None" by (simp add: persistHealthLocked_def Let_def record_outcome_def new_pool_def restoreHealth_def refreshNodesLocked_def is_zero_def)
  then obtain entries where e: "?w = (fst ?w, Some entries)" by (cases ?w) auto
  have "is_zero (pl_lastPersist ?p)"
    by (simp add: record_outcome_def Let_def new_pool_def restoreHealth_def refreshNodesLocked_def is_zero_def)
  moreover have "''a'' \<in> en_Name ` set (pl_nodes ?p)" "''a'' \<in> nd_ID ` set (sn_Nodes demo_routes)"
    by (simp_all add: record_outcome_def Let_def new_pool_def restoreHealth_def refreshNodesLocked_def demo_routes_def nodeFromRegistry_def)
  moreover have "pl_failures ?p ''a'' = 1" by code_simp
  moreover have "pl_unhealthy (new_pool demo_routes (2 * second) (snd ?w)) ''a'' = Some (31 * second)" by code_simp
  ultimately show ?thesis
    using health_survives_restart [OF e, of "''a''" demo_routes "2 * second"] arg_cong [OF e, of snd] by (simp add: Let_def)
qed

end
