(* ===== verification/Api_Keys.thy ===== *)
theory Api_Keys
  imports Go_Prelude "HOL-Library.AList"
begin

text \<open>
  The client keys: their rows in Redis and every operation on them (\<^verbatim>\<open>internal/store/redis_api_keys.go\<close>,
  \<^verbatim>\<open>api_key_secrets.go\<close>, the scripts of \<^verbatim>\<open>redis_scripts.go\<close>), the authorization of a raw key
  (\<^verbatim>\<open>store_api_keys.go\<close>) and the operator's handlers that call them (\<^verbatim>\<open>internal/api/api_keys.go\<close>).

  \<^item> \<open>key_db\<close> is the shared state: rows, the index from digests to identifiers, the limit mirror, the counters of the
    minutes. \<open>key_process\<close> is what a replica caches: identifiers by digest, and when it last wrote a usage stamp.
  \<^item> A handler that reads a row and writes it back later is two steps (\<open>Read_key\<close>, then \<open>Reset_usage\<close> or \<open>Delete_key\<close> with
    the row that was read), so that the other operations fit between. A watched transaction is one step; \<open>conflicts\<close> counts
    the attempts it loses.
  \<^item> The billing state of a key, its rollover included, is that of the ledger's store and is left out here, as are the
    display fields. The digest and the sealing of a secret are parameters.
\<close>

section \<open>The state\<close>

datatype key_error = NoRows | ApiKeyExpired | ApiKeyRateLimited | Failed string

record api_key_record =
  kr_ID :: int
  kr_KeyHash :: string
  kr_EncryptedSecret :: string
  kr_KeyPrefix :: string
  kr_KeySuffix :: string
  kr_Enabled :: bool
  kr_AllowedModels :: "string list"
  kr_RPMLimit :: int
  kr_MaxConcurrent :: int
  kr_BillingLimit :: int
  kr_BillingPeriodDays :: int
  kr_ExpiresAt :: "time option"
  kr_LastUsedAt :: "time option"

record key_db =
  kd_rows :: "int \<rightharpoonup> api_key_record"
  kd_ids :: "int set"
  kd_hash :: "string \<rightharpoonup> int"
  kd_limits :: "int \<rightharpoonup> int"
  kd_next :: int
  kd_rpm :: "int \<times> int \<rightharpoonup> int \<times> int"

record key_process =
  kp_index :: "(string \<times> int) list"
  kp_touches :: "(int \<times> time) list"

text \<open>The row without its sealed secret, as the callers see it; and back.\<close>

definition toApiKey :: "api_key_record \<Rightarrow> api_key_record" where
  "toApiKey r = r\<lparr>kr_EncryptedSecret := []\<rparr>"

section \<open>Writing rows\<close>

definition encryptedCredentialPrefix :: string where "encryptedCredentialPrefix = ''enc:v1:''"

text \<open>\<open>cipher\<close> is absent without a configured key; sealing may fail for want of random bytes.\<close>

definition sealApiKey :: "(string \<Rightarrow> string option) option \<Rightarrow> string \<Rightarrow> key_error + string" where
  "sealApiKey cipher secret =
     (case cipher of
        None \<Rightarrow> Inl (Failed ''API key encryption is unavailable'')
      | Some enc \<Rightarrow>
          if secret = [] then Inr []
          else case enc secret of None \<Rightarrow> Inl (Failed ''nonce'') | Some sealed \<Rightarrow> Inr (encryptedCredentialPrefix @ sealed))"

definition CreateApiKey ::
  "(string \<Rightarrow> string option) option \<Rightarrow> string \<Rightarrow> api_key_record \<Rightarrow> key_db \<Rightarrow> (key_error + api_key_record) \<times> key_db" where
  "CreateApiKey cipher full key db0 =
     (let i = kd_next db0 + 1; db = db0\<lparr>kd_next := i\<rparr>;
          sealed = (if full \<noteq> [] then sealApiKey cipher full else Inr [])
      in case sealed of
           Inl err \<Rightarrow> (Inl err, db)
         | Inr secret \<Rightarrow>
             (let record = key\<lparr>kr_ID := i, kr_EncryptedSecret := secret\<rparr> in
              (Inr (toApiKey record),
               db\<lparr>kd_rows := (kd_rows db)(i \<mapsto> record), kd_ids := insert i (kd_ids db),
                  kd_hash := (if kr_KeyHash record \<noteq> [] then (kd_hash db)(kr_KeyHash record \<mapsto> i) else kd_hash db),
                  kd_limits := (kd_limits db)(i \<mapsto> kr_BillingLimit record)\<rparr>)))"

definition mutateApiKey ::
  "nat \<Rightarrow> int \<Rightarrow> (api_key_record \<Rightarrow> key_error + api_key_record) \<Rightarrow> key_db \<Rightarrow> (key_error + api_key_record) \<times> key_db" where
  "mutateApiKey conflicts i change db =
     (if conflicts \<ge> 8 then (Inl (Failed ''API key changed concurrently; retry the operation''), db)
      else case kd_rows db i of
             None \<Rightarrow> (Inl NoRows, db)
           | Some row \<Rightarrow>
               (case change row of
                  Inl err \<Rightarrow> (Inl err, db)
                | Inr row' \<Rightarrow>
                    (Inr row',
                     db\<lparr>kd_rows := (kd_rows db)(i \<mapsto> row'),
                        kd_hash := (if kr_KeyHash row \<noteq> kr_KeyHash row'
                          then (kd_hash db)(kr_KeyHash row := None, kr_KeyHash row' \<mapsto> i) else kd_hash db),
                        kd_limits := (kd_limits db)(i \<mapsto> kr_BillingLimit row')\<rparr>)))"

definition UpdateApiKey :: "nat \<Rightarrow> api_key_record \<Rightarrow> key_db \<Rightarrow> (key_error + api_key_record) \<times> key_db" where
  "UpdateApiKey conflicts key db =
     (if kr_ID key = 0 then (Inl NoRows, db)
      else mutateApiKey conflicts (kr_ID key) (\<lambda>current.
        let changed = (if kr_EncryptedSecret current \<noteq> []
              then key\<lparr>kr_KeyHash := kr_KeyHash current, kr_KeyPrefix := kr_KeyPrefix current, kr_KeySuffix := kr_KeySuffix current\<rparr>
              else key)
        in Inr (changed\<lparr>kr_EncryptedSecret := kr_EncryptedSecret current\<rparr>)) db)"

definition RotateApiKey ::
  "(string \<Rightarrow> string) \<Rightarrow> (string \<Rightarrow> string option) option \<Rightarrow> nat \<Rightarrow> int \<Rightarrow> string \<Rightarrow> key_db \<Rightarrow> (key_error + api_key_record) \<times> key_db" where
  "RotateApiKey sha cipher conflicts i secret db =
     (if length secret < 7 then (Inl (Failed ''invalid API key secret''), db)
      else case sealApiKey cipher secret of
             Inl err \<Rightarrow> (Inl err, db)
           | Inr sealed \<Rightarrow>
               (case mutateApiKey conflicts i (\<lambda>row. Inr (row\<lparr>kr_KeyHash := sha secret, kr_EncryptedSecret := sealed,
                       kr_KeyPrefix := ''sk-'', kr_KeySuffix := drop (length secret - 4) secret\<rparr>)) db of
                  (Inl err, db') \<Rightarrow> (Inl err, db')
                | (Inr row, db') \<Rightarrow> (Inr (toApiKey row), db')))"

text \<open>The fields a patch may carry.\<close>

record key_patch =
  pa_enabled :: "bool option"
  pa_allowed_models :: "string list option"
  pa_rpm_limit :: "int option"
  pa_max_concurrent :: "int option"
  pa_expires_at :: "time option option"
  pa_billing_limit :: "int option"
  pa_billing_period_days :: "int option"

definition or_else :: "'a option \<Rightarrow> 'a \<Rightarrow> 'a" where
  "or_else x y = (case x of Some v \<Rightarrow> v | None \<Rightarrow> y)"

definition PatchApiKey :: "nat \<Rightarrow> int \<Rightarrow> key_patch \<Rightarrow> key_db \<Rightarrow> (key_error + api_key_record) \<times> key_db" where
  "PatchApiKey conflicts i p db =
     mutateApiKey conflicts i (\<lambda>row. Inr (row\<lparr>
         kr_Enabled := or_else (pa_enabled p) (kr_Enabled row),
         kr_AllowedModels := or_else (pa_allowed_models p) (kr_AllowedModels row),
         kr_RPMLimit := or_else (pa_rpm_limit p) (kr_RPMLimit row),
         kr_MaxConcurrent := or_else (pa_max_concurrent p) (kr_MaxConcurrent row),
         kr_ExpiresAt := or_else (pa_expires_at p) (kr_ExpiresAt row),
         kr_BillingLimit := or_else (pa_billing_limit p) (kr_BillingLimit row),
         kr_BillingPeriodDays := or_else (pa_billing_period_days p) (kr_BillingPeriodDays row)\<rparr>)) db"

text \<open>The pipeline of a deletion, with the row its handler has read.\<close>

definition delete_read :: "int \<Rightarrow> api_key_record \<Rightarrow> key_db \<Rightarrow> key_db" where
  "delete_read i key db =
     db\<lparr>kd_rows := (kd_rows db)(i := None), kd_ids := kd_ids db - {i},
        kd_hash := (if kr_KeyHash key \<noteq> [] then (kd_hash db)(kr_KeyHash key := None) else kd_hash db),
        kd_limits := (kd_limits db)(i := None)\<rparr>"

section \<open>Reading rows\<close>

definition getApiKeyByID :: "string option \<Rightarrow> int \<Rightarrow> key_db \<Rightarrow> key_error + api_key_record" where
  "getApiKeyByID err i db =
     (if i = 0 then Inl NoRows
      else case err of
             Some e \<Rightarrow> Inl (Failed e)
           | None \<Rightarrow>
               (case kd_rows db i of
                  None \<Rightarrow> Inl NoRows
                | Some row \<Rightarrow> Inr ((toApiKey row)\<lparr>kr_ID := if kr_ID row = 0 then i else kr_ID row\<rparr>)))"

definition remember_index :: "string \<Rightarrow> int \<Rightarrow> key_process \<Rightarrow> key_process" where
  "remember_index hash i kp =
     kp\<lparr>kp_index := AList.update hash i (if length (kp_index kp) \<ge> 4096 then [] else kp_index kp)\<rparr>"

text \<open>The lookup behind the cache; \<open>err\<close> is an error of the connection.\<close>

definition lookup_index :: "string option \<Rightarrow> string \<Rightarrow> key_db \<Rightarrow> key_process \<Rightarrow> (key_error + api_key_record) \<times> key_process" where
  "lookup_index err hash db kp =
     (case err of
        Some e \<Rightarrow> (Inl (Failed e), kp)
      | None \<Rightarrow>
          (case kd_hash db hash of
             None \<Rightarrow> (Inl NoRows, kp)
           | Some i \<Rightarrow>
               (case getApiKeyByID None i db of
                  Inl e \<Rightarrow> (Inl e, kp)
                | Inr key \<Rightarrow> if kr_KeyHash key \<noteq> hash then (Inl NoRows, kp) else (Inr key, remember_index hash i kp))))"

definition GetApiKeyByHash :: "string option \<Rightarrow> string \<Rightarrow> key_db \<Rightarrow> key_process \<Rightarrow> (key_error + api_key_record) \<times> key_process" where
  "GetApiKeyByHash err hash0 db kp =
     (let hash = trim_space hash0;
          forget = kp\<lparr>kp_index := AList.delete hash (kp_index kp)\<rparr>
      in if hash = [] then (Inl NoRows, kp)
         else case map_of (kp_index kp) hash of
                None \<Rightarrow> lookup_index err hash db kp
              | Some i \<Rightarrow>
                  (case getApiKeyByID err i db of
                     Inr key \<Rightarrow> if kr_KeyHash key = hash then (Inr key, kp) else lookup_index err hash db forget
                   | Inl NoRows \<Rightarrow> lookup_index err hash db forget
                   | Inl e \<Rightarrow> (Inl e, kp)))"

section \<open>The requests of a minute\<close>

text \<open>\<open>clock\<close> is the server's, in seconds; a counter is its count and its deadline.\<close>

definition rpm_at :: "int \<Rightarrow> key_db \<Rightarrow> int \<times> int \<Rightarrow> int option" where
  "rpm_at clock db key = (case kd_rpm db key of Some (n, deadline) \<Rightarrow> if clock < deadline then Some n else None | None \<Rightarrow> None)"

definition consumeApiKeyRPMScript :: "int \<Rightarrow> int \<Rightarrow> int \<Rightarrow> int \<Rightarrow> time \<Rightarrow> int \<Rightarrow> key_db \<Rightarrow> (key_error + int) \<times> key_db" where
  "consumeApiKeyRPMScript clock i minute_no ttl now limit db =
     (case kd_rows db i of
        None \<Rightarrow> (Inl (Failed ''api key not found''), db)
      | Some row \<Rightarrow>
          let db1 = db\<lparr>kd_rows := (kd_rows db)(i \<mapsto> row\<lparr>kr_LastUsedAt := Some now\<rparr>)\<rparr> in
          if limit \<le> 0 then (Inr 0, db1)
          else case rpm_at clock db (i, minute_no) of
                 None \<Rightarrow> (Inr 1, db1\<lparr>kd_rpm := (kd_rpm db)((i, minute_no) \<mapsto> (1, clock + ttl))\<rparr>)
               | Some n \<Rightarrow> (Inr (n + 1), db1\<lparr>kd_rpm := (kd_rpm db)((i, minute_no) \<mapsto>
                     (n + 1, snd (the (kd_rpm db (i, minute_no)))))\<rparr>))"

definition ConsumeApiKeyRPM :: "string option \<Rightarrow> int \<Rightarrow> int \<Rightarrow> int \<Rightarrow> time \<Rightarrow> key_db \<Rightarrow> (key_error + bool) \<times> key_db" where
  "ConsumeApiKeyRPM err clock i limit now db =
     (if i = 0 then (Inl NoRows, db)
      else case err of
             Some e \<Rightarrow> (Inl (Failed e), db)
           | None \<Rightarrow>
               (case consumeApiKeyRPMScript clock i (unix_second now div 60) 120 now limit db of
                  (Inl e, db') \<Rightarrow> (Inl e, db')
                | (Inr n, db') \<Rightarrow> (Inr (n \<le> limit), db')))"

definition TouchApiKeyLastUsed :: "string option \<Rightarrow> int \<Rightarrow> time \<Rightarrow> key_db \<Rightarrow> (key_error + unit) \<times> key_db" where
  "TouchApiKeyLastUsed err i now db =
     (if i = 0 then (Inl NoRows, db)
      else case err of
             Some e \<Rightarrow> (Inl (Failed e), db)
           | None \<Rightarrow>
               (case kd_rows db i of
                  None \<Rightarrow> (Inl (Failed ''api key not found''), db)
                | Some row \<Rightarrow> (Inr (), db\<lparr>kd_rows := (kd_rows db)(i \<mapsto> row\<lparr>kr_LastUsedAt := Some now\<rparr>)\<rparr>)))"

section \<open>Authorizing a raw key\<close>

definition touchApiKeyCoalesced ::
  "string option \<Rightarrow> int \<Rightarrow> time \<Rightarrow> key_db \<Rightarrow> key_process \<Rightarrow> (key_error + unit) \<times> key_db \<times> key_process" where
  "touchApiKeyCoalesced err i now db kp =
     (if (case map_of (kp_touches kp) i of Some previous \<Rightarrow> time_sub now previous < minute | None \<Rightarrow> False) then (Inr (), db, kp)
      else
        let touches = AList.update i now (if length (kp_touches kp) \<ge> 65536 then [] else kp_touches kp)
        in case TouchApiKeyLastUsed err i now db of
             (Inr _, db') \<Rightarrow> (Inr (), db', kp\<lparr>kp_touches := touches\<rparr>)
           | (Inl e, db') \<Rightarrow> (Inl e, db', kp\<lparr>kp_touches := AList.delete i touches\<rparr>))"

record key_errs =
  ke_lookup :: "string option"
  ke_rpm :: "string option"
  ke_touch :: "string option"

definition AuthorizeApiKey ::
  "(string \<Rightarrow> string) \<Rightarrow> key_errs \<Rightarrow> int \<Rightarrow> time \<Rightarrow> string \<Rightarrow> key_db \<Rightarrow> key_process \<Rightarrow>
   (key_error + api_key_record) \<times> key_db \<times> key_process" where
  "AuthorizeApiKey sha errs clock now raw0 db kp0 =
     (let raw = trim_space raw0 in
      if raw = [] then (Inl NoRows, db, kp0)
      else case GetApiKeyByHash (ke_lookup errs) (sha raw) db kp0 of
             (Inl e, kp) \<Rightarrow> (Inl e, db, kp)
           | (Inr key, kp) \<Rightarrow>
               if \<not> kr_Enabled key then (Inl NoRows, db, kp)
               else if (case kr_ExpiresAt key of Some expiry \<Rightarrow> \<not> now < expiry | None \<Rightarrow> False) then (Inl ApiKeyExpired, db, kp)
               else if kr_RPMLimit key > 0
               then (case ConsumeApiKeyRPM (ke_rpm errs) clock (kr_ID key) (kr_RPMLimit key) now db of
                       (Inl e, db') \<Rightarrow> (Inl e, db', kp)
                     | (Inr allowed, db') \<Rightarrow>
                         if allowed then (Inr (key\<lparr>kr_LastUsedAt := Some now\<rparr>), db', kp) else (Inl ApiKeyRateLimited, db', kp))
               else (case touchApiKeyCoalesced (ke_touch errs) (kr_ID key) now db kp of
                       (Inl e, db', kp') \<Rightarrow> (Inl e, db', kp')
                     | (Inr _, db', kp') \<Rightarrow> (Inr (key\<lparr>kr_LastUsedAt := Some now\<rparr>), db', kp')))"


section \<open>A deployment over time\<close>

record key_world =
  kw_db :: key_db
  kw_procs :: "key_process list"
  kw_read :: "api_key_record list"

datatype key_op =
    Create_key string api_key_record
  | Read_key int
  | Reset_usage nat nat
  | Rotate_key nat int string
  | Patch_key nat int key_patch
  | Delete_key nat
  | Authorize_key nat key_errs int time string

definition new_key :: "(string \<Rightarrow> string) \<Rightarrow> string \<Rightarrow> api_key_record \<Rightarrow> api_key_record" where
  "new_key sha full policy = policy\<lparr>kr_KeyHash := sha full, kr_KeyPrefix := ''sk-'', kr_KeySuffix := drop (length full - 4) full,
     kr_Enabled := True\<rparr>"

text \<open>\<open>Read_key\<close> remembers the row a handler loads; \<open>Reset_usage\<close> and \<open>Delete_key\<close> name the reading they follow.\<close>

fun key_step :: "(string \<Rightarrow> string) \<Rightarrow> (string \<Rightarrow> string option) option \<Rightarrow> key_op \<Rightarrow> key_world \<Rightarrow> key_world" where
  "key_step sha cipher (Create_key full policy) s = s\<lparr>kw_db := snd (CreateApiKey cipher full (new_key sha full policy) (kw_db s))\<rparr>"
| "key_step sha cipher (Read_key i) s =
     (case getApiKeyByID None i (kw_db s) of Inl _ \<Rightarrow> s | Inr key \<Rightarrow> s\<lparr>kw_read := kw_read s @ [key]\<rparr>)"
| "key_step sha cipher (Reset_usage conflicts n) s =
     (if n < length (kw_read s) then s\<lparr>kw_db := snd (UpdateApiKey conflicts (kw_read s ! n) (kw_db s))\<rparr> else s)"
| "key_step sha cipher (Rotate_key conflicts i secret) s = s\<lparr>kw_db := snd (RotateApiKey sha cipher conflicts i secret (kw_db s))\<rparr>"
| "key_step sha cipher (Patch_key conflicts i patch) s = s\<lparr>kw_db := snd (PatchApiKey conflicts i patch (kw_db s))\<rparr>"
| "key_step sha cipher (Delete_key n) s =
     (if n < length (kw_read s) then s\<lparr>kw_db := delete_read (kr_ID (kw_read s ! n)) (kw_read s ! n) (kw_db s)\<rparr> else s)"
| "key_step sha cipher (Authorize_key p errs clock now raw) s =
     (case AuthorizeApiKey sha errs clock now raw (kw_db s) (kw_procs s ! p) of
        (_, db, kp) \<Rightarrow> s\<lparr>kw_db := db, kw_procs := (kw_procs s)[p := kp]\<rparr>)"

definition key_run :: "(string \<Rightarrow> string) \<Rightarrow> (string \<Rightarrow> string option) option \<Rightarrow> key_op list \<Rightarrow> key_world \<Rightarrow> key_world" where
  "key_run sha cipher ops s = fold (key_step sha cipher) ops s"

text \<open>A database whose rows carry their identifier, and replicas with empty or stale caches.\<close>

definition rows_numbered :: "key_db \<Rightarrow> bool" where
  "rows_numbered db \<longleftrightarrow> (\<forall>i row. kd_rows db i = Some row \<longrightarrow> kr_ID row = i \<and> i \<noteq> 0 \<and> i \<le> kd_next db) \<and> 0 \<le> kd_next db"

definition key_start :: "key_db \<Rightarrow> key_process list \<Rightarrow> key_world" where
  "key_start db procs = \<lparr>kw_db = db, kw_procs = procs, kw_read = []\<rparr>"

section \<open>Whom an authorization lets in\<close>

lemma getApiKeyByID_Inr:
  "getApiKeyByID err i db = Inr key \<Longrightarrow> \<exists>row. kd_rows db i = Some row \<and> key = (toApiKey row)\<lparr>kr_ID := if kr_ID row = 0 then i else kr_ID row\<rparr>"
  by (auto simp: getApiKeyByID_def split: if_splits option.splits)

lemma lookup_sound:
  assumes "fst (GetApiKeyByHash err hash db kp) = Inr key"
  shows "kr_KeyHash key = trim_space hash \<and> (\<exists>i. getApiKeyByID None i db = Inr key)"
  using assms
  by (auto simp: GetApiKeyByHash_def lookup_index_def getApiKeyByID_def Let_def
      split: if_splits option.splits sum.splits key_error.splits)


text \<open>
  An authorized key is one that exists, under the very digest of the secret that was sent, is enabled and has not
  expired, whatever the replica has cached; its policy is the row's.
\<close>

lemma authorized_key_valid:
  assumes "rows_numbered db" "fst (AuthorizeApiKey sha errs clock now raw db kp) = Inr key"
  shows "\<exists>row. kd_rows db (kr_ID key) = Some row \<and> kr_KeyHash row = trim_space (sha (trim_space raw)) \<and> kr_Enabled row \<and>
    (\<forall>expiry. kr_ExpiresAt row = Some expiry \<longrightarrow> now < expiry) \<and>
    kr_AllowedModels key = kr_AllowedModels row \<and> kr_MaxConcurrent key = kr_MaxConcurrent row \<and> kr_BillingLimit key = kr_BillingLimit row"
proof -
  obtain found kp' where g: "GetApiKeyByHash (ke_lookup errs) (sha (trim_space raw)) db kp = (found, kp')" by fastforce
  from assms(2) obtain k where k: "found = Inr k" "kr_Enabled k" "\<forall>expiry. kr_ExpiresAt k = Some expiry \<longrightarrow> now < expiry"
    "key = k\<lparr>kr_LastUsedAt := Some now\<rparr>"
    by (auto simp: AuthorizeApiKey_def g Let_def split: if_splits sum.splits prod.splits option.splits)
  with lookup_sound [of "ke_lookup errs" "sha (trim_space raw)" db kp k] g obtain i
    where i: "kr_KeyHash k = trim_space (sha (trim_space raw))" "getApiKeyByID None i db = Inr k" by auto
  from getApiKeyByID_Inr [OF i(2)] obtain row where row: "kd_rows db i = Some row"
    "k = (toApiKey row)\<lparr>kr_ID := if kr_ID row = 0 then i else kr_ID row\<rparr>" by blast
  with assms(1) have "kr_ID row = i" "i \<noteq> 0" by (auto simp: rows_numbered_def)
  with row k(2-4) i(1) show ?thesis by (intro exI [of _ row]) (auto simp: toApiKey_def)
qed

section \<open>A revoked secret\<close>

definition introduced :: "(string \<Rightarrow> string) \<Rightarrow> key_op \<Rightarrow> string set" where
  "introduced sha op = (case op of Create_key full _ \<Rightarrow> {sha full} | Rotate_key _ _ secret \<Rightarrow> {sha secret} | _ \<Rightarrow> {})"

definition row_kept :: "api_key_record \<Rightarrow> api_key_record \<Rightarrow> bool" where
  "row_kept row row' \<longleftrightarrow> kr_ID row' = kr_ID row \<and> kr_KeyHash row' = kr_KeyHash row \<and>
     (kr_EncryptedSecret row \<noteq> [] \<longrightarrow> kr_EncryptedSecret row' \<noteq> [])"

definition rows_step :: "string set \<Rightarrow> key_db \<Rightarrow> key_db \<Rightarrow> bool" where
  "rows_step hs db db' \<longleftrightarrow> kd_next db \<le> kd_next db' \<and>
     (\<forall>i row'. kd_rows db' i = Some row' \<longrightarrow>
        (\<exists>row. kd_rows db i = Some row \<and> row_kept row row') \<or>
        (\<exists>row. kd_rows db i = Some row \<and> kr_ID row' = kr_ID row \<and> kr_EncryptedSecret row' \<noteq> [] \<and> kr_KeyHash row' \<in> hs) \<or>
        (i = kd_next db + 1 \<and> kr_ID row' = i \<and> kd_next db' = i \<and> kr_KeyHash row' \<in> hs))"

text \<open>A row that was read and has no sealed secret is still under the digest it had then.\<close>

definition readings_ok :: "key_world \<Rightarrow> bool" where
  "readings_ok s \<longleftrightarrow> rows_numbered (kw_db s) \<and>
     (\<forall>key \<in> set (kw_read s). kr_ID key \<le> kd_next (kw_db s) \<and>
        (\<forall>row. kd_rows (kw_db s) (kr_ID key) = Some row \<longrightarrow> kr_EncryptedSecret row \<noteq> [] \<or> kr_KeyHash row = kr_KeyHash key))"

lemma rows_step_refl: "rows_step hs db db"
  by (auto simp: rows_step_def row_kept_def)

lemma row_update_step:
  assumes "kd_rows db i = Some row" "kr_ID row' = kr_ID row"
    and "row_kept row row' \<or> kr_EncryptedSecret row' \<noteq> [] \<and> kr_KeyHash row' \<in> hs"
    and "kd_rows db' = (kd_rows db)(i \<mapsto> row')" "kd_next db' = kd_next db"
  shows "rows_step hs db db'"
proof -
  have "row_kept r r" for r by (simp add: row_kept_def)
  then show ?thesis using assms unfolding rows_step_def by (metis fun_upd_apply option.inject order_refl)
qed

lemma mutate_step:
  assumes "\<And>row row'. kd_rows db i = Some row \<Longrightarrow> change row = Inr row' \<Longrightarrow> kr_ID row' = kr_ID row \<and>
      (row_kept row row' \<or> kr_EncryptedSecret row' \<noteq> [] \<and> kr_KeyHash row' \<in> hs)"
  shows "rows_step hs db (snd (mutateApiKey conflicts i change db))"
proof (cases "kd_rows db i")
  case (Some row)
  show ?thesis
  proof (cases "change row")
    case (Inr row')
    note assms [OF Some Inr]
    then have "rows_step hs db (db\<lparr>kd_rows := (kd_rows db)(i \<mapsto> row'), kd_hash := x, kd_limits := y\<rparr>)" for x y
      using row_update_step [OF Some, of row' hs] by simp
    with Some Inr show ?thesis by (simp add: mutateApiKey_def rows_step_refl)
  qed (simp add: mutateApiKey_def Some rows_step_refl)
qed (simp add: mutateApiKey_def rows_step_refl)

lemma sealed_nonempty: "sealApiKey cipher secret = Inr sealed \<Longrightarrow> secret \<noteq> [] \<Longrightarrow> sealed \<noteq> []"
  by (auto simp: sealApiKey_def encryptedCredentialPrefix_def split: option.splits if_splits)

lemma consume_rows: "rows_step hs db (snd (ConsumeApiKeyRPM err clock i limit now db))"
  by (auto simp: ConsumeApiKeyRPM_def consumeApiKeyRPMScript_def rows_step_def row_kept_def Let_def
      split: option.split sum.split prod.split)

lemma touch_rows: "rows_step hs db (snd (TouchApiKeyLastUsed err i now db))"
  by (auto simp: TouchApiKeyLastUsed_def rows_step_def row_kept_def split: option.split)

lemma authorize_rows: "rows_step hs db (fst (snd (AuthorizeApiKey sha errs clock now raw db kp)))"
proof -
  have "fst (snd (touchApiKeyCoalesced err i now db kp')) = db \<or>
      fst (snd (touchApiKeyCoalesced err i now db kp')) = snd (TouchApiKeyLastUsed err i now db)" for err i kp'
    by (auto simp: touchApiKeyCoalesced_def Let_def split: sum.split prod.split)
  then have t: "rows_step hs db (fst (snd (touchApiKeyCoalesced err i now db kp')))" for err i kp'
    using touch_rows rows_step_refl by metis
  show ?thesis
    unfolding AuthorizeApiKey_def Let_def
    using t consume_rows rows_step_refl by (auto split: sum.split prod.split) (metis fst_conv snd_conv)+
qed

lemma key_step_rows:
  assumes "readings_ok s"
  shows "rows_step (introduced sha op) (kw_db s) (kw_db (key_step sha cipher op s))"
proof (cases op)
  case (Create_key full policy)
  then show ?thesis
    by (auto simp: CreateApiKey_def rows_step_def row_kept_def introduced_def new_key_def Let_def split: sum.split)
next
  case (Read_key i)
  then show ?thesis using rows_step_refl by (auto split: sum.split)
next
  case (Reset_usage conflicts n)
  show ?thesis
  proof (cases "n < length (kw_read s)")
    case True
    define key where "key = kw_read s ! n"
    have current: "kd_rows (kw_db s) (kr_ID key) = Some row \<Longrightarrow> kr_EncryptedSecret row \<noteq> [] \<or> kr_KeyHash row = kr_KeyHash key"
      "kd_rows (kw_db s) (kr_ID key) = Some row \<Longrightarrow> kr_ID row = kr_ID key" for row
      using assms True by (auto simp: readings_ok_def key_def rows_numbered_def)
    have "rows_step hs (kw_db s) (snd (UpdateApiKey conflicts key (kw_db s)))" for hs
    proof (cases "kr_ID key = 0")
      case False
      then show ?thesis
        unfolding UpdateApiKey_def if_not_P [OF False]
      proof (intro mutate_step)
        fix row row' assume r: "kd_rows (kw_db s) (kr_ID key) = Some row"
          and e: "(let changed = if kr_EncryptedSecret row \<noteq> []
              then key\<lparr>kr_KeyHash := kr_KeyHash row, kr_KeyPrefix := kr_KeyPrefix row, kr_KeySuffix := kr_KeySuffix row\<rparr> else key
            in Inr (changed\<lparr>kr_EncryptedSecret := kr_EncryptedSecret row\<rparr>)) = (Inr row' :: key_error + api_key_record)"
        show "kr_ID row' = kr_ID row \<and> (row_kept row row' \<or> kr_EncryptedSecret row' \<noteq> [] \<and> kr_KeyHash row' \<in> hs)"
          using current [OF r] e by (cases "kr_EncryptedSecret row = []") (auto simp: row_kept_def Let_def)
      qed
    qed (simp add: UpdateApiKey_def rows_step_refl)
    with Reset_usage True show ?thesis by (simp add: key_def)
  qed (simp add: Reset_usage rows_step_refl)
next
  case (Rotate_key conflicts i secret)
  have "rows_step {sha secret} (kw_db s) (snd (RotateApiKey sha cipher conflicts i secret (kw_db s)))"
  proof (cases "length secret < 7 \<or> sealApiKey cipher secret = Inl (projl (sealApiKey cipher secret))")
    case True
    then show ?thesis by (auto simp: RotateApiKey_def rows_step_refl split: sum.split)
  next
    case False
    then obtain sealed where seal: "sealApiKey cipher secret = Inr sealed" "secret \<noteq> []" "\<not> length secret < 7"
      by (cases "sealApiKey cipher secret"; cases secret) auto
    let ?change = "\<lambda>row. Inr (row\<lparr>kr_KeyHash := sha secret, kr_EncryptedSecret := sealed,
        kr_KeyPrefix := ''sk-'', kr_KeySuffix := drop (length secret - 4) secret\<rparr>)"
    have "snd (RotateApiKey sha cipher conflicts i secret (kw_db s)) = snd (mutateApiKey conflicts i ?change (kw_db s))"
      by (simp add: RotateApiKey_def seal split: sum.split prod.split)
    moreover have "rows_step {sha secret} (kw_db s) (snd (mutateApiKey conflicts i ?change (kw_db s)))"
      using sealed_nonempty [OF seal(1,2)] by (intro mutate_step) auto
    ultimately show ?thesis by simp
  qed
  with Rotate_key show ?thesis by (simp add: introduced_def)
next
  case (Patch_key conflicts i patch)
  then show ?thesis by (auto simp: PatchApiKey_def row_kept_def intro!: mutate_step)
next
  case (Delete_key n)
  then show ?thesis by (auto simp: delete_read_def rows_step_def row_kept_def)
next
  case (Authorize_key p errs clock now raw)
  then show ?thesis using authorize_rows [of _ "kw_db s" sha errs clock now raw "kw_procs s ! p"]
    by (auto split: prod.split)
qed


lemma rows_step_cases:
  assumes "rows_step hs db db'" "kd_rows db' i = Some row'"
  obtains row where "kd_rows db i = Some row" "row_kept row row'"
  | row where "kd_rows db i = Some row" "kr_ID row' = kr_ID row" "kr_EncryptedSecret row' \<noteq> []" "kr_KeyHash row' \<in> hs"
  | "i = kd_next db + 1" "kr_ID row' = i" "kd_next db' = i" "kr_KeyHash row' \<in> hs"
  using assms unfolding rows_step_def by blast

lemma rows_step_numbered:
  assumes "rows_step hs db db'" "rows_numbered db"
  shows "rows_numbered db'"
proof -
  have mono: "kd_next db \<le> kd_next db'" using assms(1) by (simp add: rows_step_def)
  have old: "kr_ID row = i \<and> i \<noteq> 0 \<and> i \<le> kd_next db'" if "kd_rows db i = Some row" for i row
  proof -
    from assms(2) that have "kr_ID row = i" "i \<noteq> 0" "i \<le> kd_next db" unfolding rows_numbered_def by blast+
    with mono show ?thesis by simp
  qed
  have "kr_ID row' = i \<and> i \<noteq> 0 \<and> i \<le> kd_next db'" if "kd_rows db' i = Some row'" for i row'
    using assms(1) that
  proof (cases rule: rows_step_cases)
    case (1 row)
    with old [of i row] show ?thesis by (simp add: row_kept_def)
  next
    case (2 row)
    with old [of i row] show ?thesis by simp
  next
    case 3
    then show ?thesis using assms(2) by (auto simp: rows_numbered_def)
  qed
  then show ?thesis using assms(2) mono by (auto simp: rows_numbered_def)
qed

lemma readings_kept:
  assumes "readings_ok s"
  shows "readings_ok (key_step sha cipher op s)"
proof -
  let ?s = "key_step sha cipher op s"
  have step: "rows_step (introduced sha op) (kw_db s) (kw_db ?s)" by (rule key_step_rows [OF assms])
  have num: "rows_numbered (kw_db ?s)"
    by (rule rows_step_numbered [OF step]) (use assms in \<open>simp add: readings_ok_def\<close>)
  have old: "kr_ID key \<le> kd_next (kw_db ?s) \<and> (\<forall>row. kd_rows (kw_db ?s) (kr_ID key) = Some row \<longrightarrow>
      kr_EncryptedSecret row \<noteq> [] \<or> kr_KeyHash row = kr_KeyHash key)" if "key \<in> set (kw_read s)" for key
  proof -
    have k: "kr_ID key \<le> kd_next (kw_db s)" "\<And>row. kd_rows (kw_db s) (kr_ID key) = Some row \<Longrightarrow>
        kr_EncryptedSecret row \<noteq> [] \<or> kr_KeyHash row = kr_KeyHash key"
      using assms that by (auto simp: readings_ok_def)
    show ?thesis
    proof (intro conjI allI impI)
      show "kr_ID key \<le> kd_next (kw_db ?s)" using k(1) step by (simp add: rows_step_def)
    next
      fix row assume "kd_rows (kw_db ?s) (kr_ID key) = Some row"
      with step k(1) consider (kept) row0 where "kd_rows (kw_db s) (kr_ID key) = Some row0" "row_kept row0 row"
        | (sealed) "kr_EncryptedSecret row \<noteq> []"
        unfolding rows_step_def by (metis zle_add1_eq_le less_irrefl)
      then show "kr_EncryptedSecret row \<noteq> [] \<or> kr_KeyHash row = kr_KeyHash key"
        by cases (use k(2) in \<open>auto simp: row_kept_def\<close>)
    qed
  qed
  have "kw_read ?s = kw_read s \<or> (\<exists>i key. getApiKeyByID None i (kw_db s) = Inr key \<and> kw_read ?s = kw_read s @ [key] \<and> kw_db ?s = kw_db s)"
    by (cases op) (auto split: sum.split prod.split)
  then show ?thesis
  proof
    assume "kw_read ?s = kw_read s"
    with num old show ?thesis by (auto simp: readings_ok_def)
  next
    assume "\<exists>i key. getApiKeyByID None i (kw_db s) = Inr key \<and> kw_read ?s = kw_read s @ [key] \<and> kw_db ?s = kw_db s"
    then obtain i key where r: "getApiKeyByID None i (kw_db s) = Inr key" "kw_read ?s = kw_read s @ [key]" "kw_db ?s = kw_db s" by blast
    from getApiKeyByID_Inr [OF r(1)] obtain row where row: "kd_rows (kw_db s) i = Some row"
      "key = (toApiKey row)\<lparr>kr_ID := if kr_ID row = 0 then i else kr_ID row\<rparr>" by blast
    with assms have "kr_ID key = i" "i \<le> kd_next (kw_db s)" "kr_KeyHash key = kr_KeyHash row"
      by (auto simp: readings_ok_def rows_numbered_def toApiKey_def)
    with num old r row(1) show ?thesis by (auto simp: readings_ok_def)
  qed
qed

definition nobody_holds :: "string \<Rightarrow> key_world \<Rightarrow> bool" where
  "nobody_holds h s \<longleftrightarrow> (\<forall>i row. kd_rows (kw_db s) i = Some row \<longrightarrow> kr_KeyHash row \<noteq> h)"

lemma nobody_holds_step:
  assumes "readings_ok s" "nobody_holds h s" "h \<notin> introduced sha op"
  shows "nobody_holds h (key_step sha cipher op s)"
proof -
  have "kr_KeyHash row' \<noteq> h" if "kd_rows (kw_db (key_step sha cipher op s)) i = Some row'" for i row'
    using key_step_rows [OF assms(1)] that
    by (cases rule: rows_step_cases) (use assms(2,3) in \<open>auto simp: nobody_holds_def row_kept_def\<close>)
  then show ?thesis by (simp add: nobody_holds_def)
qed

lemma key_run_simps [simp]: "key_run sha cipher [] s = s" "key_run sha cipher (op # ops) s = key_run sha cipher ops (key_step sha cipher op s)"
  by (simp_all add: key_run_def)

lemma readings_kept_run: "readings_ok s \<Longrightarrow> readings_ok (key_run sha cipher ops s)"
  by (induction ops arbitrary: s) (simp_all add: readings_kept del: key_step.simps)

lemma nobody_holds_run:
  "readings_ok s \<Longrightarrow> nobody_holds h s \<Longrightarrow> \<forall>op \<in> set ops. h \<notin> introduced sha op \<Longrightarrow> nobody_holds h (key_run sha cipher ops s)"
  by (induction ops arbitrary: s) (simp_all add: readings_kept nobody_holds_step del: key_step.simps)

text \<open>The operations that take the secret away from the key \<open>k\<close>: a rotation that succeeds, a deletion.\<close>

definition revokes :: "(string \<Rightarrow> string) \<Rightarrow> (string \<Rightarrow> string option) option \<Rightarrow> string \<Rightarrow> int \<Rightarrow> key_op \<Rightarrow> key_world \<Rightarrow> bool" where
  "revokes sha cipher h k op s \<longleftrightarrow>
     (case op of
        Rotate_key conflicts i secret \<Rightarrow>
          i = k \<and> sha secret \<noteq> h \<and> \<not> isl (fst (RotateApiKey sha cipher conflicts i secret (kw_db s)))
      | Delete_key n \<Rightarrow> n < length (kw_read s) \<and> kr_ID (kw_read s ! n) = k
      | _ \<Rightarrow> False)"


lemma revokes_holder:
  assumes "revokes sha cipher h k op s" "\<forall>i row. kd_rows (kw_db s) i = Some row \<and> kr_KeyHash row = h \<longrightarrow> i = k"
  shows "nobody_holds h (key_step sha cipher op s)" "h \<notin> introduced sha op"
proof -
  have rotate: "\<exists>row. kd_rows (snd (RotateApiKey sha cipher conflicts k secret db)) = (kd_rows db)(k \<mapsto> row) \<and> kr_KeyHash row = sha secret"
    if "\<not> isl (fst (RotateApiKey sha cipher conflicts k secret db))" for conflicts secret db
    using that by (auto simp: RotateApiKey_def mutateApiKey_def split: if_splits sum.splits option.splits)
  show "h \<notin> introduced sha op"
    using assms(1) by (auto simp: revokes_def introduced_def split: key_op.splits)
  show "nobody_holds h (key_step sha cipher op s)"
  proof (cases op)
    case (Rotate_key conflicts i secret)
    with assms(1) have i: "i = k" "sha secret \<noteq> h" "\<not> isl (fst (RotateApiKey sha cipher conflicts k secret (kw_db s)))"
      by (auto simp: revokes_def)
    from rotate [OF i(3)] i(1,2) assms(2) Rotate_key show ?thesis by (auto simp: nobody_holds_def split: if_splits)
  next
    case (Delete_key n)
    with assms show ?thesis by (auto simp: revokes_def nobody_holds_def delete_read_def)
  qed (use assms(1) in \<open>auto simp: revokes_def\<close>)
qed

text \<open>C16. Once a rotation or a deletion has taken a secret away from its key, no replica authorizes it again, whatever identifiers
  it has cached and whatever handlers read the row before and write it back after, unless a new key is given that secret.
\<close>

theorem revoked_secret_refused:
  assumes "rows_numbered db" "s = key_run sha cipher before (key_start db procs)"
    and "\<forall>i row. kd_rows (kw_db s) i = Some row \<and> kr_KeyHash row = h \<longrightarrow> i = k" "revokes sha cipher h k op s"
    and "\<forall>op' \<in> set after. h \<notin> introduced sha op'" "s' = key_run sha cipher (op # after) s"
    and "trim_space (sha (trim_space raw)) = h"
  shows "isl (fst (AuthorizeApiKey sha errs clock now raw (kw_db s') kp))"
proof -
  have "readings_ok s" unfolding assms(2) using assms(1) by (intro readings_kept_run) (simp add: readings_ok_def key_start_def)
  then have ok: "readings_ok (key_step sha cipher op s)" by (rule readings_kept)
  have nobody: "nobody_holds h s'" unfolding assms(6) key_run_simps
    using nobody_holds_run [OF ok revokes_holder(1) [OF assms(4,3)] assms(5)] .
  have "rows_numbered (kw_db s')" unfolding assms(6) key_run_simps using readings_kept_run [OF ok] by (simp add: readings_ok_def)
  show ?thesis
  proof (rule ccontr)
    assume "\<not> isl (fst (AuthorizeApiKey sha errs clock now raw (kw_db s') kp))"
    then obtain key where "fst (AuthorizeApiKey sha errs clock now raw (kw_db s') kp) = Inr key"
      by (cases "fst (AuthorizeApiKey sha errs clock now raw (kw_db s') kp)") auto
    from authorized_key_valid [OF \<open>rows_numbered (kw_db s')\<close> this] nobody assms(7) show False by (auto simp: nobody_holds_def)
  qed
qed


definition demo_row :: api_key_record where
  "demo_row = \<lparr>kr_ID = 3, kr_KeyHash = ''old-secret'', kr_EncryptedSecret = [], kr_KeyPrefix = ''sk-'', kr_KeySuffix = ''cret'',
     kr_Enabled = True, kr_AllowedModels = [], kr_RPMLimit = 2, kr_MaxConcurrent = 0, kr_BillingLimit = 0,
     kr_BillingPeriodDays = 0, kr_ExpiresAt = None, kr_LastUsedAt = None\<rparr>"

definition demo_keys :: key_db where
  "demo_keys = \<lparr>kd_rows = [3 \<mapsto> demo_row], kd_ids = {3}, kd_hash = [''old-secret'' \<mapsto> 3], kd_limits = [3 \<mapsto> 0], kd_next = 3,
     kd_rpm = Map.empty\<rparr>"

definition demo_proc :: key_process where "demo_proc = \<lparr>kp_index = [(''old-secret'', 3)], kp_touches = []\<rparr>"

definition no_errs :: key_errs where "no_errs = \<lparr>ke_lookup = None, ke_rpm = None, ke_touch = None\<rparr>"

lemma demo_numbered: "rows_numbered demo_keys"
  by (auto simp: rows_numbered_def demo_keys_def demo_row_def split: if_splits)

lemma revoked_secret_refused_witness:
  "isl (fst (AuthorizeApiKey id no_errs 60 (time_unix 60) ''old-secret''
     (kw_db (key_run id (Some Some) [Rotate_key 0 3 ''new-secret'', Reset_usage 0 0] (key_run id (Some Some) [Read_key 3] (key_start demo_keys [demo_proc]))))
     demo_proc))"
proof (rule revoked_secret_refused [OF demo_numbered refl])
  show "\<forall>i row. kd_rows (kw_db (key_run id (Some Some) [Read_key 3] (key_start demo_keys [demo_proc]))) i = Some row \<and>
      kr_KeyHash row = ''old-secret'' \<longrightarrow> i = 3"
    by (auto simp: key_start_def demo_keys_def getApiKeyByID_def split: if_splits)
  show "revokes id (Some Some) ''old-secret'' 3 (Rotate_key 0 3 ''new-secret'') (key_run id (Some Some) [Read_key 3] (key_start demo_keys [demo_proc]))"
    by (simp add: revokes_def RotateApiKey_def sealApiKey_def mutateApiKey_def key_start_def getApiKeyByID_def demo_keys_def)
  show "\<forall>op' \<in> set [Reset_usage 0 0]. ''old-secret'' \<notin> introduced id op'" by (simp add: introduced_def)
  show "trim_space (id (trim_space ''old-secret'')) = ''old-secret''" by code_simp
qed simp

text \<open>\<open>Reset_usage\<close> writes the whole row it read: a key disabled between the reading and the write is enabled again.\<close>

definition disable :: key_patch where
  "disable = \<lparr>pa_enabled = Some False, pa_allowed_models = None, pa_rpm_limit = None, pa_max_concurrent = None, pa_expires_at = None,
     pa_billing_limit = None, pa_billing_period_days = None\<rparr>"

lemma reset_undoes_disable:
  "map_option kr_Enabled (kd_rows (kw_db (key_run id None [Read_key 3, Patch_key 0 3 disable] (key_start demo_keys [demo_proc]))) 3) = Some False"
  "map_option kr_Enabled (kd_rows (kw_db (key_run id None [Read_key 3, Patch_key 0 3 disable, Reset_usage 0 0]
     (key_start demo_keys [demo_proc]))) 3) = Some True"
  by code_simp+

section \<open>The limit per minute\<close>

text \<open>Calls of \<open>ConsumeApiKeyRPM\<close> for one key, each after an arbitrary operation that leaves the counters alone, with the clocks of
  the server and of the replica.\<close>

fun minute_grants :: "int \<Rightarrow> int \<Rightarrow> int \<Rightarrow> ((key_db \<Rightarrow> key_db) \<times> int \<times> time) list \<Rightarrow> key_db \<Rightarrow> nat" where
  "minute_grants i limit m [] db = 0"
| "minute_grants i limit m ((other, clock, now) # calls) db =
     (case ConsumeApiKeyRPM None clock i limit now (other db) of
        (r, db') \<Rightarrow> of_bool (r = Inr True \<and> unix_second now div 60 = m) + minute_grants i limit m calls db')"

definition keeps_counters :: "(key_db \<Rightarrow> key_db) \<Rightarrow> bool" where
  "keeps_counters other \<longleftrightarrow> (\<forall>db. kd_rpm (other db) = kd_rpm db)"

lemma consume_counter:
  assumes "0 < limit" "\<bar>clock - unix_second now\<bar> \<le> 30"
    and "ConsumeApiKeyRPM None clock i limit now db = (r, db')"
    and "\<forall>n deadline. kd_rpm db (i, m) = Some (n, deadline) \<longrightarrow> 60 * m + 90 \<le> deadline"
  shows "(kd_rpm db' (i, m) = kd_rpm db (i, m) \<and> \<not> (r = Inr True \<and> unix_second now div 60 = m)) \<or>
    (\<exists>count deadline'. kd_rpm db' (i, m) = Some (count, deadline') \<and> 60 * m + 90 \<le> deadline' \<and>
       count = (case kd_rpm db (i, m) of Some (n, _) \<Rightarrow> n | None \<Rightarrow> 0) + 1 \<and> (r = Inr True \<longrightarrow> count \<le> limit))"
proof (cases "unix_second now div 60 = m")
  case True
  then have "60 * m \<le> unix_second now" "unix_second now < 60 * m + 60" by auto
  then have t: "60 * m + 90 \<le> clock + 120" "clock < 60 * m + 90" using assms(2) by auto
  show ?thesis
  proof (cases "i = 0 \<or> kd_rows db i = None")
    case True
    with assms(3) show ?thesis
      by (auto simp: ConsumeApiKeyRPM_def consumeApiKeyRPMScript_def split: if_splits)
  next
    case False
    then obtain row where row: "i \<noteq> 0" "kd_rows db i = Some row" by auto
    show ?thesis
    proof (cases "kd_rpm db (i, m)")
      case None
      with assms(1,3) True t row show ?thesis
        by (auto simp: ConsumeApiKeyRPM_def consumeApiKeyRPMScript_def rpm_at_def Let_def)
    next
      case (Some e)
      then obtain n deadline where e: "kd_rpm db (i, m) = Some (n, deadline)" by (cases e) auto
      with assms(4) t have "60 * m + 90 \<le> deadline" "clock < deadline" by fastforce+
      with e assms(1,3) True row show ?thesis
        by (auto simp: ConsumeApiKeyRPM_def consumeApiKeyRPMScript_def rpm_at_def Let_def)
    qed
  qed
next
  case False
  with assms(3) have "kd_rpm db' (i, m) = kd_rpm db (i, m)"
    by (auto simp: ConsumeApiKeyRPM_def consumeApiKeyRPMScript_def Let_def split: if_splits option.splits sum.splits)
  with False show ?thesis by simp
qed


lemma minute_grants_bound:
  assumes "0 < limit" "\<forall>(other, clock, now) \<in> set calls. keeps_counters other \<and> \<bar>clock - unix_second now\<bar> \<le> 30"
    and "\<forall>n deadline. kd_rpm db (i, m) = Some (n, deadline) \<longrightarrow> 0 \<le> n \<and> 60 * m + 90 \<le> deadline"
  shows "int (minute_grants i limit m calls db) \<le> max 0 (limit - (case kd_rpm db (i, m) of Some (n, _) \<Rightarrow> n | None \<Rightarrow> 0))"
  using assms(2,3)
proof (induction calls arbitrary: db)
  case (Cons call calls)
  obtain other clock now where call: "call = (other, clock, now)" by (cases call)
  obtain r db' where c: "ConsumeApiKeyRPM None clock i limit now (other db) = (r, db')" by fastforce
  have other: "kd_rpm (other db) = kd_rpm db" "\<bar>clock - unix_second now\<bar> \<le> 30" using Cons.prems(1) by (auto simp: call keeps_counters_def)
  from consume_counter [OF assms(1) other(2) c, of m] Cons.prems(2) consider
      (kept) "kd_rpm db' (i, m) = kd_rpm db (i, m)" "\<not> (r = Inr True \<and> unix_second now div 60 = m)"
    | (counted) count deadline where "kd_rpm db' (i, m) = Some (count, deadline)" "60 * m + 90 \<le> deadline"
        "count = (case kd_rpm db (i, m) of Some (n, _) \<Rightarrow> n | None \<Rightarrow> 0) + 1" "r = Inr True \<longrightarrow> count \<le> limit"
    unfolding other(1) by blast
  then show ?case
  proof cases
    case kept
    then have "int (minute_grants i limit m calls db') \<le> max 0 (limit - (case kd_rpm db (i, m) of Some (n, _) \<Rightarrow> n | None \<Rightarrow> 0))"
      using Cons.IH [of db'] Cons.prems by simp
    with kept(2) show ?thesis by (auto simp: call c)
  next
    case counted
    have "0 \<le> (case kd_rpm db (i, m) of Some (n, _) \<Rightarrow> n | None \<Rightarrow> 0)" using Cons.prems(2) by (auto split: option.split)
    with counted(1-3) have "int (minute_grants i limit m calls db') \<le> max 0 (limit - count)"
      using Cons.IH [of db'] Cons.prems(1) by simp
    with counted(3,4) show ?thesis by (auto simp: call c)
  qed
qed simp



end
