(* ===== verification/Admin_Sessions.thy ===== *)
theory Admin_Sessions
  imports Go_Prelude
begin

text \<open>
  The operator's sessions (\<^verbatim>\<open>internal/auth/auth.go\<close>, \<^verbatim>\<open>internal/auth/session_redis.go\<close>) and the credentials they hang
  on (\<^verbatim>\<open>internal/store/admin_config.go\<close>, \<^verbatim>\<open>internal/store/redis_scripts.go\<close>, the login and the configuration save of
  \<^verbatim>\<open>internal/api/api_config.go\<close>).

  \<^item> \<open>session_db\<close> is what the replicas share in Redis: the persisted configuration (of which the two credentials matter), the
    session generation and a record per digest of a token. Each script is one function; a record is visible before its
    deadline on the millisecond clock.
  \<^item> \<open>replica\<close> is what a process keeps: the configuration it published and its table of sessions.
  \<^item> \<open>deployment_step\<close> interleaves the handlers of any number of replicas. A login is two steps, the check of the password
    and the issue of the token, so that a credential change fits between them. The clock of the replicas and of Redis is
    the same one.
  \<^item> The digest of a token and the validation of the other settings are parameters.
\<close>

section \<open>What Redis holds\<close>

record admin_config =
  ac_user :: string
  ac_pass :: string

record session_db =
  db_config :: "admin_config option"
  db_generation :: "int option"
  db_sessions :: "string \<rightharpoonup> int \<times> int"

definition sessionTTL :: duration where "sessionTTL = 7 * 24 * hour"

text \<open>\<open>GET \<dots> or "1"\<close>.\<close>

definition generation_of :: "session_db \<Rightarrow> int" where
  "generation_of db = (case db_generation db of Some g \<Rightarrow> g | None \<Rightarrow> 1)"

definition saveSessionScript :: "time \<Rightarrow> string \<Rightarrow> int \<Rightarrow> string \<Rightarrow> session_db \<Rightarrow> (string + unit) \<times> session_db" where
  "saveSessionScript now key ttl_ms password db =
     (case db_config db of
        Some cfg \<Rightarrow>
          if password \<noteq> [] \<and> ac_pass cfg \<noteq> password then (Inl ''admin credentials changed'', db)
          else (Inr (), db\<lparr>db_sessions := (db_sessions db)(key \<mapsto> (generation_of db, unix_milli now + ttl_ms))\<rparr>)
      | None \<Rightarrow> (Inr (), db\<lparr>db_sessions := (db_sessions db)(key \<mapsto> (generation_of db, unix_milli now + ttl_ms))\<rparr>))"

definition validateSessionScript :: "time \<Rightarrow> string \<Rightarrow> session_db \<Rightarrow> int" where
  "validateSessionScript now key db =
     (case db_sessions db key of
        Some (generation, deadline) \<Rightarrow> if unix_milli now < deadline \<and> generation = generation_of db then 1 else 0
      | None \<Rightarrow> 0)"

text \<open>\<open>guard\<close> holds the credentials the caller started from: both arguments, or neither.\<close>

definition saveConfigWithSessionRevocationScript ::
  "(string \<times> string) option \<Rightarrow> admin_config \<Rightarrow> session_db \<Rightarrow> (string + unit) \<times> session_db" where
  "saveConfigWithSessionRevocationScript guard config db =
     (if (case (guard, db_config db) of
            (Some (pass, user), Some old) \<Rightarrow> ac_pass old \<noteq> pass \<or> ac_user old \<noteq> user
          | _ \<Rightarrow> False)
      then (Inl ''admin configuration changed; reload before saving'', db)
      else
        let rotate = (case db_config db of
                None \<Rightarrow> True
              | Some old \<Rightarrow> ac_pass old \<noteq> ac_pass config \<or> ac_user old \<noteq> ac_user config)
        in (Inr (), db\<lparr>db_generation := (if rotate then Some (generation_of db + 1) else db_generation db),
                      db_config := Some config\<rparr>))"

text \<open>The errors of the connection are the argument \<open>err\<close>.\<close>

definition redis_SaveSession :: "(string \<Rightarrow> string) \<Rightarrow> string option \<Rightarrow> time \<Rightarrow> string \<Rightarrow> time \<Rightarrow> string \<Rightarrow> session_db \<Rightarrow> (string + unit) \<times> session_db" where
  "redis_SaveSession sha err now token expiry password db =
     (let ttl = time_sub expiry now in
      if ttl \<le> 0 then (Inl ''refusing to persist an already expired session'', db)
      else case err of
             Some e \<Rightarrow> (Inl e, db)
           | None \<Rightarrow> saveSessionScript now (sha token) (ttl div millisecond) password db)"

definition redis_HasSession :: "(string \<Rightarrow> string) \<Rightarrow> string option \<Rightarrow> time \<Rightarrow> string \<Rightarrow> session_db \<Rightarrow> string + bool" where
  "redis_HasSession sha err now token db =
     (case err of Some e \<Rightarrow> Inl e | None \<Rightarrow> Inr (validateSessionScript now (sha token) db = 1))"

definition redis_DeleteSession :: "(string \<Rightarrow> string) \<Rightarrow> string \<Rightarrow> session_db \<Rightarrow> session_db" where
  "redis_DeleteSession sha token db = db\<lparr>db_sessions := (db_sessions db)(sha token := None)\<rparr>"

text \<open>The persisted password, or the one of the file until the first save.\<close>

definition redis_AdminCredentials :: "string option \<Rightarrow> session_db \<Rightarrow> string \<times> string \<Rightarrow> string + (string \<times> string)" where
  "redis_AdminCredentials err db fallback =
     (case err of
        Some e \<Rightarrow> Inl e
      | None \<Rightarrow>
          (case db_config db of
             None \<Rightarrow>
               if db_generation db \<noteq> None then Inl ''persisted admin credentials unavailable'' else Inr fallback
           | Some cfg \<Rightarrow>
               if trim_space (ac_pass cfg) = [] then Inl ''invalid persisted admin credentials''
               else Inr (ac_user cfg, ac_pass cfg)))"

section \<open>What a process keeps\<close>

record replica =
  rp_config :: admin_config
  rp_sessions :: "string \<rightharpoonup> time"

definition rememberSession :: "string \<Rightarrow> time \<Rightarrow> replica \<Rightarrow> replica" where
  "rememberSession token expiry rp = rp\<lparr>rp_sessions := (rp_sessions rp)(token \<mapsto> expiry)\<rparr>"

definition forgetSession :: "string \<Rightarrow> replica \<Rightarrow> replica" where
  "forgetSession token rp = rp\<lparr>rp_sessions := (rp_sessions rp)(token := None)\<rparr>"

definition memoryHasSession :: "time \<Rightarrow> string \<Rightarrow> replica \<Rightarrow> bool \<times> replica" where
  "memoryHasSession now token rp =
     (case rp_sessions rp token of
        None \<Rightarrow> (False, rp)
      | Some expiry \<Rightarrow> if now > expiry then (False, forgetSession token rp) else (True, rp))"

definition cleanupExpiredSessions :: "time \<Rightarrow> replica \<Rightarrow> replica" where
  "cleanupExpiredSessions now rp =
     rp\<lparr>rp_sessions := (\<lambda>token. case rp_sessions rp token of
          Some expiry \<Rightarrow> if now > expiry then None else Some expiry | None \<Rightarrow> None)\<rparr>"

definition ClearLocalSessions :: "replica \<Rightarrow> replica" where
  "ClearLocalSessions rp = rp\<lparr>rp_sessions := Map.empty\<rparr>"

section \<open>The handlers\<close>

text \<open>\<open>backend\<close> is the shared store, or nothing where sessions live in the process.\<close>

definition GenerateSessionTokenForPassword ::
  "(string \<Rightarrow> string) \<Rightarrow> string option \<Rightarrow> time \<Rightarrow> string \<Rightarrow> string \<Rightarrow> session_db option \<Rightarrow> replica \<Rightarrow>
   (string + string) \<times> session_db option \<times> replica" where
  "GenerateSessionTokenForPassword sha err now token password backend rp =
     (let expiry = now + sessionTTL in
      case backend of
        None \<Rightarrow> (Inr token, None, rememberSession token expiry rp)
      | Some db \<Rightarrow>
          (case redis_SaveSession sha err now token expiry password db of
             (Inl e, db') \<Rightarrow> (Inl (''persist admin session: '' @ e), Some db', rp)
           | (Inr _, db') \<Rightarrow> (Inr token, Some db', rememberSession token expiry rp)))"

definition ValidateSessionToken ::
  "(string \<Rightarrow> string) \<Rightarrow> string option \<Rightarrow> time \<Rightarrow> string \<Rightarrow> session_db option \<Rightarrow> replica \<Rightarrow> bool \<times> replica" where
  "ValidateSessionToken sha err now token backend rp =
     (if trim_space token = [] then (False, rp)
      else case backend of
             None \<Rightarrow> memoryHasSession now token rp
           | Some db \<Rightarrow>
               (case redis_HasSession sha err now token db of
                  Inl _ \<Rightarrow> (False, rp)
                | Inr valid \<Rightarrow> (valid, if valid then rp else forgetSession token rp)))"

definition InvalidateSessionToken ::
  "(string \<Rightarrow> string) \<Rightarrow> string \<Rightarrow> session_db option \<Rightarrow> replica \<Rightarrow> session_db option \<times> replica" where
  "InvalidateSessionToken sha token backend rp =
     (if trim_space token = [] then (backend, rp)
      else (map_option (redis_DeleteSession sha token) backend, forgetSession token rp))"

definition CurrentAdminCredentials :: "string option \<Rightarrow> session_db option \<Rightarrow> string \<times> string \<Rightarrow> string + (string \<times> string)" where
  "CurrentAdminCredentials err backend fallback =
     (case backend of Some db \<Rightarrow> redis_AdminCredentials err db fallback | None \<Rightarrow> Inr fallback)"

text \<open>The check of a login: the password the session is then opened for, when it is right.\<close>

definition check_login :: "string option \<Rightarrow> session_db option \<Rightarrow> replica \<Rightarrow> string \<Rightarrow> string \<Rightarrow> string option" where
  "check_login err backend rp username password =
     (case CurrentAdminCredentials err backend (ac_user (rp_config rp), ac_pass (rp_config rp)) of
        Inl _ \<Rightarrow> None
      | Inr (user, pass) \<Rightarrow> if trim_space pass \<noteq> [] \<and> username = user \<and> password = pass then Some pass else None)"

text \<open>\<open>base\<close> is the configuration the handler had loaded; \<open>valid\<close> stands for the validation of the other settings.\<close>

definition persistConfig ::
  "bool \<Rightarrow> string option \<Rightarrow> admin_config \<Rightarrow> admin_config \<Rightarrow> session_db \<Rightarrow> replica \<Rightarrow> (string + unit) \<times> session_db \<times> replica" where
  "persistConfig valid err base config db rp =
     (if trim_space (ac_pass config) = [] then (Inl ''admin password must not be empty'', db, rp)
      else if \<not> valid then (Inl ''invalid configuration'', db, rp)
      else case err of
             Some e \<Rightarrow> (Inl e, db, rp)
           | None \<Rightarrow>
               (case saveConfigWithSessionRevocationScript (Some (ac_pass base, ac_user base)) config db of
                  (Inl e, db') \<Rightarrow> (Inl e, db', rp)
                | (Inr _, db') \<Rightarrow>
                    (let rp' = (if ac_pass base \<noteq> ac_pass config \<or> ac_user base \<noteq> ac_user config then ClearLocalSessions rp else rp)
                     in (Inr (), db', rp'\<lparr>rp_config := config\<rparr>))))"

section \<open>A deployment over time\<close>

record admin_deployment =
  ad_now :: time
  ad_db :: session_db
  ad_replicas :: "replica list"
  ad_checked :: "string list"

datatype admin_op =
    Check_login nat "string option" string string
  | Issue_token nat nat "string option" string
  | Validate_token nat "string option" string
  | Log_out nat string
  | Save_config nat bool "string option" admin_config admin_config
  | Store_config admin_config
  | Cleanup_sessions nat
  | Wait_for duration

abbreviation on_replica :: "admin_deployment \<Rightarrow> nat \<Rightarrow> replica \<Rightarrow> admin_deployment" where
  "on_replica s i rp \<equiv> s\<lparr>ad_replicas := (ad_replicas s)[i := rp]\<rparr>"

text \<open>\<open>Check_login\<close> remembers a right password until \<open>Issue_token\<close>, which names the check it follows.\<close>

fun admin_step :: "(string \<Rightarrow> string) \<Rightarrow> admin_op \<Rightarrow> admin_deployment \<Rightarrow> admin_deployment" where
  "admin_step sha (Check_login i err username password) s =
     (case check_login err (Some (ad_db s)) (ad_replicas s ! i) username password of
        None \<Rightarrow> s | Some pass \<Rightarrow> s\<lparr>ad_checked := ad_checked s @ [pass]\<rparr>)"
| "admin_step sha (Issue_token i n err token) s =
     (if n < length (ad_checked s)
      then (case GenerateSessionTokenForPassword sha err (ad_now s) token (ad_checked s ! n) (Some (ad_db s)) (ad_replicas s ! i) of
              (_, Some db, rp) \<Rightarrow> (on_replica s i rp)\<lparr>ad_db := db\<rparr> | (_, None, rp) \<Rightarrow> on_replica s i rp)
      else s)"
| "admin_step sha (Validate_token i err token) s =
     on_replica s i (snd (ValidateSessionToken sha err (ad_now s) token (Some (ad_db s)) (ad_replicas s ! i)))"
| "admin_step sha (Log_out i token) s =
     (case InvalidateSessionToken sha token (Some (ad_db s)) (ad_replicas s ! i) of
        (Some db, rp) \<Rightarrow> (on_replica s i rp)\<lparr>ad_db := db\<rparr> | (None, rp) \<Rightarrow> on_replica s i rp)"
| "admin_step sha (Save_config i valid err base config) s =
     (case persistConfig valid err base config (ad_db s) (ad_replicas s ! i) of
        (_, db, rp) \<Rightarrow> (on_replica s i rp)\<lparr>ad_db := db\<rparr>)"
| "admin_step sha (Store_config config) s =
     s\<lparr>ad_db := snd (saveConfigWithSessionRevocationScript None config (ad_db s))\<rparr>"
| "admin_step sha (Cleanup_sessions i) s = on_replica s i (cleanupExpiredSessions (ad_now s) (ad_replicas s ! i))"
| "admin_step sha (Wait_for d) s = s\<lparr>ad_now := ad_now s + max 0 d\<rparr>"

definition admin_run :: "(string \<Rightarrow> string) \<Rightarrow> admin_op list \<Rightarrow> admin_deployment \<Rightarrow> admin_deployment" where
  "admin_run sha ops s = fold (admin_step sha) ops s"

text \<open>A deployment before its first login; \<open>db\<close> may hold a configuration and a generation.\<close>

definition admin_start :: "time \<Rightarrow> admin_config option \<Rightarrow> int option \<Rightarrow> admin_config list \<Rightarrow> admin_deployment" where
  "admin_start now config generation files =
     \<lparr>ad_now = now, ad_db = \<lparr>db_config = config, db_generation = generation, db_sessions = Map.empty\<rparr>,
      ad_replicas = map (\<lambda>c. \<lparr>rp_config = c, rp_sessions = Map.empty\<rparr>) files, ad_checked = []\<rparr>"

definition session_accepted :: "(string \<Rightarrow> string) \<Rightarrow> string option \<Rightarrow> string \<Rightarrow> nat \<Rightarrow> admin_deployment \<Rightarrow> bool" where
  "session_accepted sha err token i s \<longleftrightarrow>
     fst (ValidateSessionToken sha err (ad_now s) token (Some (ad_db s)) (ad_replicas s ! i))"


section \<open>What a session proves\<close>

text \<open>The run \<open>ops\<close> issued, at \<open>t\<close>, a token with the digest \<open>key\<close> to a login that gave the password \<open>pass\<close>.\<close>

definition opened :: "(string \<Rightarrow> string) \<Rightarrow> admin_deployment \<Rightarrow> admin_op list \<Rightarrow> string \<Rightarrow> string \<Rightarrow> time \<Rightarrow> bool" where
  "opened sha start ops key pass t \<longleftrightarrow>
     (\<exists>before after i n err token. ops = before @ Issue_token i n err token # after \<and> sha token = key \<and>
        n < length (ad_checked (admin_run sha before start)) \<and> pass = ad_checked (admin_run sha before start) ! n \<and>
        t = ad_now (admin_run sha before start))"

definition session_ms :: int where "session_ms = 7 * 24 * 3600000"

definition entry_ok ::
  "(string \<Rightarrow> string) \<Rightarrow> admin_deployment \<Rightarrow> admin_op list \<Rightarrow> int \<Rightarrow> string option \<Rightarrow> string \<Rightarrow> int \<times> int \<Rightarrow> bool" where
  "entry_ok sha start ops generation password key e \<longleftrightarrow>
     fst e \<le> generation \<and>
     (\<exists>pass t. opened sha start ops key pass t \<and> snd e = unix_milli t + session_ms \<and>
        (fst e = generation \<longrightarrow> password \<in> {None, Some pass}))"

definition sessions_ok :: "(string \<Rightarrow> string) \<Rightarrow> admin_deployment \<Rightarrow> admin_op list \<Rightarrow> admin_deployment \<Rightarrow> bool" where
  "sessions_ok sha start ops s \<longleftrightarrow>
     (\<forall>pass \<in> set (ad_checked s). pass \<noteq> []) \<and>
     (\<forall>key e. db_sessions (ad_db s) key = Some e \<longrightarrow>
        entry_ok sha start ops (generation_of (ad_db s)) (map_option ac_pass (db_config (ad_db s))) key e)"

lemma entry_ok_rotated:
  "entry_ok sha start ops generation password key e \<Longrightarrow> entry_ok sha start ops (generation + 1) password' key e"
  unfolding entry_ok_def by fastforce

lemma opened_later: "opened sha start ops key pass t \<Longrightarrow> opened sha start (ops @ rest) key pass t"
  unfolding opened_def by (metis append_Cons append_assoc)

lemma admin_run_simps [simp]:
  "admin_run sha [] s = s"
  "admin_run sha (ops @ rest) s = admin_run sha rest (admin_run sha ops s)"
  "admin_run sha [op] s = admin_step sha op s"
  by (simp_all add: admin_run_def)

lemma session_ttl: "time_sub (now + sessionTTL) now = sessionTTL" "sessionTTL div millisecond = session_ms" "\<not> sessionTTL \<le> 0"
  by (simp_all add: time_sub_def saturate64_def min_int64_def max_int64_def sessionTTL_def session_ms_def go_time)

text \<open>What one step does to the shared store.\<close>

lemma issue_db:
  "ad_db (admin_step sha (Issue_token i n err token) s) =
     (if n < length (ad_checked s) \<and> err = None
      then snd (saveSessionScript (ad_now s) (sha token) session_ms (ad_checked s ! n) (ad_db s)) else ad_db s)"
  by (auto simp: GenerateSessionTokenForPassword_def redis_SaveSession_def session_ttl Let_def
      split: option.split sum.split prod.split)

lemma save_db:
  "ad_db (admin_step sha (Save_config i valid err base config) s) =
     (if trim_space (ac_pass config) \<noteq> [] \<and> valid \<and> err = None
      then snd (saveConfigWithSessionRevocationScript (Some (ac_pass base, ac_user base)) config (ad_db s)) else ad_db s)"
  by (auto simp: persistConfig_def Let_def split: option.split sum.split prod.split)

lemma step_checked:
  "ad_checked (admin_step sha op s) = ad_checked s \<or>
   (\<exists>pass. pass \<noteq> [] \<and> ad_checked (admin_step sha op s) = ad_checked s @ [pass])"
  by (cases op) (auto simp: check_login_def trim_space_Nil split: option.split sum.split prod.split if_splits)

lemma config_saved_ok:
  assumes "sessions_ok sha start ops s"
  shows "sessions_ok sha start ops (s\<lparr>ad_db := snd (saveConfigWithSessionRevocationScript guard config (ad_db s))\<rparr>)"
proof -
  define db where "db = snd (saveConfigWithSessionRevocationScript guard config (ad_db s))"
  have "db = ad_db s \<or> db_sessions db = db_sessions (ad_db s) \<and>
      (generation_of db = generation_of (ad_db s) + 1 \<or>
       generation_of db = generation_of (ad_db s) \<and> map_option ac_pass (db_config db) = map_option ac_pass (db_config (ad_db s)))"
    unfolding db_def saveConfigWithSessionRevocationScript_def
    by (auto simp: generation_of_def Let_def split: option.split)
  then show ?thesis unfolding db_def [symmetric]
    by (elim disjE conjE) (use assms entry_ok_rotated [where password = "map_option ac_pass (db_config (ad_db s))"] in
      \<open>auto simp: sessions_ok_def\<close>)
qed

lemma sessions_ok_frame:
  assumes "sessions_ok sha start ops s"
    and "\<forall>pass \<in> set (ad_checked s'). pass \<noteq> []" "db_sessions (ad_db s') \<subseteq>\<^sub>m db_sessions (ad_db s)"
    and "db_config (ad_db s') = db_config (ad_db s)" "generation_of (ad_db s') = generation_of (ad_db s)"
  shows "sessions_ok sha start ops s'"
proof -
  have "db_sessions (ad_db s) key = Some e" if "db_sessions (ad_db s') key = Some e" for key e
    using assms(3) that by (metis domI map_le_def)
  then show ?thesis using assms(1,2) by (simp add: sessions_ok_def assms(4,5))
qed

lemma sessions_ok_later: "sessions_ok sha start ops s \<Longrightarrow> sessions_ok sha start (ops @ rest) s"
  unfolding sessions_ok_def entry_ok_def by (meson opened_later)

lemma issue_ok:
  assumes "sessions_ok sha start ops s" "s = admin_run sha ops start" "n < length (ad_checked s)"
  shows "sessions_ok sha start (ops @ [Issue_token i n err token])
    (s\<lparr>ad_db := snd (saveSessionScript (ad_now s) (sha token) session_ms (ad_checked s ! n) (ad_db s))\<rparr>)"
proof -
  let ?ops = "ops @ [Issue_token i n err token]" and ?pass = "ad_checked s ! n"
  have new: "opened sha start ?ops (sha token) ?pass (ad_now s)"
    unfolding opened_def assms(2) using assms(2,3) by (metis append_Nil2)
  have pass: "?pass \<noteq> []" using assms(1,3) by (simp add: sessions_ok_def)
  note ok = sessions_ok_later [OF assms(1), of "[Issue_token i n err token]"]
  show ?thesis
  proof (cases "\<exists>c. db_config (ad_db s) = Some c \<and> ac_pass c \<noteq> ?pass")
    case True
    then have "s\<lparr>ad_db := snd (saveSessionScript (ad_now s) (sha token) session_ms ?pass (ad_db s))\<rparr> = s"
      using pass by (auto simp: saveSessionScript_def)
    with ok show ?thesis by simp
  next
    case False
    then have "snd (saveSessionScript (ad_now s) (sha token) session_ms ?pass (ad_db s)) =
        (ad_db s)\<lparr>db_sessions := (db_sessions (ad_db s))(sha token \<mapsto> (generation_of (ad_db s), unix_milli (ad_now s) + session_ms))\<rparr>"
      by (auto simp: saveSessionScript_def split: option.split)
    moreover have "generation_of (db\<lparr>db_sessions := x\<rparr>) = generation_of db" for db x by (simp add: generation_of_def)
    moreover have "entry_ok sha start ?ops (generation_of (ad_db s)) (map_option ac_pass (db_config (ad_db s))) (sha token)
        (generation_of (ad_db s), unix_milli (ad_now s) + session_ms)"
      unfolding entry_ok_def using False new
      by (intro conjI exI [of _ ?pass] exI [of _ "ad_now s"]) (auto simp: image_iff split: option.split)
    ultimately show ?thesis using ok by (simp add: sessions_ok_def)
  qed
qed

lemma step_sessions_ok:
  assumes "sessions_ok sha start ops s" "s = admin_run sha ops start"
  shows "sessions_ok sha start (ops @ [op]) (admin_step sha op s)"
proof -
  note ok = sessions_ok_later [OF assms(1), of "[op]"]
  have checked: "\<forall>pass \<in> set (ad_checked (admin_step sha op s)). pass \<noteq> []"
    using step_checked [of sha op s] assms(1) by (auto simp: sessions_ok_def)
  have by_db: ?thesis if "sessions_ok sha start (ops @ [op]) (s\<lparr>ad_db := ad_db (admin_step sha op s)\<rparr>)"
    using sessions_ok_frame [OF that checked] by simp
  show ?thesis
  proof (cases op)
    case (Issue_token i n err token)
    then show ?thesis using issue_ok [OF assms, of n i err token] ok by (intro by_db) (auto simp: issue_db simp del: admin_step.simps)
  next
    case (Save_config i valid err base config)
    then show ?thesis using config_saved_ok [OF ok] ok by (intro by_db) (auto simp: save_db simp del: admin_step.simps)
  next
    case (Store_config config)
    then show ?thesis using config_saved_ok [OF ok] by simp
  next
    case (Log_out i token)
    then show ?thesis using sessions_ok_frame [OF ok checked]
      by (auto simp: InvalidateSessionToken_def redis_DeleteSession_def generation_of_def map_le_def)
  qed (use sessions_ok_frame [OF ok checked] in \<open>auto split: option.split\<close>)
qed

lemma run_sessions_ok:
  "sessions_ok sha (admin_start now config generation files) ops (admin_run sha ops (admin_start now config generation files))"
proof (induction ops rule: rev_induct)
  case Nil
  show ?case by (simp add: sessions_ok_def admin_start_def)
next
  case (snoc op ops)
  then show ?case using step_sessions_ok [OF snoc refl] by simp
qed


definition demo_day :: time where "demo_day = time_unix 1780000000"

definition demo_login :: "admin_op list" where
  "demo_login = [Check_login 0 None ''admin'' ''pw'', Issue_token 0 0 None ''tok'']"

definition demo_admin :: admin_deployment where
  "demo_admin = admin_start demo_day (Some \<lparr>ac_user = ''admin'', ac_pass = ''pw''\<rparr>) None
     [\<lparr>ac_user = [], ac_pass = []\<rparr>, \<lparr>ac_user = [], ac_pass = []\<rparr>]"

lemma demo_accepted: "session_accepted id None ''tok'' 1 (admin_run id demo_login demo_admin)"
  by code_simp


lemma step_stays_out:
  assumes "db_sessions (ad_db s) key = None" "\<And>i n err token. op = Issue_token i n err token \<Longrightarrow> sha token \<noteq> key"
  shows "db_sessions (ad_db (admin_step sha op s)) key = None"
proof (cases op)
  case (Issue_token i n err token)
  then show ?thesis using assms by (simp add: issue_db saveSessionScript_def del: admin_step.simps split: option.split)
next
  case (Save_config i valid err base config)
  then show ?thesis using assms
    by (simp add: save_db saveConfigWithSessionRevocationScript_def Let_def del: admin_step.simps)
qed (use assms in \<open>auto simp: saveConfigWithSessionRevocationScript_def InvalidateSessionToken_def redis_DeleteSession_def Let_def
  split: option.split\<close>)

text \<open>
  After a logout the session is refused by every replica, whatever each of them remembers, until a login is issued a
  token with the same digest.
\<close>

lemma logout_everywhere:
  assumes "trim_space token \<noteq> []" "\<forall>op \<in> set ops. \<forall>i n err other. op = Issue_token i n err other \<longrightarrow> sha other \<noteq> sha token"
  shows "\<not> session_accepted sha err token i (admin_run sha (Log_out j token # ops) s)"
proof -
  have "db_sessions (ad_db (admin_run sha ops s)) (sha token) = None" if "db_sessions (ad_db s) (sha token) = None" for s
    using that assms(2)
  proof (induction ops arbitrary: s)
    case (Cons op ops)
    then have "db_sessions (ad_db (admin_step sha op s)) (sha token) = None"
      by (intro step_stays_out) auto
    with Cons show ?case by (simp add: admin_run_def)
  qed simp
  moreover have "db_sessions (ad_db (admin_step sha (Log_out j token) s)) (sha token) = None"
    using assms(1) by (simp add: InvalidateSessionToken_def redis_DeleteSession_def)
  ultimately have "db_sessions (ad_db (admin_run sha (Log_out j token # ops) s)) (sha token) = None"
    by (simp add: admin_run_def)
  then show ?thesis
    by (auto simp: session_accepted_def ValidateSessionToken_def redis_HasSession_def validateSessionScript_def
        split: option.splits)
qed

text \<open>The guard of the token compares the password only: a login checked before the account was renamed gets a session of
  the generation after the rename.\<close>

lemma renamed_login_issued:
  "session_accepted id None ''tok'' 1 (admin_run id
     [Check_login 0 None ''admin'' ''pw'',
      Save_config 1 True None \<lparr>ac_user = ''admin'', ac_pass = ''pw''\<rparr> \<lparr>ac_user = ''root'', ac_pass = ''pw''\<rparr>,
      Issue_token 0 0 None ''tok''] demo_admin)"
  by code_simp

end
