(* ===== verification/Admin_Access.thy ===== *)
theory Admin_Access
  imports Admin_Sessions Go_Float
begin

text \<open>
  The operator's doors: the caller's address (\<^verbatim>\<open>internal/middleware/trusted_proxy.go\<close>), the budget of wrong passwords
  (\<^verbatim>\<open>ratelimit.go\<close>), the proof that a write comes from the same origin (\<^verbatim>\<open>admin_origin.go\<close>), the session, token and
  password check in front of every operator route (\<^verbatim>\<open>session.go\<close>) and the login handler
  (\<^verbatim>\<open>internal/api/api_config.go\<close>).

  \<^item> A header is a function of its canonical name, empty where it is absent. Parsing of addresses, URLs and media types,
    the digest and the random token are parameters; the journal of operator changes is left out.
  \<^item> The budget is a token bucket in \<open>float64\<close>; one visit runs under the lock of its entry, so it is one step.
\<close>

section \<open>Where a request comes from\<close>

text \<open>\<open>ip_of\<close> is \<open>net.ParseIP\<close>, \<open>ip_string\<close> is \<open>IP.String\<close>, \<open>trusted\<close> is membership in a configured network;
  \<open>remote\<close> is the parsed peer address, \<open>addr\<close> the text it was parsed from.\<close>

fun split_commas :: "string \<Rightarrow> string \<Rightarrow> string list" where
  "split_commas [] word = [rev word]"
| "split_commas (c # s) word = (if c = CHR '','' then rev word # split_commas s [] else split_commas s (c # word))"

fun walk_chain :: "('ip \<Rightarrow> bool) \<Rightarrow> 'ip list \<Rightarrow> 'ip \<Rightarrow> 'ip" where
  "walk_chain trusted [] current = current"
| "walk_chain trusted (hop # hops) current = (if trusted current then walk_chain trusted hops hop else current)"

definition forwarded_chain :: "(string \<Rightarrow> 'ip option) \<Rightarrow> string \<Rightarrow> 'ip list" where
  "forwarded_chain ip_of header = List.map_filter (\<lambda>raw. ip_of (trim_space raw)) (split_commas header [])"

definition forwardedClientIP :: "(string \<Rightarrow> 'ip option) \<Rightarrow> ('ip \<Rightarrow> bool) \<Rightarrow> 'ip \<Rightarrow> string \<Rightarrow> 'ip" where
  "forwardedClientIP ip_of trusted remote header = walk_chain trusted (rev (forwarded_chain ip_of header)) remote"

definition cloudflareClientIP :: "(string \<Rightarrow> 'ip option) \<Rightarrow> 'ip option \<Rightarrow> string \<Rightarrow> 'ip option" where
  "cloudflareClientIP ip_of remote value =
     (let trimmed = trim_space value in
      if remote = None \<or> trimmed = [] \<or> contains trimmed '','' then None else ip_of trimmed)"

type_synonym header = "string \<Rightarrow> string"

definition forwarding_names :: "string list" where
  "forwarding_names =
     [''Forwarded'', ''X-Forwarded-For'', ''X-Forwarded-Host'', ''X-Forwarded-Proto'', ''X-Real-Ip'', ''Cf-Connecting-Ip'']"

definition clearForwardingHeaders :: "header \<Rightarrow> header" where
  "clearForwardingHeaders header = fold (\<lambda>name h. h(name := [])) forwarding_names header"

definition sanitizeForwardedSingleValue :: "string \<Rightarrow> (string \<Rightarrow> bool) option \<Rightarrow> header \<Rightarrow> header" where
  "sanitizeForwardedSingleValue name valid header =
     (let value = trim_space (last (split_commas (header name) []))
      in if value = [] \<or> (case valid of Some ok \<Rightarrow> \<not> ok value | None \<Rightarrow> False) then header(name := []) else header(name := value))"

definition TrustedProxy ::
  "(string \<Rightarrow> 'ip option) \<Rightarrow> ('ip \<Rightarrow> string) \<Rightarrow> ('ip \<Rightarrow> bool) \<Rightarrow> 'ip option \<Rightarrow> string \<Rightarrow> header \<Rightarrow> string \<times> header" where
  "TrustedProxy ip_of ip_string trusted remote addr header =
     (case remote of
        None \<Rightarrow> (trim_space addr, clearForwardingHeaders header)
      | Some peer \<Rightarrow>
          if \<not> trusted peer then (ip_string peer, clearForwardingHeaders header)
          else
            let client = (case cloudflareClientIP ip_of remote (header ''Cf-Connecting-Ip'') of
                    Some ip \<Rightarrow> ip
                  | None \<Rightarrow> forwardedClientIP ip_of trusted peer (header ''X-Forwarded-For''));
                h1 = header(''Forwarded'' := [], ''X-Forwarded-For'' := ip_string client);
                h2 = sanitizeForwardedSingleValue ''X-Forwarded-Host'' None h1;
                h3 = sanitizeForwardedSingleValue ''X-Forwarded-Proto'' (Some (\<lambda>v. equal_fold v ''http'' \<or> equal_fold v ''https'')) h2
            in (ip_string client, h3(''X-Real-Ip'' := ip_string client)))"

section \<open>The wrong passwords of a source\<close>

record limiterEntry =
  le_tokens :: rat
  le_lastVisit :: time

record RateLimiter =
  rl_entries :: "string \<rightharpoonup> limiterEntry"
  rl_maxAttempts :: int
  rl_window :: duration

definition refill :: "RateLimiter \<Rightarrow> time \<Rightarrow> limiterEntry \<Rightarrow> rat" where
  "refill rl now entry =
     min (float64 (of_int (rl_maxAttempts rl)))
       (float64 (le_tokens entry +
          float64 (float64 (seconds_of (time_sub now (le_lastVisit entry)) * float64 (of_int (rl_maxAttempts rl))) / seconds_of (rl_window rl))))"

text \<open>\<open>created\<close> is the clock at the first visit of the source, \<open>now\<close> under its lock; \<open>verify\<close> is what the check of the
  password answers, when it is asked.\<close>

definition CheckCredentialsWithError ::
  "time \<Rightarrow> time \<Rightarrow> string \<Rightarrow> string + bool \<Rightarrow> RateLimiter \<Rightarrow> (bool \<times> bool \<times> string option) \<times> RateLimiter" where
  "CheckCredentialsWithError created now ip verify rl =
     (let entry = (case rl_entries rl ip of
          Some e \<Rightarrow> e | None \<Rightarrow> \<lparr>le_tokens = float64 (of_int (rl_maxAttempts rl)), le_lastVisit = created\<rparr>);
          tokens = refill rl now entry;
          store = (\<lambda>t. rl\<lparr>rl_entries := (rl_entries rl)(ip \<mapsto> \<lparr>le_tokens = t, le_lastVisit = now\<rparr>)\<rparr>)
      in if tokens < 1 then ((False, False, None), store tokens)
         else case verify of
                Inl err \<Rightarrow> ((False, True, Some err), store tokens)
              | Inr valid \<Rightarrow> ((valid, True, None), store (if valid then tokens else float64 (tokens - 1))))"

definition limiter_cleanup :: "time \<Rightarrow> RateLimiter \<Rightarrow> RateLimiter" where
  "limiter_cleanup now rl =
     rl\<lparr>rl_entries := (\<lambda>ip. case rl_entries rl ip of
          Some e \<Rightarrow> if time_sub now (le_lastVisit e) > rl_window rl * 2 then None else Some e | None \<Rightarrow> None)\<rparr>"

section \<open>The same origin\<close>

record origin_url =
  ou_Scheme :: string
  ou_Host :: string
  ou_HasUser :: bool
  ou_Path :: string
  ou_RawQuery :: string
  ou_Fragment :: string

record admin_request =
  ar_Method :: string
  ar_TLS :: bool
  ar_Host :: string
  ar_Header :: header
  ar_HasBody :: bool
  ar_ContentLength :: int
  ar_Multipart :: bool
  ar_Cookie :: "string option"
  ar_BasicPass :: "string option"
  ar_ClientIP :: string

text \<open>\<open>parse\<close> is \<open>url.Parse\<close>, \<open>media\<close> is \<open>mime.ParseMediaType\<close>; the answer is the status of the refusal.\<close>

definition request_scheme :: "admin_request \<Rightarrow> string" where
  "request_scheme r = (if ar_TLS r \<or> equal_fold (ar_Header r ''X-Forwarded-Proto'') ''https'' then ''https'' else ''http'')"

definition CheckAdminCookieWrite ::
  "(string \<Rightarrow> origin_url option) \<Rightarrow> (string \<Rightarrow> string option) \<Rightarrow> admin_request \<Rightarrow> int option" where
  "CheckAdminCookieWrite parse media r =
     (if ar_Method r \<in> {''GET'', ''HEAD'', ''OPTIONS''} then None
      else if (case parse (ar_Header r ''Origin'') of
                None \<Rightarrow> True
              | Some origin \<Rightarrow>
                  \<not> equal_fold (ou_Scheme origin) (request_scheme r) \<or> \<not> equal_fold (ou_Host origin) (ar_Host r) \<or>
                  ou_HasUser origin \<or> ou_Path origin \<noteq> [] \<or> ou_RawQuery origin \<noteq> [] \<or> ou_Fragment origin \<noteq> []) \<or>
              equal_fold (ar_Header r ''Sec-Fetch-Site'') ''cross-site''
      then Some 403
      else if ar_HasBody r \<and> (ar_ContentLength r \<noteq> 0 \<or> ar_Header r ''Content-Type'' \<noteq> [])
      then (case media (ar_Header r ''Content-Type'') of
              None \<Rightarrow> Some 415
            | Some m \<Rightarrow>
                if equal_fold m ''application/json'' \<or> ar_Multipart r \<and> equal_fold m ''multipart/form-data'' then None
                else Some 415)
      else None)"

section \<open>The check in front of the operator's routes\<close>

definition matches_header :: "admin_request \<Rightarrow> string \<Rightarrow> bool" where
  "matches_header r secret \<longleftrightarrow>
     trim_space secret \<noteq> [] \<and>
     (ar_Header r ''Authorization'' = ''Bearer '' @ secret \<or> ar_Header r ''Authorization'' = secret \<or>
      ar_Header r ''X-Admin-Token'' = secret)"

definition matches_basic :: "admin_request \<Rightarrow> string \<Rightarrow> bool" where
  "matches_basic r pass \<longleftrightarrow> (case ar_BasicPass r of Some p \<Rightarrow> trim_space pass \<noteq> [] \<and> p = pass | None \<Rightarrow> False)"

text \<open>What the process brings to a check: its clock, the errors of its two calls to the store, the configured secrets.\<close>

record admin_env =
  ae_created :: time
  ae_now :: time
  ae_session_err :: "string option"
  ae_credential_err :: "string option"
  ae_adminPass :: string
  ae_adminToken :: string

record admin_gate =
  ag_limiter :: RateLimiter
  ag_backend :: "session_db option"
  ag_replica :: replica

definition cookie_session :: "(string \<Rightarrow> string) \<Rightarrow> admin_env \<Rightarrow> admin_request \<Rightarrow> admin_gate \<Rightarrow> bool \<times> admin_gate" where
  "cookie_session sha env r gate =
     (case ar_Cookie r of
        None \<Rightarrow> (False, gate)
      | Some cookie \<Rightarrow>
          (case ValidateSessionToken sha (ae_session_err env) (ae_now env) cookie (ag_backend gate) (ag_replica gate) of
             (valid, rp) \<Rightarrow> (valid, gate\<lparr>ag_replica := rp\<rparr>)))"

definition verify_password :: "admin_env \<Rightarrow> admin_request \<Rightarrow> admin_gate \<Rightarrow> string + bool" where
  "verify_password env r gate =
     (case CurrentAdminCredentials (ae_credential_err env) (ag_backend gate) ([], ae_adminPass env) of
        Inl err \<Rightarrow> Inl err
      | Inr (_, pass) \<Rightarrow> Inr (matches_header r pass \<or> matches_basic r pass))"

definition SessionAuthDynamic ::
  "(string \<Rightarrow> string) \<Rightarrow> (string \<Rightarrow> origin_url option) \<Rightarrow> (string \<Rightarrow> string option) \<Rightarrow> admin_env \<Rightarrow> admin_request \<Rightarrow>
   admin_gate \<Rightarrow> (int + unit) \<times> admin_gate" where
  "SessionAuthDynamic sha parse media env r gate0 =
     (case cookie_session sha env r gate0 of
        (True, gate) \<Rightarrow>
          (case CheckAdminCookieWrite parse media r of Some status \<Rightarrow> (Inl status, gate) | None \<Rightarrow> (Inr (), gate))
      | (False, gate) \<Rightarrow>
          if matches_header r (ae_adminToken env) then (Inr (), gate)
          else if ar_Header r ''Authorization'' = [] \<and> ar_Header r ''X-Admin-Token'' = [] then (Inl 401, gate)
          else case CheckCredentialsWithError (ae_created env) (ae_now env) (ar_ClientIP r) (verify_password env r gate)
                      (ag_limiter gate) of
                 ((valid, allowed, err), rl) \<Rightarrow>
                   (if err \<noteq> None then Inl 503 else if \<not> allowed then Inl 429 else if valid then Inr () else Inl 401,
                    gate\<lparr>ag_limiter := rl\<rparr>))"

text \<open>\<open>decoded\<close> is the body of the login, or the status the bounded decoder answered; \<open>room\<close> is a free place among the 32
  concurrent logins; \<open>token\<close> is the random token.\<close>

definition HandleLogin ::
  "(string \<Rightarrow> string) \<Rightarrow> admin_env \<Rightarrow> bool \<Rightarrow> int + (string \<times> string) \<Rightarrow> string \<Rightarrow> admin_request \<Rightarrow> admin_gate \<Rightarrow>
   (int + string) \<times> admin_gate" where
  "HandleLogin sha env room decoded token r gate =
     (if ar_Method r \<noteq> ''POST'' then (Inl 405, gate)
      else if \<not> room then (Inl 503, gate)
      else
        let well_formed = (case decoded of Inl _ \<Rightarrow> False | Inr (user, pass) \<Rightarrow> length user \<le> 256 \<and> length pass \<le> 4096);
            current = CurrentAdminCredentials (ae_credential_err env) (ag_backend gate)
              (ac_user (rp_config (ag_replica gate)), ac_pass (rp_config (ag_replica gate)));
            verify = (case decoded of
                Inl _ \<Rightarrow> Inr False
              | Inr (user, pass) \<Rightarrow>
                  if \<not> well_formed then Inr False
                  else case current of
                         Inl err \<Rightarrow> Inl err
                       | Inr (adminUser, adminPass) \<Rightarrow> Inr (trim_space adminPass \<noteq> [] \<and> user = adminUser \<and> pass = adminPass))
        in case CheckCredentialsWithError (ae_created env) (ae_now env) (ar_ClientIP r) verify (ag_limiter gate) of
             ((valid, allowed, err), rl) \<Rightarrow>
               let gate' = gate\<lparr>ag_limiter := rl\<rparr> in
               if \<not> allowed then (Inl 429, gate')
               else if \<not> well_formed then (Inl (case decoded of Inl status \<Rightarrow> status | Inr _ \<Rightarrow> 400), gate')
               else if err \<noteq> None then (Inl 503, gate')
               else if \<not> valid then (Inl 401, gate')
               else (case current of
                       Inl _ \<Rightarrow> (Inl 503, gate')
                     | Inr (_, adminPass) \<Rightarrow>
                         (case GenerateSessionTokenForPassword sha (ae_session_err env) (ae_now env) token adminPass
                                 (ag_backend gate') (ag_replica gate') of
                            (Inl _, backend, rp) \<Rightarrow> (Inl 500, gate'\<lparr>ag_backend := backend, ag_replica := rp\<rparr>)
                          | (Inr t, backend, rp) \<Rightarrow> (Inr t, gate'\<lparr>ag_backend := backend, ag_replica := rp\<rparr>))))"

definition HandleLogout ::
  "(string \<Rightarrow> string) \<Rightarrow> (string \<Rightarrow> origin_url option) \<Rightarrow> (string \<Rightarrow> string option) \<Rightarrow> admin_request \<Rightarrow> admin_gate \<Rightarrow>
   (int + unit) \<times> admin_gate" where
  "HandleLogout sha parse media r gate =
     (if ar_Method r \<noteq> ''POST'' then (Inl 405, gate)
      else case ar_Cookie r of
             None \<Rightarrow> (Inr (), gate)
           | Some cookie \<Rightarrow>
               (case CheckAdminCookieWrite parse media r of
                  Some status \<Rightarrow> (Inl status, gate)
                | None \<Rightarrow>
                    (case InvalidateSessionToken sha cookie (ag_backend gate) (ag_replica gate) of
                       (backend, rp) \<Rightarrow> (Inr (), gate\<lparr>ag_backend := backend, ag_replica := rp\<rparr>))))"


section \<open>A caller outside the trusted networks\<close>

lemma clear_forwarding: "clearForwardingHeaders header name = (if name \<in> set forwarding_names then [] else header name)"
  by (simp add: clearForwardingHeaders_def forwarding_names_def)

text \<open>A peer outside the configured networks names nobody but itself: whatever it writes into the forwarding headers, the
  handlers see the same client address and the same headers.
\<close>

lemma untrusted_peer_names_itself:
  assumes "\<forall>ip. remote = Some ip \<longrightarrow> \<not> trusted ip" "\<forall>name. name \<notin> set forwarding_names \<longrightarrow> header name = header' name"
  shows "TrustedProxy ip_of ip_string trusted remote addr header = TrustedProxy ip_of ip_string trusted remote addr header'"
proof -
  have "clearForwardingHeaders header = clearForwardingHeaders header'" using assms(2) by (auto simp: clear_forwarding)
  then show ?thesis using assms(1) by (simp add: TrustedProxy_def split: option.split)
qed

text \<open>A chain of one spoofed header, in front of a peer that is trusted only if it is the loopback.\<close>

definition spoofed :: header where
  "spoofed = (\<lambda>_. [])(''X-Forwarded-For'' := ''10.0.0.1'', ''Cf-Connecting-Ip'' := ''127.0.0.1'')"

lemma untrusted_peer_names_itself_witness:
  "TrustedProxy Some id (\<lambda>ip. ip = ''127.0.0.1'') (Some ''9.9.9.9'') [] spoofed =
   TrustedProxy Some id (\<lambda>ip. ip = ''127.0.0.1'') (Some ''9.9.9.9'') [] (\<lambda>_. [])"
  by (rule untrusted_peer_names_itself) (simp_all add: spoofed_def forwarding_names_def)

text \<open>Behind trusted proxies the walk stops at the first address from the right that is not one of them.\<close>

lemma walk_chain_split:
  assumes "\<not> trusted (walk_chain trusted hops peer)"
  shows "\<exists>near far. peer # hops = near @ walk_chain trusted hops peer # far \<and> list_all trusted near"
  using assms
proof (induction hops arbitrary: peer)
  case (Cons hop hops)
  show ?case
  proof (cases "trusted peer")
    case True
    with Cons.prems have c: "walk_chain trusted (hop # hops) peer = walk_chain trusted hops hop" "\<not> trusted (walk_chain trusted hops hop)"
      by auto
    then obtain near far where "hop # hops = near @ walk_chain trusted hops hop # far" "list_all trusted near"
      using Cons.IH by blast
    with True c(1) show ?thesis by (intro exI [of _ "peer # near"] exI [of _ far]) simp
  next
    case False
    then have "peer # hop # hops = [] @ walk_chain trusted (hop # hops) peer # hop # hops \<and> list_all trusted []" by simp
    then show ?thesis by blast
  qed
qed (auto intro: exI [of _ "[]"])

section \<open>Who passes the operator's check\<close>

lemma limiter_answers:
  assumes "CheckCredentialsWithError created now ip verify rl = ((valid, allowed, err), rl')"
  shows "valid \<Longrightarrow> allowed \<and> verify = Inr True" "err = Some e \<Longrightarrow> verify = Inl e"
  using assms by (auto simp: CheckCredentialsWithError_def Let_def split: if_splits sum.splits)



definition demo_operator :: admin_request where
  "demo_operator = \<lparr>ar_Method = ''POST'', ar_TLS = False, ar_Host = ''gw'', ar_Header = (\<lambda>_. [])(''Authorization'' := ''Bearer pw''),
     ar_HasBody = False, ar_ContentLength = 0, ar_Multipart = False, ar_Cookie = None, ar_BasicPass = None, ar_ClientIP = ''9.9.9.9''\<rparr>"

definition demo_env :: admin_env where
  "demo_env = \<lparr>ae_created = demo_day, ae_now = demo_day, ae_session_err = None, ae_credential_err = None,
     ae_adminPass = [], ae_adminToken = []\<rparr>"

definition demo_gate :: admin_gate where
  "demo_gate = \<lparr>ag_limiter = \<lparr>rl_entries = Map.empty, rl_maxAttempts = 5, rl_window = 900 * second\<rparr>,
     ag_backend = Some (ad_db demo_admin), ag_replica = ad_replicas demo_admin ! 0\<rparr>"

lemma first_visit_allowed:
  assumes "rl_entries rl ip = None" "1 \<le> rl_maxAttempts rl" "rl_maxAttempts rl < 2 ^ 53"
  shows "fst (CheckCredentialsWithError now now ip (Inr valid) rl) = (valid, True, None)"
proof -
  have "\<bar>rl_maxAttempts rl\<bar> < 2 ^ 53" using assms(2,3) by simp
  then have m: "float64 (of_int (rl_maxAttempts rl)) = of_int (rl_maxAttempts rl)" by (rule float64_int)
  have "time_sub now now = 0" by (simp add: time_sub_def saturate64_def min_int64_def max_int64_def)
  then have "refill rl now \<lparr>le_tokens = of_int (rl_maxAttempts rl), le_lastVisit = now\<rparr> = of_int (rl_maxAttempts rl)"
    by (simp add: refill_def m seconds_of_def)
  then show ?thesis using assms(1,2) by (simp add: CheckCredentialsWithError_def m Let_def)
qed

lemma demo_operator_passes:
  "\<exists>gate'. SessionAuthDynamic id (\<lambda>_. None) (\<lambda>_. None) demo_env demo_operator demo_gate = (Inr (), gate')"
proof -
  have v: "verify_password demo_env demo_operator demo_gate = Inr True" by code_simp
  have c: "cookie_session id demo_env demo_operator demo_gate = (False, demo_gate)"
    by (simp add: cookie_session_def demo_operator_def)
  have t: "ae_adminToken demo_env = []" "ar_Header demo_operator ''Authorization'' \<noteq> []" "ae_created demo_env = ae_now demo_env"
    by (simp_all add: demo_env_def demo_operator_def)
  have blank: "\<not> matches_header demo_operator []" by (simp add: matches_header_def trim_space_Nil)
  obtain rl where "CheckCredentialsWithError (ae_now demo_env) (ae_now demo_env) (ar_ClientIP demo_operator) (Inr True)
      (ag_limiter demo_gate) = ((True, True, None), rl)"
    using first_visit_allowed [of "ag_limiter demo_gate" "ar_ClientIP demo_operator" "ae_now demo_env" True]
    by (simp add: demo_gate_def) (metis prod.collapse)
  then show ?thesis by (simp add: SessionAuthDynamic_def c v t blank)
qed



section \<open>How many passwords a source may guess\<close>

datatype limiter_op = Visit string time time "string + bool" | Sweep time

fun limiter_step :: "limiter_op \<Rightarrow> RateLimiter \<Rightarrow> RateLimiter" where
  "limiter_step (Visit ip created now verify) rl = snd (CheckCredentialsWithError created now ip verify rl)"
| "limiter_step (Sweep now) rl = limiter_cleanup now rl"

text \<open>A guess is a password that was checked and wrong.\<close>

fun guess_of :: "string \<Rightarrow> limiter_op \<Rightarrow> RateLimiter \<Rightarrow> bool" where
  "guess_of source (Visit ip created now verify) rl \<longleftrightarrow>
     ip = source \<and> verify = Inr False \<and> fst (CheckCredentialsWithError created now ip verify rl) = (False, True, None)"
| "guess_of source (Sweep now) rl \<longleftrightarrow> False"

fun guesses :: "string \<Rightarrow> limiter_op list \<Rightarrow> RateLimiter \<Rightarrow> nat" where
  "guesses source [] rl = 0"
| "guesses source (op # ops) rl = of_bool (guess_of source op rl) + guesses source ops (limiter_step op rl)"

fun visits_of :: "string \<Rightarrow> limiter_op list \<Rightarrow> nat" where
  "visits_of source [] = 0"
| "visits_of source (Visit ip _ _ _ # ops) = of_bool (ip = source) + visits_of source ops"
| "visits_of source (Sweep _ # ops) = visits_of source ops"

fun in_order :: "time \<Rightarrow> time \<Rightarrow> limiter_op list \<Rightarrow> bool" where
  "in_order start T [] \<longleftrightarrow> start \<le> T"
| "in_order start T (Visit _ created now _ # ops) \<longleftrightarrow> start \<le> now \<and> created \<le> now \<and> in_order now T ops"
| "in_order start T (Sweep now # ops) \<longleftrightarrow> start \<le> now \<and> in_order now T ops"

text \<open>A limiter of \<open>m\<close> attempts in a window of \<open>n\<close> seconds.\<close>

definition limiter_of :: "int \<Rightarrow> int \<Rightarrow> RateLimiter \<Rightarrow> bool" where
  "limiter_of m n rl \<longleftrightarrow> rl_maxAttempts rl = m \<and> rl_window rl = n * second \<and>
     (\<forall>ip e. rl_entries rl ip = Some e \<longrightarrow> 0 \<le> le_tokens e \<and> le_tokens e \<le> of_int m)"

definition earned :: "int \<Rightarrow> int \<Rightarrow> duration \<Rightarrow> rat" where
  "earned m n d = of_int d / 10 ^ 9 * of_int m / of_int n"

lemma refill_bounds:
  assumes "rl_maxAttempts rl = m" "rl_window rl = n * second" "1 \<le> m" "m < 2 ^ 53" "1 \<le> n" "n < 2 ^ 53"
    and "0 \<le> le_tokens e" "le_tokens e \<le> of_int m" "le_lastVisit e \<le> now"
  shows "0 \<le> refill rl now e" "refill rl now e \<le> of_int m"
    "refill rl now e \<le> le_tokens e + earned m n (now - le_lastVisit e) + 7 * of_int m / 2 ^ 53"
proof -
  let ?e = "1 + 1 / 2 ^ 53 :: rat"
  define d where "d = time_sub now (le_lastVisit e)"
  define r where "r = earned m n d"
  have d: "0 \<le> d" "d \<le> now - le_lastVisit e"
    using assms(9) by (auto simp: d_def time_sub_def saturate64_def min_int64_def max_int64_def)
  have m: "float64 (of_int m) = of_int m" using assms(3,4) by (intro float64_int) simp
  have w: "seconds_of (rl_window rl) = of_int n" unfolding assms(2) using assms(5,6) by (intro seconds_of_whole) simp_all
  define p where "p = float64 (seconds_of d * of_int m)"
  define q where "q = float64 (p / of_int n)"
  have rf: "refill rl now e = min (of_int m) (float64 (le_tokens e + q))"
    by (simp add: refill_def assms(1) m w p_def q_def d_def)
  have p0: "0 \<le> p" unfolding p_def using seconds_of_upper(2) [OF d(1)] assms(3) by (intro float64_nonneg) simp
  have q0: "0 \<le> q" unfolding q_def using p0 assms(5) by (intro float64_nonneg) simp
  show "0 \<le> refill rl now e" unfolding rf using q0 assms(3,7) float64_nonneg [of "le_tokens e + q"] by simp
  show "refill rl now e \<le> of_int m" unfolding rf by simp
  have r0: "0 \<le> r" using d(1) assms(3,5) by (simp add: r_def earned_def)
  have "p \<le> seconds_of d * of_int m * ?e" unfolding p_def using seconds_of_upper(2) [OF d(1)] assms(3)
    by (intro float64_upper) simp
  also have "\<dots> \<le> of_int d / 10 ^ 9 * ?e ^ 2 * of_int m * ?e"
    using seconds_of_upper(1) [OF d(1)] assms(3) by (intro mult_right_mono) simp_all
  finally have p1: "p \<le> of_int d / 10 ^ 9 * ?e ^ 2 * of_int m * ?e" .
  have "q \<le> p / of_int n * ?e" unfolding q_def using p0 assms(5) by (intro float64_upper) simp
  also have "\<dots> \<le> of_int d / 10 ^ 9 * ?e ^ 2 * of_int m * ?e / of_int n * ?e"
    using p1 assms(5) by (intro mult_right_mono divide_right_mono) simp_all
  also have "\<dots> = r * ?e ^ 4" by (simp add: r_def earned_def power2_eq_square power4_eq_xxxx mult_ac)
  finally have q1: "q \<le> r * ?e ^ 4" .
  have s: "float64 (le_tokens e + q) \<le> (le_tokens e + r * ?e ^ 4) * ?e"
    using q0 q1 assms(7) by (intro order_trans [OF float64_upper] mult_right_mono) simp_all
  have "refill rl now e \<le> le_tokens e + r + 7 * of_int m / 2 ^ 53"
  proof (cases "r \<le> of_int m")
    case True
    have "(le_tokens e + r * ?e ^ 4) * ?e = le_tokens e + r + le_tokens e / 2 ^ 53 + r * (?e ^ 5 - 1)"
      by (simp add: algebra_simps power_numeral_reduce)
    also have "r * (?e ^ 5 - 1) \<le> r * (6 / 2 ^ 53)" using r0 by (intro mult_left_mono) (simp_all add: power_numeral_reduce)
    also have "r * (6 / 2 ^ 53) \<le> of_int m * (6 / 2 ^ 53)" using True by (intro mult_right_mono) simp_all
    finally show ?thesis using s assms(8) unfolding rf by (simp add: field_simps)
  next
    case False
    have "0 \<le> 7 * rat_of_int m / 2 ^ 53" using assms(3) by simp
    with False show ?thesis unfolding rf using assms(7) by linarith
  qed
  moreover have "r \<le> earned m n (now - le_lastVisit e)"
    unfolding r_def earned_def using d(2) assms(3,5) by (intro divide_right_mono mult_right_mono) simp_all
  ultimately show "refill rl now e \<le> le_tokens e + earned m n (now - le_lastVisit e) + 7 * of_int m / 2 ^ 53" by linarith
qed


text \<open>What the source may still guess: its tokens, what it earns until \<open>T\<close>, and the rounding of each of its visits.\<close>

definition may_guess :: "int \<Rightarrow> int \<Rightarrow> RateLimiter \<Rightarrow> string \<Rightarrow> time \<Rightarrow> time \<Rightarrow> rat" where
  "may_guess m n rl source now T =
     (case rl_entries rl source of
        None \<Rightarrow> of_int m + earned m n (T - now)
      | Some e \<Rightarrow> le_tokens e + earned m n (T - le_lastVisit e))"

definition rounding :: "int \<Rightarrow> rat" where "rounding m = of_int m / 2 ^ 50"

definition visited_by :: "RateLimiter \<Rightarrow> time \<Rightarrow> bool" where
  "visited_by rl now \<longleftrightarrow> (\<forall>ip e. rl_entries rl ip = Some e \<longrightarrow> le_lastVisit e \<le> now)"

lemma earned_mono: "1 \<le> m \<Longrightarrow> 1 \<le> n \<Longrightarrow> d \<le> d' \<Longrightarrow> earned m n d \<le> earned m n d'"
  unfolding earned_def by (intro divide_right_mono mult_right_mono) simp_all

lemma earned_add: "earned m n (a + b) = earned m n a + earned m n b"
  by (simp add: earned_def add_divide_distrib distrib_right)

lemma visit_entries:
  "\<exists>t. rl_entries (snd (CheckCredentialsWithError created now ip verify rl)) = (rl_entries rl)(ip \<mapsto> \<lparr>le_tokens = t, le_lastVisit = now\<rparr>)"
  "rl_maxAttempts (snd (CheckCredentialsWithError created now ip verify rl)) = rl_maxAttempts rl"
  "rl_window (snd (CheckCredentialsWithError created now ip verify rl)) = rl_window rl"
  by (auto simp: CheckCredentialsWithError_def Let_def split: sum.split option.split)

lemma visit_own:
  assumes "limiter_of m n rl" "visited_by rl start" "start \<le> now" "created \<le> now" "1 \<le> m" "m < 2 ^ 53" "1 \<le> n" "n < 2 ^ 53"
  shows "\<exists>t. rl_entries (snd (CheckCredentialsWithError created now ip verify rl)) ip = Some \<lparr>le_tokens = t, le_lastVisit = now\<rparr> \<and>
    0 \<le> t \<and> t \<le> of_int m \<and>
    of_bool (guess_of ip (Visit ip created now verify) rl) + t + earned m n (T - now) \<le> may_guess m n rl ip start T + rounding m"
proof -
  define e where "e = (case rl_entries rl ip of Some e \<Rightarrow> e | None \<Rightarrow> \<lparr>le_tokens = float64 (of_int (rl_maxAttempts rl)), le_lastVisit = created\<rparr>)"
  have fm: "float64 (of_int m) = of_int m" using assms(5,6) by (intro float64_int) simp
  have e: "0 \<le> le_tokens e" "le_tokens e \<le> of_int m" "le_lastVisit e \<le> now"
    using assms(1-5) by (auto simp: e_def limiter_of_def visited_by_def fm split: option.split) (meson order_trans)
  define t where "t = refill rl now e"
  have lim: "rl_maxAttempts rl = m" "rl_window rl = n * second" using assms(1) by (simp_all add: limiter_of_def)
  have t: "0 \<le> t" "t \<le> of_int m" "t \<le> le_tokens e + earned m n (now - le_lastVisit e) + 7 * of_int m / 2 ^ 53"
    using refill_bounds [OF lim assms(5-8) e] by (simp_all add: t_def)
  have bound: "t + earned m n (T - now) \<le> may_guess m n rl ip start T + 7 * of_int m / 2 ^ 53"
  proof (cases "rl_entries rl ip")
    case None
    have "0 \<le> 7 * rat_of_int m / 2 ^ 53" using assms(5) by simp
    with None t(2) earned_mono [OF assms(5,7), of "T - now" "T - start"] assms(3) show ?thesis by (simp add: may_guess_def)
  next
    case (Some e')
    then have "e' = e" by (simp add: e_def)
    moreover have "earned m n (T - le_lastVisit e) = earned m n (now - le_lastVisit e) + earned m n (T - now)"
      by (simp flip: earned_add)
    ultimately show ?thesis using t(3) Some by (simp add: may_guess_def)
  qed
  have spent: "0 \<le> float64 (t - 1)" "float64 (t - 1) \<le> of_int m" "float64 (t - 1) + 1 \<le> t + of_int m / 2 ^ 53" if "1 \<le> t"
  proof -
    show "0 \<le> float64 (t - 1)" using that by (intro float64_nonneg) simp
    have "float64 (t - 1) \<le> float64 (of_int m)" using t(2) by (intro float64_mono) simp
    then show "float64 (t - 1) \<le> of_int m" by (simp add: fm)
    have "float64 (t - 1) \<le> (t - 1) * (1 + 1 / 2 ^ 53)" using that by (intro float64_upper) simp
    then show "float64 (t - 1) + 1 \<le> t + of_int m / 2 ^ 53" using t(2) by (simp add: field_simps)
  qed
  have r: "rounding m = 7 * of_int m / 2 ^ 53 + of_int m / 2 ^ 53" "0 \<le> rat_of_int m / 2 ^ 53" using assms(5) by (simp_all add: rounding_def)
  have check: "CheckCredentialsWithError created now ip verify rl =
      (let store = (\<lambda>t. rl\<lparr>rl_entries := (rl_entries rl)(ip \<mapsto> \<lparr>le_tokens = t, le_lastVisit = now\<rparr>)\<rparr>)
       in if t < 1 then ((False, False, None), store t)
          else case verify of Inl err \<Rightarrow> ((False, True, Some err), store t)
             | Inr valid \<Rightarrow> ((valid, True, None), store (if valid then t else float64 (t - 1))))"
    unfolding CheckCredentialsWithError_def by (simp only: e_def [symmetric] t_def [symmetric] Let_def)
  let ?own = "\<lambda>t'. rl_entries (snd (CheckCredentialsWithError created now ip verify rl)) ip = Some \<lparr>le_tokens = t', le_lastVisit = now\<rparr>"
  show ?thesis
  proof (cases "\<not> t < 1 \<and> verify = Inr False")
    case True
    then have "?own (float64 (t - 1))" unfolding check Let_def by simp
    moreover have "of_bool (guess_of ip (Visit ip created now verify) rl) \<le> (1 :: rat)" by simp
    moreover have "1 \<le> t" using True by simp
    ultimately show ?thesis using spent bound unfolding r by (intro exI [of _ "float64 (t - 1)"]) linarith
  next
    case False
    then have "?own t" unfolding check Let_def by (auto split: sum.split)
    moreover have "\<not> guess_of ip (Visit ip created now verify) rl"
      unfolding guess_of.simps check Let_def using False by auto
    then have "of_bool (guess_of ip (Visit ip created now verify) rl) = (0 :: rat)" by (simp del: guess_of.simps)
    ultimately show ?thesis using t bound r(2) unfolding r(1) by (intro exI [of _ t]) linarith
  qed
qed

lemma sweep_keeps:
  assumes "1 \<le> m" "1 \<le> n" "limiter_of m n rl" "start \<le> now"
  shows "may_guess m n (limiter_cleanup now rl) source now T \<le> may_guess m n rl source start T"
proof (cases "rl_entries rl source")
  case None
  then show ?thesis using earned_mono [OF assms(1,2), of "T - now" "T - start"] assms(4)
    by (simp add: may_guess_def limiter_cleanup_def)
next
  case (Some e)
  show ?thesis
  proof (cases "time_sub now (le_lastVisit e) > rl_window rl * 2")
    case True
    have "time_sub now (le_lastVisit e) \<le> now - le_lastVisit e \<or> now - le_lastVisit e < 0"
      by (auto simp: time_sub_def saturate64_def min_int64_def max_int64_def)
    moreover have "0 \<le> rl_window rl * 2" using assms(2,3) by (simp add: limiter_of_def second_def)
    moreover have "time_sub now (le_lastVisit e) \<le> 0" if "now - le_lastVisit e < 0"
      using that by (simp add: time_sub_def saturate64_def min_int64_def max_int64_def)
    ultimately have "2 * (n * second) \<le> now - le_lastVisit e" using True assms(3) by (auto simp: limiter_of_def)
    then have "earned m n (2 * (n * second)) \<le> earned m n (now - le_lastVisit e)" by (intro earned_mono [OF assms(1,2)])
    moreover have "earned m n (2 * (n * second)) = 2 * of_int m" using assms(2) by (simp add: earned_def second_def)
    moreover have "earned m n (T - le_lastVisit e) = earned m n (now - le_lastVisit e) + earned m n (T - now)"
      by (simp flip: earned_add)
    moreover have "0 \<le> le_tokens e" "1 \<le> rat_of_int m" using assms(1,3) Some by (auto simp: limiter_of_def)
    ultimately show ?thesis using Some True by (simp add: may_guess_def limiter_cleanup_def)
  next
    case False
    with Some show ?thesis by (simp add: may_guess_def limiter_cleanup_def)
  qed
qed

lemma guesses_bounded:
  assumes "1 \<le> m" "m < 2 ^ 53" "1 \<le> n" "n < 2 ^ 53"
    and "limiter_of m n rl" "visited_by rl start" "in_order start T ops"
  shows "of_nat (guesses source ops rl) \<le> may_guess m n rl source start T + of_nat (visits_of source ops) * rounding m"
  using assms(5-7)
proof (induction ops arbitrary: rl start)
  case Nil
  have "0 \<le> earned m n d" if "0 \<le> d" for d using that assms(1,3) by (simp add: earned_def)
  then have "0 \<le> may_guess m n rl source start T" using Nil assms(1)
    by (fastforce simp: may_guess_def limiter_of_def visited_by_def split: option.split)
  then show ?case by simp
next
  case (Cons op ops)
  show ?case
  proof (cases op)
    case (Visit ip created now verify)
    let ?rl = "limiter_step op rl"
    from Cons.prems(3) Visit have order: "start \<le> now" "created \<le> now" "in_order now T ops" by auto
    note own = visit_own [OF Cons.prems(1,2) order(1,2) assms(1-4), of ip verify T]
    obtain t where t: "rl_entries ?rl = (rl_entries rl)(ip \<mapsto> \<lparr>le_tokens = t, le_lastVisit = now\<rparr>)" "0 \<le> t" "t \<le> of_int m"
      "of_bool (guess_of ip op rl) + t + earned m n (T - now) \<le> may_guess m n rl ip start T + rounding m"
      using own visit_entries(1) [of created now ip verify rl] Visit by auto
    have "limiter_of m n ?rl"
      using Cons.prems(1) t(1-3) Visit visit_entries(2,3) [of created now ip verify rl] by (auto simp: limiter_of_def)
    moreover have "visited_by ?rl now"
      unfolding visited_by_def t(1) using Cons.prems(2) order(1) by (auto simp: visited_by_def intro: order_trans)
    ultimately have rest: "of_nat (guesses source ops ?rl) \<le> may_guess m n ?rl source now T + of_nat (visits_of source ops) * rounding m"
      using order(3) by (rule Cons.IH)
    have "of_bool (guess_of source op rl) + may_guess m n ?rl source now T
        \<le> may_guess m n rl source start T + of_bool (ip = source) * rounding m"
    proof (cases "ip = source")
      case True
      with t(1,4) show ?thesis by (simp add: may_guess_def)
    next
      case False
      have "earned m n (T - now) \<le> earned m n (T - start)" using order(1) assms(1,3) by (intro earned_mono) simp_all
      with False t(1) Visit show ?thesis by (auto simp: may_guess_def split: option.split)
    qed
    then show ?thesis using rest Visit by (simp add: distrib_right del: limiter_step.simps guess_of.simps)
  next
    case (Sweep now)
    from Cons.prems(3) Sweep have order: "start \<le> now" "in_order now T ops" by auto
    have "limiter_of m n (limiter_cleanup now rl)" "visited_by (limiter_cleanup now rl) now"
      using Cons.prems(1,2) order(1)
      by (auto simp: limiter_of_def visited_by_def limiter_cleanup_def split: option.splits if_splits) (meson order_trans)
    note rest = Cons.IH [OF this order(2)]
    have "may_guess m n (limiter_cleanup now rl) source now T \<le> may_guess m n rl source start T"
      using sweep_keeps [OF assms(1,3) Cons.prems(1) order(1)] .
    then show ?thesis using rest Sweep by simp
  qed
qed


definition NewRateLimiter :: "int \<Rightarrow> duration \<Rightarrow> RateLimiter" where
  "NewRateLimiter maxAttempts window = \<lparr>rl_entries = Map.empty, rl_maxAttempts = maxAttempts, rl_window = window\<rparr>"


definition demo_guesses :: "limiter_op list" where
  "demo_guesses = replicate 7 (Visit ''a'' demo_day demo_day (Inr False))"


end
