(* ===== verification/Admission.thy ===== *)
theory Admission
  imports Channel Conn_Tracker Api_Keys
begin

text \<open>
  The gates before a handler: the concurrency limit of the process (\<^verbatim>\<open>internal/middleware/concurrency.go\<close>), the
  capacity of a provider (\<^verbatim>\<open>provider_admission.go\<close>), the client key, its rate and its concurrency
  (\<^verbatim>\<open>session.go\<close>, \<^verbatim>\<open>internal/store/store_api_keys.go\<close>), in the order \<^verbatim>\<open>cmd/server/routes.go\<close> nests them.

  \<^item> A request moves through the gates by \<open>gate_step\<close>, one atomic operation at a time, interleaved with the others;
    deferred releases run in reverse order. The limits are those of one configuration; a request admitted once passes
    an inner \<open>Limit\<close> unchanged and is not stepped again.
  \<^item> The keys are counted in the tracker the account selection uses, under negated identifiers.
  \<^item> A header is a function of its canonical name; the digest of a key is a parameter.
\<close>

section \<open>Refusals\<close>

record refusal =
  rf_status :: int
  rf_retry_after :: "string option"
  rf_message :: string
  rf_type :: string
  rf_code :: string

definition writeAPIKeyError :: "string option \<Rightarrow> int \<Rightarrow> string \<Rightarrow> string \<Rightarrow> refusal" where
  "writeAPIKeyError retry status message code =
     \<lparr>rf_status = status, rf_retry_after = retry, rf_message = message,
      rf_type = (if status = 429 then ''rate_limit_error'' else if status = 402 then ''insufficient_quota'' else ''authentication_error''),
      rf_code = code\<rparr>"

definition server_overloaded :: refusal where
  "server_overloaded = \<lparr>rf_status = 503, rf_retry_after = Some ''1'', rf_message = ''server is overloaded; retry later'',
     rf_type = ''server_error'', rf_code = ''server_overloaded''\<rparr>"

definition provider_overloaded :: refusal where
  "provider_overloaded = writeAPIKeyError (Some ''1'') 503 ''provider is overloaded; retry later'' ''provider_overloaded''"

definition concurrency_exceeded :: refusal where
  "concurrency_exceeded = writeAPIKeyError (Some ''1'') 429 ''API key concurrency limit exceeded'' ''concurrency_limit_exceeded''"

section \<open>The client key\<close>

definition APIKeyDenialExpired :: string where "APIKeyDenialExpired = ''invalid_api_key''"
definition APIKeyDenialRateLimited :: string where "APIKeyDenialRateLimited = ''rate_limit_exceeded''"

record APIKeyPrincipal =
  pr_ID :: int
  pr_AllowedModels :: "string list"
  pr_MaxConcurrent :: int
  pr_BillingLimit :: int
  pr_DenialCode :: string

text \<open>\<open>strings.Fields\<close>.\<close>

fun fields_of :: "string \<Rightarrow> string \<Rightarrow> string list" where
  "fields_of [] word = (if word = [] then [] else [rev word])"
| "fields_of (c # s) word =
     (if is_space c then (if word = [] then fields_of s [] else rev word # fields_of s []) else fields_of s (c # word))"

definition bearerToken :: "(string \<Rightarrow> string) \<Rightarrow> string" where
  "bearerToken header =
     (case fields_of (trim_space (header ''Authorization'')) [] of
        [scheme, token] \<Rightarrow> if equal_fold scheme ''Bearer'' then token else []
      | _ \<Rightarrow> [])"

definition apiKeyToken :: "(string \<Rightarrow> string) \<Rightarrow> string" where
  "apiKeyToken header = (if bearerToken header \<noteq> [] then bearerToken header else trim_space (header ''X-Api-Key''))"

definition APIKeyAuth ::
  "(string \<Rightarrow> string) \<Rightarrow> (string \<Rightarrow> string + APIKeyPrincipal option) \<Rightarrow> (string \<Rightarrow> string) \<Rightarrow> refusal + (string \<times> APIKeyPrincipal)" where
  "APIKeyAuth sha validate header =
     (let token = apiKeyToken header in
      if token = [] then Inl (writeAPIKeyError None 401 ''Missing API key'' ''invalid_api_key'')
      else case validate token of
             Inl err \<Rightarrow> Inl (writeAPIKeyError None 503 ''API key validation unavailable'' ''auth_unavailable'')
           | Inr None \<Rightarrow> Inl (writeAPIKeyError None 401 ''Invalid API key'' ''invalid_api_key'')
           | Inr (Some owner) \<Rightarrow>
               if pr_DenialCode owner = APIKeyDenialExpired
               then Inl (writeAPIKeyError None 401 ''API key has expired'' APIKeyDenialExpired)
               else if pr_DenialCode owner = APIKeyDenialRateLimited
               then Inl (writeAPIKeyError (Some ''60'') 429 ''API key rate limit exceeded'' APIKeyDenialRateLimited)
               else Inr (sha token, owner))"

text \<open>What \<open>registerRoutes\<close> makes of the store's answer.\<close>

definition principal_of :: "api_key_record \<Rightarrow> APIKeyPrincipal" where
  "principal_of key = \<lparr>pr_ID = kr_ID key, pr_AllowedModels = kr_AllowedModels key, pr_MaxConcurrent = kr_MaxConcurrent key,
     pr_BillingLimit = kr_BillingLimit key, pr_DenialCode = []\<rparr>"

definition denied :: "string \<Rightarrow> APIKeyPrincipal" where
  "denied code = \<lparr>pr_ID = 0, pr_AllowedModels = [], pr_MaxConcurrent = 0, pr_BillingLimit = 0, pr_DenialCode = code\<rparr>"

definition inference_validator :: "key_error + api_key_record \<Rightarrow> string + APIKeyPrincipal option" where
  "inference_validator answer =
     (case answer of
        Inr key \<Rightarrow> Inr (Some (principal_of key))
      | Inl NoRows \<Rightarrow> Inr None
      | Inl ApiKeyExpired \<Rightarrow> Inr (Some (denied APIKeyDenialExpired))
      | Inl ApiKeyRateLimited \<Rightarrow> Inr (Some (denied APIKeyDenialRateLimited))
      | Inl (Failed err) \<Rightarrow> Inl err)"

text \<open>A request passes with the principal of a key the store authorized for the token it carries; the refusals name 401, 429 or 503.\<close>

lemma APIKeyAuth_passes:
  assumes "APIKeyAuth sha (\<lambda>token. inference_validator (authorize token)) header = Inr (fingerprint, owner)"
  shows "apiKeyToken header \<noteq> [] \<and> fingerprint = sha (apiKeyToken header) \<and>
    (\<exists>key. authorize (apiKeyToken header) = Inr key \<and> owner = principal_of key)"
  using assms
  by (auto simp: APIKeyAuth_def inference_validator_def denied_def Let_def split: if_splits sum.splits option.splits key_error.splits)

lemma APIKeyAuth_refuses:
  assumes "APIKeyAuth sha validate header = Inl answer"
  shows "rf_status answer \<in> {401, 429, 503} \<and> (rf_status answer = 429 \<longleftrightarrow> rf_retry_after answer \<noteq> None)"
  using assms
  by (auto simp: APIKeyAuth_def writeAPIKeyError_def Let_def split: if_splits sum.splits option.splits)

definition APIKeyAllowsModel :: "APIKeyPrincipal option \<Rightarrow> string \<Rightarrow> bool" where
  "APIKeyAllowsModel owner model0 =
     (case owner of
        None \<Rightarrow> True
      | Some p \<Rightarrow>
          if pr_AllowedModels p = [] then True
          else let model = to_lower (trim_space model0) in
            \<exists>a \<in> set (pr_AllowedModels p).
              to_lower (trim_space a) = ''*'' \<or> model \<noteq> [] \<and> to_lower (trim_space a) = model)"

section \<open>The gates, step by step\<close>

text \<open>Where a request stands: before the process limit, in it, between the load and the swap of the provider's counter,
  past the provider (counted or not), with its key, in the handler (with its key counted or not), on its way out with
  what it still holds, and gone with its answer.\<close>

datatype place =
    Arriving
  | Slotted
  | Comparing int int
  | Provided bool
  | Keyed bool APIKeyPrincipal
  | Serving bool "int option"
  | Unwinding bool "int option" "refusal option"
  | Gone "refusal option"

record gate_request =
  gr_provider :: string
  gr_auth :: "refusal + APIKeyPrincipal"
  gr_place :: place

record gate_state =
  gs_slots :: int
  gs_rejected :: int
  gs_provider :: "string \<Rightarrow> int"
  gs_keys :: mem_conns
  gs_requests :: "gate_request list"

text \<open>\<open>limiter_capacity\<close> is the capacity \<open>NewConcurrencyLimiter\<close> gives the semaphore.\<close>

definition limiter_capacity :: "int \<Rightarrow> int" where
  "limiter_capacity maxConcurrent = (if maxConcurrent \<le> 0 then 100 else maxConcurrent)"

definition provider_name :: "string \<Rightarrow> string" where
  "provider_name path = takeWhile (\<lambda>c. c \<noteq> CHR ''/'') (trim_prefix path ''/'')"

text \<open>The limit that applies to a provider: none for a path that names no provider, or where it is not positive.\<close>

definition provider_limit :: "(string \<Rightarrow> int) option \<Rightarrow> string \<Rightarrow> int" where
  "provider_limit limits name =
     (if name \<notin> set (map d_ID All) then 0
      else case limits of None \<Rightarrow> 0 | Some l \<Rightarrow> l name)"

abbreviation at_place :: "gate_state \<Rightarrow> nat \<Rightarrow> place \<Rightarrow> gate_state" where
  "at_place s i p \<equiv> s\<lparr>gs_requests := (gs_requests s)[i := (gs_requests s ! i)\<lparr>gr_place := p\<rparr>]\<rparr>"

definition standing :: "gate_state \<Rightarrow> nat \<Rightarrow> place \<Rightarrow> bool" where
  "standing s i p \<longleftrightarrow> i < length (gs_requests s) \<and> gr_place (gs_requests s ! i) = p"

text \<open>\<open>key_gated\<close>: the key of the request is counted, in the shared tracker under its negated ID.\<close>

definition key_gated :: "APIKeyPrincipal \<Rightarrow> bool" where
  "key_gated owner \<longleftrightarrow> pr_ID owner \<noteq> 0 \<and> pr_MaxConcurrent owner > 0"

text \<open>\<open>ConcurrencyLimiter.Limit\<close>.\<close>

inductive slot_step :: "int \<Rightarrow> gate_state \<Rightarrow> gate_state \<Rightarrow> bool" for capacity where
  slot_taken: "standing s i Arriving \<Longrightarrow> gs_slots s < capacity \<Longrightarrow>
    slot_step capacity s ((at_place s i Slotted)\<lparr>gs_slots := gs_slots s + 1\<rparr>)"
| slot_refused: "standing s i Arriving \<Longrightarrow> \<not> gs_slots s < capacity \<Longrightarrow>
    slot_step capacity s ((at_place s i (Gone (Some server_overloaded)))\<lparr>gs_rejected := gs_rejected s + 1\<rparr>)"
| slot_released: "standing s i (Unwinding False None answer) \<Longrightarrow>
    slot_step capacity s ((at_place s i (Gone answer))\<lparr>gs_slots := gs_slots s - 1\<rparr>)"

text \<open>\<open>ProviderAdmission\<close>: the loop of a load and a compare-and-swap.\<close>

inductive provider_step :: "(string \<Rightarrow> int) option \<Rightarrow> gate_state \<Rightarrow> gate_state \<Rightarrow> bool" for limits where
  provider_free: "standing s i Slotted \<Longrightarrow> provider_limit limits (gr_provider (gs_requests s ! i)) \<le> 0 \<Longrightarrow>
    provider_step limits s (at_place s i (Provided False))"
| provider_load: "standing s i Slotted \<Longrightarrow> limit = provider_limit limits (gr_provider (gs_requests s ! i)) \<Longrightarrow> limit > 0 \<Longrightarrow>
    provider_step limits s (at_place s i (Comparing limit (gs_provider s (gr_provider (gs_requests s ! i)))))"
| provider_refused: "standing s i (Comparing limit n) \<Longrightarrow> n \<ge> limit \<Longrightarrow>
    provider_step limits s (at_place s i (Unwinding False None (Some provider_overloaded)))"
| provider_swapped: "standing s i (Comparing limit n) \<Longrightarrow> n < limit \<Longrightarrow>
    gs_provider s (gr_provider (gs_requests s ! i)) = n \<Longrightarrow>
    provider_step limits s ((at_place s i (Provided True))\<lparr>gs_provider := (gs_provider s)(gr_provider (gs_requests s ! i) := n + 1)\<rparr>)"
| provider_again: "standing s i (Comparing limit n) \<Longrightarrow> n < limit \<Longrightarrow>
    gs_provider s (gr_provider (gs_requests s ! i)) \<noteq> n \<Longrightarrow>
    provider_step limits s (at_place s i (Comparing limit (gs_provider s (gr_provider (gs_requests s ! i)))))"
| provider_released: "standing s i (Unwinding True None answer) \<Longrightarrow>
    provider_step limits s ((at_place s i (Unwinding False None answer))
      \<lparr>gs_provider := (gs_provider s)(gr_provider (gs_requests s ! i) := gs_provider s (gr_provider (gs_requests s ! i)) - 1)\<rparr>)"

text \<open>\<open>APIKeyAuth\<close> and, around the handler, \<open>APIKeyConcurrencyWithTracker\<close>.\<close>

inductive caller_step :: "gate_state \<Rightarrow> gate_state \<Rightarrow> bool" where
  auth_refused: "standing s i (Provided counted) \<Longrightarrow> gr_auth (gs_requests s ! i) = Inl answer \<Longrightarrow>
    caller_step s (at_place s i (Unwinding counted None (Some answer)))"
| auth_passed: "standing s i (Provided counted) \<Longrightarrow> gr_auth (gs_requests s ! i) = Inr owner \<Longrightarrow>
    caller_step s (at_place s i (Keyed counted owner))"
| key_free: "standing s i (Keyed counted owner) \<Longrightarrow> \<not> key_gated owner \<Longrightarrow>
    caller_step s (at_place s i (Serving counted None))"
| key_taken: "standing s i (Keyed counted owner) \<Longrightarrow> key_gated owner \<Longrightarrow>
    mem_TryAcquire (- pr_ID owner) (pr_MaxConcurrent owner) (gs_keys s) = (True, keys') \<Longrightarrow>
    caller_step s ((at_place s i (Serving counted (Some (- pr_ID owner))))\<lparr>gs_keys := keys'\<rparr>)"
| key_refused: "standing s i (Keyed counted owner) \<Longrightarrow> key_gated owner \<Longrightarrow>
    mem_TryAcquire (- pr_ID owner) (pr_MaxConcurrent owner) (gs_keys s) = (False, keys') \<Longrightarrow>
    caller_step s ((at_place s i (Unwinding counted None (Some concurrency_exceeded)))\<lparr>gs_keys := keys'\<rparr>)"
| served: "standing s i (Serving counted kept) \<Longrightarrow>
    caller_step s (at_place s i (Unwinding counted kept None))"
| key_released: "standing s i (Unwinding counted (Some a) answer) \<Longrightarrow>
    caller_step s ((at_place s i (Unwinding counted None answer))\<lparr>gs_keys := mem_Release a (gs_keys s)\<rparr>)"

definition gate_step :: "int \<Rightarrow> (string \<Rightarrow> int) option \<Rightarrow> gate_state \<Rightarrow> gate_state \<Rightarrow> bool" where
  "gate_step capacity limits s s' \<longleftrightarrow> slot_step capacity s s' \<or> provider_step limits s s' \<or> caller_step s s'"

definition gate_init :: "(string \<times> (refusal + APIKeyPrincipal)) list \<Rightarrow> gate_state" where
  "gate_init requests =
     \<lparr>gs_slots = 0, gs_rejected = 0, gs_provider = (\<lambda>_. 0), gs_keys = Map.empty,
      gs_requests = map (\<lambda>(path, auth). \<lparr>gr_provider = provider_name path, gr_auth = auth, gr_place = Arriving\<rparr>) requests\<rparr>"


section \<open>What the gates count\<close>

text \<open>What a request holds where it stands: a slot of the process, a place at its provider, a place of its key.\<close>

fun has_slot :: "place \<Rightarrow> bool" where
  "has_slot Arriving = False" | "has_slot (Gone _) = False" | "has_slot _ = True"

fun is_counted :: "place \<Rightarrow> bool" where
  "is_counted (Provided c) = c" | "is_counted (Keyed c _) = c" | "is_counted (Serving c _) = c" |
  "is_counted (Unwinding c _ _) = c" | "is_counted _ = False"

fun key_kept :: "place \<Rightarrow> int option" where
  "key_kept (Serving _ h) = h" | "key_kept (Unwinding _ h _) = h" | "key_kept _ = None"

abbreviation requests_with :: "(gate_request \<Rightarrow> bool) \<Rightarrow> gate_state \<Rightarrow> nat" where
  "requests_with P s \<equiv> length (filter P (gs_requests s))"

definition gates_exact :: "gate_state \<Rightarrow> bool" where
  "gates_exact s \<longleftrightarrow>
     gs_slots s = int (requests_with (\<lambda>r. has_slot (gr_place r)) s) \<and>
     (\<forall>p. gs_provider s p = int (requests_with (\<lambda>r. gr_provider r = p \<and> is_counted (gr_place r)) s)) \<and>
     (\<forall>a. mem_GetCount a (gs_keys s) = int (requests_with (\<lambda>r. key_kept (gr_place r) = Some a) s))"

text \<open>The memory of a request agrees with the gates it passed.\<close>

definition owner_kept :: "APIKeyPrincipal \<Rightarrow> int option" where
  "owner_kept owner = (if key_gated owner then Some (- pr_ID owner) else None)"

fun place_ok :: "int \<Rightarrow> refusal + APIKeyPrincipal \<Rightarrow> place \<Rightarrow> bool" where
  "place_ok limit auth (Comparing l _) \<longleftrightarrow> l = limit \<and> limit > 0"
| "place_ok limit auth (Provided c) \<longleftrightarrow> c = (limit > 0)"
| "place_ok limit auth (Keyed c owner) \<longleftrightarrow> c = (limit > 0) \<and> auth = Inr owner"
| "place_ok limit auth (Serving c h) \<longleftrightarrow> c = (limit > 0) \<and> (\<exists>owner. auth = Inr owner \<and> h = owner_kept owner)"
| "place_ok limit auth (Unwinding c h _) \<longleftrightarrow>
     (c \<longrightarrow> limit > 0) \<and> (h \<noteq> None \<longrightarrow> (\<exists>owner. auth = Inr owner \<and> h = owner_kept owner))"
| "place_ok limit auth _ \<longleftrightarrow> True"

definition request_ok :: "(string \<Rightarrow> int) option \<Rightarrow> gate_request \<Rightarrow> bool" where
  "request_ok limits r \<longleftrightarrow> place_ok (provider_limit limits (gr_provider r)) (gr_auth r) (gr_place r)"

text \<open>One step moves one request and adjusts each counter by what the request gained or gave back; a counter only grows
  below its limit.\<close>

definition key_bound :: "int \<Rightarrow> int \<Rightarrow> refusal + APIKeyPrincipal \<Rightarrow> bool" where
  "key_bound k m auth \<longleftrightarrow>
     (\<forall>owner. auth = Inr owner \<longrightarrow> pr_MaxConcurrent owner \<le> max_int64 \<and> (pr_ID owner = k \<longrightarrow> pr_MaxConcurrent owner \<le> m))"

definition gate_moves :: "int \<Rightarrow> (string \<Rightarrow> int) option \<Rightarrow> int \<Rightarrow> int \<Rightarrow> gate_state \<Rightarrow> gate_state \<Rightarrow> nat \<Rightarrow> place \<Rightarrow> bool" where
  "gate_moves capacity limits k m s s' i p \<longleftrightarrow>
     (let r = gs_requests s ! i; old = gr_place r in
      i < length (gs_requests s) \<and> gs_requests s' = (gs_requests s)[i := r\<lparr>gr_place := p\<rparr>] \<and>
      place_ok (provider_limit limits (gr_provider r)) (gr_auth r) p \<and>
      gs_slots s' + of_bool (has_slot old) = gs_slots s + of_bool (has_slot p) \<and>
      (gs_slots s' \<le> gs_slots s \<or> gs_slots s' \<le> capacity) \<and>
      (\<forall>q. gs_provider s' q + of_bool (gr_provider r = q \<and> is_counted old) =
           gs_provider s q + of_bool (gr_provider r = q \<and> is_counted p)) \<and>
      (\<forall>q. gs_provider s' q \<le> gs_provider s q \<or> gs_provider s' q \<le> provider_limit limits q) \<and>
      (\<forall>a. mem_GetCount a (gs_keys s') + of_bool (key_kept old = Some a) =
           mem_GetCount a (gs_keys s) + of_bool (key_kept p = Some a)) \<and>
      (mem_GetCount (- k) (gs_keys s') \<le> mem_GetCount (- k) (gs_keys s) \<or> mem_GetCount (- k) (gs_keys s') \<le> m))"

lemma key_kept_positive:
  assumes "gates_exact s" "i < length (gs_requests s)" "key_kept (gr_place (gs_requests s ! i)) = Some a"
  shows "mem_GetCount a (gs_keys s) > 0"
proof -
  have "gs_requests s ! i \<in> set (filter (\<lambda>r. key_kept (gr_place r) = Some a) (gs_requests s))"
    using assms(2,3) by simp
  then have "length (filter (\<lambda>r. key_kept (gr_place r) = Some a) (gs_requests s)) > 0"
    by (simp only: length_greater_0_conv) fastforce
  with assms(1) show ?thesis by (simp add: gates_exact_def)
qed

lemma exact_mem_inv: "gates_exact s \<Longrightarrow> mem_inv (gs_keys s)"
  by (simp add: gates_exact_def mem_inv_count)

lemma try_taken:
  assumes "mem_TryAcquire a limit kc = (True, kc')" "mem_inv kc" "0 < limit" "limit \<le> max_int64"
  shows "mem_GetCount j kc' = mem_GetCount j kc + of_bool (a = j)" "mem_GetCount a kc' \<le> limit"
proof -
  have less: "mem_GetCount a kc < limit"
    using assms(1,3) mem_TryAcquire_full [of limit a kc] by (cases "mem_GetCount a kc < limit") auto
  then show c: "mem_GetCount j kc' = mem_GetCount j kc + of_bool (a = j)" for j
    using mem_try_count [OF assms(2-4), of j a] assms(1) by auto
  show "mem_GetCount a kc' \<le> limit" using c [of a] less by simp
qed

lemma try_refused:
  assumes "mem_TryAcquire a limit kc = (False, kc')" "mem_inv kc" "0 < limit" "limit \<le> max_int64"
  shows "mem_GetCount j kc' = mem_GetCount j kc"
proof -
  have "\<not> mem_GetCount a kc < limit"
    using assms mem_TryAcquire_count [of a kc limit] by (auto simp: mem_inv_count)
  then show ?thesis using mem_try_count [OF assms(2-4), of j a] assms(1) by auto
qed


lemma standing_at: "standing s i p \<Longrightarrow> i < length (gs_requests s) \<and> gr_place (gs_requests s ! i) = p"
  by (simp add: standing_def)

lemma slot_step_moves:
  assumes "slot_step capacity s s'" "gates_exact s" "list_all (request_ok limits) (gs_requests s)"
  shows "\<exists>i p. gate_moves capacity limits k m s s' i p"
proof -
  have ok: "place_ok (provider_limit limits (gr_provider (gs_requests s ! i))) (gr_auth (gs_requests s ! i)) (gr_place (gs_requests s ! i))"
    if "i < length (gs_requests s)" for i
    using assms(3) that by (auto simp: list_all_length request_ok_def)
  from assms(1) show ?thesis
  proof cases
    case (slot_taken i)
    then show ?thesis using standing_at [OF slot_taken(2)]
      by (intro exI [of _ i] exI [of _ Slotted]) (simp add: gate_moves_def)
  next
    case (slot_refused i)
    then show ?thesis using standing_at [OF slot_refused(2)]
      by (intro exI [of _ i] exI [of _ "Gone (Some server_overloaded)"]) (simp add: gate_moves_def)
  next
    case (slot_released i answer)
    then show ?thesis using standing_at [OF slot_released(2)] ok [of i]
      by (intro exI [of _ i] exI [of _ "Gone answer"]) (simp add: gate_moves_def)
  qed
qed

lemma provider_step_moves:
  assumes "provider_step limits s s'" "gates_exact s" "list_all (request_ok limits) (gs_requests s)"
  shows "\<exists>i p. gate_moves capacity limits k m s s' i p"
proof -
  have ok: "place_ok (provider_limit limits (gr_provider (gs_requests s ! i))) (gr_auth (gs_requests s ! i)) (gr_place (gs_requests s ! i))"
    if "i < length (gs_requests s)" for i
    using assms(3) that by (auto simp: list_all_length request_ok_def)
  from assms(1) show ?thesis
  proof cases
    case (provider_free i)
    then show ?thesis using standing_at [OF provider_free(2)]
      by (intro exI [of _ i] exI [of _ "Provided False"]) (simp add: gate_moves_def)
  next
    case (provider_load i limit)
    then show ?thesis using standing_at [OF provider_load(2)]
      by (intro exI [of _ i] exI [of _ "Comparing limit (gs_provider s (gr_provider (gs_requests s ! i)))"]) (simp add: gate_moves_def)
  next
    case (provider_refused i limit n)
    then show ?thesis using standing_at [OF provider_refused(2)] ok [of i]
      by (intro exI [of _ i] exI [of _ "Unwinding False None (Some provider_overloaded)"]) (simp add: gate_moves_def)
  next
    case (provider_swapped i limit n)
    then show ?thesis using standing_at [OF provider_swapped(2)] ok [of i]
      by (intro exI [of _ i] exI [of _ "Provided True"]) (auto simp: gate_moves_def)
  next
    case (provider_again i limit n)
    then show ?thesis using standing_at [OF provider_again(2)] ok [of i]
      by (intro exI [of _ i] exI [of _ "Comparing limit (gs_provider s (gr_provider (gs_requests s ! i)))"]) (simp add: gate_moves_def)
  next
    case (provider_released i answer)
    then show ?thesis using standing_at [OF provider_released(2)] ok [of i]
      by (intro exI [of _ i] exI [of _ "Unwinding False None answer"]) (auto simp: gate_moves_def)
  qed
qed

lemma caller_step_moves:
  assumes "caller_step s s'" "gates_exact s" "list_all (request_ok limits) (gs_requests s)"
    and "list_all (\<lambda>r. key_bound k m (gr_auth r)) (gs_requests s)" "k \<noteq> 0" "0 \<le> m"
  shows "\<exists>i p. gate_moves capacity limits k m s s' i p"
proof -
  have ok: "place_ok (provider_limit limits (gr_provider (gs_requests s ! i))) (gr_auth (gs_requests s ! i)) (gr_place (gs_requests s ! i))"
    and kb: "key_bound k m (gr_auth (gs_requests s ! i))" if "i < length (gs_requests s)" for i
    using assms(3,4) that by (auto simp: list_all_length request_ok_def)
  have inv: "mem_inv (gs_keys s)" by (rule exact_mem_inv [OF assms(2)])
  note pos = key_kept_positive [OF assms(2)]
  from assms(1) show ?thesis
  proof cases
    case (auth_refused i counted answer)
    then show ?thesis using standing_at [OF auth_refused(2)] ok [of i]
      by (intro exI [of _ i] exI [of _ "Unwinding counted None (Some answer)"]) (simp add: gate_moves_def)
  next
    case (auth_passed i counted owner)
    then show ?thesis using standing_at [OF auth_passed(2)] ok [of i]
      by (intro exI [of _ i] exI [of _ "Keyed counted owner"]) (simp add: gate_moves_def)
  next
    case (key_free i counted owner)
    then show ?thesis using standing_at [OF key_free(2)] ok [of i]
      by (intro exI [of _ i] exI [of _ "Serving counted None"]) (simp add: gate_moves_def owner_kept_def)
  next
    case (key_taken i counted owner kc')
    have at: "i < length (gs_requests s)" "gr_place (gs_requests s ! i) = Keyed counted owner"
      using standing_at [OF key_taken(2)] by auto
    have auth: "gr_auth (gs_requests s ! i) = Inr owner" using ok [OF at(1)] at(2) by simp
    have b: "0 < pr_MaxConcurrent owner" "pr_MaxConcurrent owner \<le> max_int64" "pr_ID owner = k \<Longrightarrow> pr_MaxConcurrent owner \<le> m"
      using kb [OF at(1)] auth key_taken(3) by (auto simp: key_bound_def key_gated_def)
    note t = try_taken [OF key_taken(4) inv b(1,2)]
    have "mem_GetCount (- k) kc' \<le> mem_GetCount (- k) (gs_keys s) \<or> mem_GetCount (- k) kc' \<le> m"
      using t(1) [of "- k"] t(2) b(3) by (cases "pr_ID owner = k") auto
    then show ?thesis using at ok [of i] auth key_taken(1,3) t(1)
      by (intro exI [of _ i] exI [of _ "Serving counted (Some (- pr_ID owner))"]) (simp add: gate_moves_def owner_kept_def)
  next
    case (key_refused i counted owner kc')
    have at: "i < length (gs_requests s)" "gr_place (gs_requests s ! i) = Keyed counted owner"
      using standing_at [OF key_refused(2)] by auto
    have auth: "gr_auth (gs_requests s ! i) = Inr owner" using ok [OF at(1)] at(2) by simp
    have b: "0 < pr_MaxConcurrent owner" "pr_MaxConcurrent owner \<le> max_int64"
      using kb [OF at(1)] auth key_refused(3) by (auto simp: key_bound_def key_gated_def)
    show ?thesis using at ok [of i] auth key_refused(1,3) try_refused [OF key_refused(4) inv b]
      by (intro exI [of _ i] exI [of _ "Unwinding counted None (Some concurrency_exceeded)"]) (simp add: gate_moves_def)
  next
    case (served i counted kept)
    then show ?thesis using standing_at [OF served(2)] ok [of i]
      by (intro exI [of _ i] exI [of _ "Unwinding counted kept None"]) (auto simp: gate_moves_def)
  next
    case (key_released i counted a answer)
    have at: "i < length (gs_requests s)" "gr_place (gs_requests s ! i) = Unwinding counted (Some a) answer"
      using standing_at [OF key_released(2)] by auto
    have p: "mem_GetCount a (gs_keys s) > 0" using pos [OF at(1)] at(2) by simp
    have c: "mem_GetCount j (mem_Release a (gs_keys s)) = mem_GetCount j (gs_keys s) - of_bool (a = j)" for j
      using p by (auto simp: mem_Release_count)
    show ?thesis using at ok [of i] key_released(1)
      by (intro exI [of _ i] exI [of _ "Unwinding counted None answer"]) (simp add: gate_moves_def c)
  qed
qed

lemma gate_step_moves:
  assumes "gate_step capacity limits s s'" "gates_exact s" "list_all (request_ok limits) (gs_requests s)"
    and "list_all (\<lambda>r. key_bound k m (gr_auth r)) (gs_requests s)" "k \<noteq> 0" "0 \<le> m"
  shows "\<exists>i p. gate_moves capacity limits k m s s' i p"
  using assms slot_step_moves provider_step_moves caller_step_moves unfolding gate_step_def by blast

definition gates_within :: "int \<Rightarrow> (string \<Rightarrow> int) option \<Rightarrow> int \<Rightarrow> int \<Rightarrow> gate_state \<Rightarrow> bool" where
  "gates_within capacity limits k m s \<longleftrightarrow>
     gates_exact s \<and> list_all (request_ok limits) (gs_requests s) \<and>
     list_all (\<lambda>r. key_bound k m (gr_auth r)) (gs_requests s) \<and>
     gs_slots s \<le> capacity \<and> (\<forall>q. gs_provider s q \<le> max 0 (provider_limit limits q)) \<and>
     mem_GetCount (- k) (gs_keys s) \<le> m"

lemma gate_moves_exact:
  assumes "gate_moves capacity limits k m s s' i p" "gates_exact s"
  shows "gates_exact s'"
proof -
  define r where "r = gs_requests s ! i"
  note m = assms(1) [unfolded gate_moves_def Let_def, folded r_def]
  from m have i: "i < length (gs_requests s)" and upd: "gs_requests s' = (gs_requests s)[i := r\<lparr>gr_place := p\<rparr>]" by auto
  have count: "int (requests_with P s') + of_bool (P r) = int (requests_with P s) + of_bool (P (r\<lparr>gr_place := p\<rparr>))" for P
    using length_filter_update [OF i, of P "r\<lparr>gr_place := p\<rparr>"] by (auto simp: upd r_def of_bool_def split: if_splits)
  from m have slots: "gs_slots s' + of_bool (has_slot (gr_place r)) = gs_slots s + of_bool (has_slot p)"
    and prov: "\<And>q. gs_provider s' q + of_bool (gr_provider r = q \<and> is_counted (gr_place r)) =
      gs_provider s q + of_bool (gr_provider r = q \<and> is_counted p)"
    and kept: "\<And>a. mem_GetCount a (gs_keys s') + of_bool (key_kept (gr_place r) = Some a) =
      mem_GetCount a (gs_keys s) + of_bool (key_kept p = Some a)" by blast+
  from assms(2) have ex: "gs_slots s = int (requests_with (\<lambda>r. has_slot (gr_place r)) s)"
    "\<And>q. gs_provider s q = int (requests_with (\<lambda>r. gr_provider r = q \<and> is_counted (gr_place r)) s)"
    "\<And>a. mem_GetCount a (gs_keys s) = int (requests_with (\<lambda>r. key_kept (gr_place r) = Some a) s)"
    by (auto simp: gates_exact_def)
  have "gs_slots s' = int (requests_with (\<lambda>r. has_slot (gr_place r)) s')"
    using slots count [of "\<lambda>r. has_slot (gr_place r)"] ex(1) by simp
  moreover have "gs_provider s' q = int (requests_with (\<lambda>r. gr_provider r = q \<and> is_counted (gr_place r)) s')" for q
    using prov [of q] count [of "\<lambda>r. gr_provider r = q \<and> is_counted (gr_place r)"] ex(2) [of q] by simp
  moreover have "mem_GetCount a (gs_keys s') = int (requests_with (\<lambda>r. key_kept (gr_place r) = Some a) s')" for a
    using kept [of a] count [of "\<lambda>r. key_kept (gr_place r) = Some a"] ex(3) [of a] by simp
  ultimately show ?thesis by (simp add: gates_exact_def)
qed

lemma list_all_update: "list_all P xs \<Longrightarrow> P y \<Longrightarrow> list_all P (xs[i := y])"
  by (auto simp: list_all_iff dest!: set_update_subset_insert [THEN subsetD])

lemma gate_step_within:
  assumes "gate_step capacity limits s s'" "gates_within capacity limits k m s" "k \<noteq> 0" "0 \<le> m"
  shows "gates_within capacity limits k m s'"
proof -
  obtain i p where mv: "gate_moves capacity limits k m s s' i p"
    using gate_step_moves [OF assms(1), of k m] assms(2-) unfolding gates_within_def by blast
  define r where "r = gs_requests s ! i"
  note mvs = mv [unfolded gate_moves_def Let_def, folded r_def]
  note w = assms(2) [unfolded gates_within_def]
  have "key_bound k m (gr_auth r)" using w mvs by (auto simp: list_all_length r_def)
  then have "list_all (\<lambda>r. key_bound k m (gr_auth r)) (gs_requests s')" "list_all (request_ok limits) (gs_requests s')"
    using w mvs by (auto intro!: list_all_update simp: request_ok_def)
  moreover have "gs_provider s' q \<le> max 0 (provider_limit limits q)" for q
  proof -
    have "gs_provider s' q \<le> gs_provider s q \<or> gs_provider s' q \<le> provider_limit limits q" using mvs by blast
    moreover have "gs_provider s q \<le> max 0 (provider_limit limits q)" using w by blast
    ultimately show ?thesis by linarith
  qed
  ultimately show ?thesis using gate_moves_exact [OF mv] w mvs by (auto simp: gates_within_def)
qed

lemma gate_init_within:
  assumes "0 \<le> capacity" "0 \<le> m" "\<forall>(path, auth) \<in> set requests. key_bound k m auth"
  shows "gates_within capacity limits k m (gate_init requests)"
  using assms by (auto simp: gates_within_def gate_init_def gates_exact_def mem_GetCount_def list_all_iff request_ok_def
      filter_map comp_def case_prod_beta)

lemma length_filter_mono: "(\<And>x. x \<in> set xs \<Longrightarrow> P x \<Longrightarrow> Q x) \<Longrightarrow> length (filter P xs) \<le> length (filter Q xs)"
  by (induction xs) auto

text \<open>The requests in the handler.\<close>

fun is_serving :: "place \<Rightarrow> bool" where
  "is_serving (Serving _ _) = True" | "is_serving _ = False"

fun is_gone :: "place \<Rightarrow> bool" where
  "is_gone (Gone _) = True" | "is_gone _ = False"

text \<open>\<open>key_gated_as\<close>: a request authorised for the key \<open>k\<close> carries a positive limit of at most \<open>m\<close>.\<close>

definition of_key :: "int \<Rightarrow> refusal + APIKeyPrincipal \<Rightarrow> bool" where
  "of_key k auth \<longleftrightarrow> (case auth of Inr owner \<Rightarrow> pr_ID owner = k | Inl _ \<Rightarrow> False)"

definition key_limited :: "int \<Rightarrow> int \<Rightarrow> refusal + APIKeyPrincipal \<Rightarrow> bool" where
  "key_limited k m auth \<longleftrightarrow>
     (\<forall>owner. auth = Inr owner \<longrightarrow> pr_MaxConcurrent owner \<le> max_int64 \<and>
        (pr_ID owner = k \<longrightarrow> 0 < pr_MaxConcurrent owner \<and> pr_MaxConcurrent owner \<le> m))"

definition auths_of :: "gate_state \<Rightarrow> (refusal + APIKeyPrincipal) list" where
  "auths_of s = map gr_auth (gs_requests s)"

lemma gate_moves_auths: "gate_moves capacity limits k m s s' i p \<Longrightarrow> auths_of s' = auths_of s"
  by (auto simp: gate_moves_def auths_of_def Let_def list_eq_iff_nth_eq nth_list_update)

lemma reachable_within:
  assumes "(gate_step capacity limits)\<^sup>*\<^sup>* (gate_init requests) s" "0 \<le> capacity" "k \<noteq> 0" "0 \<le> m"
    and "\<forall>(path, auth) \<in> set requests. key_bound k m auth"
  shows "gates_within capacity limits k m s \<and> auths_of s = map snd requests"
  using assms(1)
proof (induction rule: rtranclp_induct)
  case base
  show ?case using gate_init_within [OF assms(2,4,5)] by (auto simp: auths_of_def gate_init_def comp_def case_prod_beta)
next
  case (step s s')
  then have w: "gates_within capacity limits k m s" by simp
  then obtain i p where "gate_moves capacity limits k m s s' i p"
    using gate_step_moves [OF step(2), of k m] assms(3,4) unfolding gates_within_def by blast
  then have "auths_of s' = map snd requests" using gate_moves_auths step(3) by simp
  then show ?case using gate_step_within [OF step(2) w assms(3,4)] by simp
qed


definition demo_owner :: APIKeyPrincipal where
  "demo_owner = \<lparr>pr_ID = 7, pr_AllowedModels = [], pr_MaxConcurrent = 1, pr_BillingLimit = 0, pr_DenialCode = []\<rparr>"

definition demo_arrivals :: "(string \<times> (refusal + APIKeyPrincipal)) list" where
  "demo_arrivals = [(''/workbuddy/v1/messages'', Inr demo_owner), (''/workbuddy/v1/messages'', Inr demo_owner)]"

definition demo_serving :: gate_state where
  "demo_serving = \<lparr>gs_slots = 1, gs_rejected = 0, gs_provider = (\<lambda>q. if q = ''workbuddy'' then 1 else 0),
     gs_keys = [- 7 \<mapsto> 1],
     gs_requests = [\<lparr>gr_provider = ''workbuddy'', gr_auth = Inr demo_owner, gr_place = Serving True (Some (- 7))\<rparr>,
       \<lparr>gr_provider = ''workbuddy'', gr_auth = Inr demo_owner, gr_place = Arriving\<rparr>]\<rparr>"

lemma demo_limit: "provider_limit (Some (\<lambda>_. 2)) ''workbuddy'' = 2" "provider_name ''/workbuddy/v1/messages'' = ''workbuddy''"
  by code_simp+

lemma demo_served: "(gate_step (limiter_capacity 1) (Some (\<lambda>_. 2)))\<^sup>*\<^sup>* (gate_init demo_arrivals) demo_serving"
proof -
  define r where "r = (\<lambda>pl. \<lparr>gr_provider = ''workbuddy'', gr_auth = Inr demo_owner, gr_place = pl\<rparr>)"
  define st where "st = (\<lambda>n pc kc pl. \<lparr>gs_slots = n, gs_rejected = 0, gs_provider = pc, gs_keys = kc, gs_requests = [r pl, r Arriving]\<rparr>)"
  note d = st_def r_def standing_def demo_limit
  let ?step = "gate_step (limiter_capacity 1) (Some (\<lambda>_. 2))"
  have e1: "?step (st 0 (\<lambda>_. 0) Map.empty Arriving) (st 1 (\<lambda>_. 0) Map.empty Slotted)"
    using slot_taken [of "st 0 (\<lambda>_. 0) Map.empty Arriving" 0 "limiter_capacity 1"] by (simp add: gate_step_def d limiter_capacity_def)
  have e2: "?step (st 1 (\<lambda>_. 0) Map.empty Slotted) (st 1 (\<lambda>_. 0) Map.empty (Comparing 2 0))"
    using provider_load [of "st 1 (\<lambda>_. 0) Map.empty Slotted" 0 2 "Some (\<lambda>_. 2)"] by (simp add: gate_step_def d)
  have e3: "?step (st 1 (\<lambda>_. 0) Map.empty (Comparing 2 0)) (st 1 ((\<lambda>_. 0)(''workbuddy'' := 1)) Map.empty (Provided True))"
    using provider_swapped [of "st 1 (\<lambda>_. 0) Map.empty (Comparing 2 0)" 0 2 0] by (simp add: gate_step_def d)
  have e4: "?step (st 1 ((\<lambda>_. 0)(''workbuddy'' := 1)) Map.empty (Provided True))
      (st 1 ((\<lambda>_. 0)(''workbuddy'' := 1)) Map.empty (Keyed True demo_owner))"
    using auth_passed [of "st 1 ((\<lambda>_. 0)(''workbuddy'' := 1)) Map.empty (Provided True)" 0 True demo_owner] by (simp add: gate_step_def d)
  have e5: "?step (st 1 ((\<lambda>_. 0)(''workbuddy'' := 1)) Map.empty (Keyed True demo_owner))
      (st 1 ((\<lambda>_. 0)(''workbuddy'' := 1)) [- 7 \<mapsto> 1] (Serving True (Some (- 7))))"
    using key_taken [of "st 1 ((\<lambda>_. 0)(''workbuddy'' := 1)) Map.empty (Keyed True demo_owner)" 0 True demo_owner "[- 7 \<mapsto> 1]"]
    by (simp add: gate_step_def d demo_owner_def key_gated_def mem_TryAcquire_def load_or_store_def wrap64_def max_int64_def)
  have i: "gate_init demo_arrivals = st 0 (\<lambda>_. 0) Map.empty Arriving"
    by (simp add: gate_init_def demo_arrivals_def d)
  have e: "demo_serving = st 1 ((\<lambda>_. 0)(''workbuddy'' := 1)) [- 7 \<mapsto> 1] (Serving True (Some (- 7)))"
    by (auto simp: demo_serving_def st_def r_def)
  note run = converse_rtranclp_into_rtranclp [of ?step]
  show ?thesis unfolding i e by (rule run [OF e1], rule run [OF e2], rule run [OF e3], rule run [OF e4], rule r_into_rtranclp [of ?step, OF e5])
qed


end
