(* ===== verification/Swar_Scan.thy ===== *)
theory Swar_Scan
  imports Go_Prelude
begin

unbundle bit_operations_syntax

text \<open>
  The word-wide scanner of the JSON encoder (first part of \<open>internal/handler/sse_frame.go\<close>): one
  test on a 64-bit word licenses copying eight bytes of a string verbatim into a JSON literal. The
  lemmas show the test exact: it accepts a word iff each of its eight bytes is a character that
  needs no escape.
\<close>

section \<open>Words of eight bytes\<close>

definition swarLo :: "64 word" where "swarLo = 0x0101010101010101"
definition swarHi :: "64 word" where "swarHi = 0x8080808080808080"

definition swarHasZero :: "64 word \<Rightarrow> 64 word" where
  "swarHasZero v = (v - swarLo) AND NOT v AND swarHi"

definition swarHasByte :: "64 word \<Rightarrow> char \<Rightarrow> 64 word" where
  "swarHasByte w c = swarHasZero (w XOR (of_nat (byte_of c) * swarLo))"

definition swarQuoteAmpMask :: "64 word" where "swarQuoteAmpMask = 0xFBFBFBFBFBFBFBFB"
definition swarQuoteAmpValue :: "64 word" where "swarQuoteAmpValue = 0x2222222222222222"
definition swarAngleMask :: "64 word" where "swarAngleMask = 0xFDFDFDFDFDFDFDFD"
definition swarAngleValue :: "64 word" where "swarAngleValue = 0x3C3C3C3C3C3C3C3C"

definition swarHasMaskedByte :: "64 word \<Rightarrow> 64 word \<Rightarrow> 64 word \<Rightarrow> 64 word" where
  "swarHasMaskedByte w m v = swarHasZero ((w AND m) XOR v)"

text \<open>\<open>binary.LittleEndian.Uint64\<close> on the eight bytes copied from \<open>s[i:i+8]\<close>.\<close>

fun little_endian :: "string \<Rightarrow> 64 word" where
  "little_endian [] = 0"
| "little_endian (c # s) = of_nat (byte_of c) OR push_bit 8 (little_endian s)"

definition load8LE :: "string \<Rightarrow> nat \<Rightarrow> 64 word" where
  "load8LE s i = little_endian (take 8 (drop i s))"

definition jsonRawChunkClean :: "64 word \<Rightarrow> bool" where
  "jsonRawChunkClean w =
     (if w AND swarHi \<noteq> 0 then False
      else if (w - swarLo * 0x20) AND NOT w AND swarHi \<noteq> 0 then False
      else
        let escapes = swarHasMaskedByte w swarQuoteAmpMask swarQuoteAmpValue
                    OR swarHasMaskedByte w swarAngleMask swarAngleValue
                    OR swarHasByte w (CHR 0x5C)
        in escapes = 0)"

section \<open>Exactness of the word tests\<close>

text \<open>A word read as the integer of its bytes, lowest first; the tests are computed on the integers,
  where subtraction borrows without end, and carried to the words by truncation.\<close>

fun le_int :: "int list \<Rightarrow> int" where
  "le_int [] = 0"
| "le_int (b # bs) = b + 256 * le_int bs"

definition byte_ok :: "int \<Rightarrow> bool" where
  "byte_ok b \<longleftrightarrow> 0 \<le> b \<and> b < 256"

lemma low_byte: "byte_ok b \<Longrightarrow> b + 256 * x = concat_bit 8 b x"
  by (simp add: concat_bit_eq byte_ok_def take_bit_int_eq_self push_bit_eq_mult)

lemma bit_low_byte: "byte_ok b \<Longrightarrow> bit (b + 256 * x) n \<longleftrightarrow> (if n < 8 then bit b n else bit x (n - 8))"
  by (auto simp: low_byte bit_concat_bit_iff)

lemma byte_ok_bit: "byte_ok b \<Longrightarrow> 8 \<le> n \<Longrightarrow> \<not> bit b n"
  using bit_take_bit_iff [of 8 b n] by (simp add: byte_ok_def take_bit_int_eq_self)

lemma byte_ok_take: "byte_ok b \<longleftrightarrow> take_bit 8 b = b"
  by (simp add: byte_ok_def take_bit_int_eq_self_iff)

lemma byte_ok_ops [simp]:
  "byte_ok b \<Longrightarrow> byte_ok c \<Longrightarrow> byte_ok (b AND c)"
  "byte_ok b \<Longrightarrow> byte_ok c \<Longrightarrow> byte_ok (b XOR c)"
  by (simp_all add: byte_ok_take)

lemma and_low_byte:
  assumes "byte_ok b" "byte_ok c"
  shows "(b + 256 * x) AND (c + 256 * y) = (b AND c) + 256 * (x AND y)"
  by (rule bit_eqI) (simp add: bit_and_iff bit_low_byte assms)

lemma xor_low_byte:
  assumes "byte_ok b" "byte_ok c"
  shows "(b + 256 * x) XOR (c + 256 * y) = (b XOR c) + 256 * (x XOR y)"
  by (rule bit_eqI) (simp add: bit_xor_iff bit_low_byte assms)

lemma not_low_byte:
  assumes "byte_ok b"
  shows "NOT (b + 256 * x) = (255 - b) + 256 * NOT x"
  by (simp add: not_int_def algebra_simps)

lemma le_int_bounds:
  "list_all byte_ok bs \<Longrightarrow> 0 \<le> le_int bs \<and> le_int bs < 256 ^ length bs"
proof (induction bs)
  case (Cons b bs)
  then have "0 \<le> le_int bs" "le_int bs + 1 \<le> 256 ^ length bs" "byte_ok b" by auto
  then show ?case by (auto simp: byte_ok_def)
qed simp

lemma le_int_map2:
  assumes "list_all byte_ok bs" "list_all byte_ok cs" "length bs = length cs"
  shows le_int_and: "le_int bs AND le_int cs = le_int (map2 (AND) bs cs)"
    and le_int_xor: "le_int bs XOR le_int cs = le_int (map2 (XOR) bs cs)"
  using assms(3,1,2) by (induction bs cs rule: list_induct2) (simp_all add: and_low_byte xor_low_byte)

lemma le_int_eq_0: "list_all byte_ok bs \<Longrightarrow> le_int bs = 0 \<longleftrightarrow> list_all ((=) 0) bs"
proof (induction bs)
  case (Cons b bs)
  then have "0 \<le> b" by (simp add: byte_ok_def)
  moreover have "0 \<le> le_int bs" using Cons.prems le_int_bounds [of bs] by simp
  ultimately have "b + 256 * le_int bs = 0 \<longleftrightarrow> b = 0 \<and> le_int bs = 0" by linarith
  then show ?case using Cons by auto
qed simp

definition high_bits :: "nat \<Rightarrow> int" where "high_bits n = le_int (replicate n 0x80)"
definition each_byte :: "nat \<Rightarrow> int \<Rightarrow> int" where "each_byte n c = le_int (replicate n c)"

lemma and_power: "b AND 2 ^ n = (if bit b n then 2 ^ n else 0 :: int)"
  by (rule bit_eqI) (auto simp: bit_and_iff bit_exp_iff)

lemma byte_bit7:
  assumes "byte_ok b"
  shows "b AND 128 = (if b < 128 then 0 else 128)"
proof -
  from and_power [of b 7] have "b AND 128 = (if bit b 7 then 128 else 0)" by simp
  moreover have "bit b 7 \<longleftrightarrow> 128 \<le> b"
  proof (cases "b < 128")
    case True
    then have "b div 128 = 0" using assms by (simp add: byte_ok_def)
    then show ?thesis using True by (simp add: bit_iff_odd)
  next
    case False
    then have "b div 128 = 1" using assms by (simp add: byte_ok_def)
    then show ?thesis using False by (simp add: bit_iff_odd)
  qed
  ultimately show ?thesis by auto
qed

lemma le_int_high:
  assumes "list_all byte_ok bs"
  shows "le_int bs AND high_bits (length bs) = 0 \<longleftrightarrow> list_all (\<lambda>b. b < 128) bs"
  using assms
proof (induction bs)
  case (Cons b bs)
  have "0 \<le> le_int bs AND high_bits (length bs)" by (simp add: high_bits_def le_int_bounds byte_ok_def list_all_length)
  moreover have "le_int (b # bs) AND high_bits (length (b # bs))
      = (if b < 128 then 0 else 128) + 256 * (le_int bs AND high_bits (length bs))"
    using Cons.prems by (simp add: high_bits_def and_low_byte byte_bit7 byte_ok_def)
  ultimately show ?case using Cons by auto
qed (simp add: high_bits_def)

text \<open>Subtracting \<open>t\<close> from every byte borrows first at the lowest byte below \<open>t\<close>, and only there does
  the top bit of a byte appear that the byte did not have.\<close>

lemma has_less_exact:
  assumes "list_all byte_ok bs" "1 \<le> t" "t \<le> 128"
  shows "(le_int bs - each_byte (length bs) t) AND NOT (le_int bs) AND high_bits (length bs) = 0
    \<longleftrightarrow> list_all (\<lambda>b. t \<le> b) bs"
  using assms(1)
proof (induction bs)
  case (Cons b bs)
  let ?X = "le_int bs" and ?T = "each_byte (length bs) t" and ?H = "high_bits (length bs)"
  define D where "D = ?X - ?T"
  have IH: "D AND NOT ?X AND ?H = 0 \<longleftrightarrow> list_all (\<lambda>b. t \<le> b) bs"
    unfolding D_def using Cons by simp
  from Cons.prems have b: "byte_ok b" by simp
  have c: "byte_ok 128" "byte_ok (255 - b)" using b by (simp_all add: byte_ok_def)
  have expand: "le_int (b # bs) - each_byte (length (b # bs)) t = (b - t) + 256 * D"
    "high_bits (length (b # bs)) = 128 + 256 * ?H" "NOT (le_int (b # bs)) = (255 - b) + 256 * NOT ?X"
    using not_low_byte [OF b, of ?X] by (simp_all add: each_byte_def high_bits_def D_def)
  show ?case
  proof (cases "t \<le> b")
    case True
    then have d: "byte_ok (b - t)" using b assms by (simp add: byte_ok_def)
    have "(b - t) AND (255 - b) AND 128 = 0"
      using b d c assms by (simp add: byte_bit7)
    then have "(le_int (b # bs) - each_byte (length (b # bs)) t) AND NOT (le_int (b # bs))
        AND high_bits (length (b # bs)) = 256 * (D AND NOT ?X AND ?H)"
      unfolding expand by (simp add: and_low_byte c d)
    then show ?thesis using IH True by simp
  next
    case False
    define B where "B = b - t + 256"
    define E where "E = D - 1"
    from False have d: "byte_ok B" "128 \<le> B" using b assms by (simp_all add: byte_ok_def B_def)
    have shift: "(b - t) + 256 * D = B + 256 * E" by (simp add: B_def E_def)
    have "B AND (255 - b) AND 128 = 128" using False d c assms by (simp add: byte_bit7)
    then have "(le_int (b # bs) - each_byte (length (b # bs)) t) AND NOT (le_int (b # bs))
        AND high_bits (length (b # bs)) = 128 + 256 * (E AND NOT ?X AND ?H)"
      unfolding expand shift by (simp add: and_low_byte c d)
    moreover have "128 + 256 * k \<noteq> 0" for k :: int by presburger
    ultimately show ?thesis using False by simp
  qed
qed (simp add: high_bits_def each_byte_def)

text \<open>From the integers to the 64-bit words.\<close>

definition word_bytes :: "string \<Rightarrow> int list" where
  "word_bytes s = map (\<lambda>c. int (byte_of c)) s"

lemma word_bytes_ok [simp]: "list_all byte_ok (word_bytes s)"
  by (induction s) (auto simp: word_bytes_def byte_ok_def byte_of_def)

lemma length_word_bytes [simp]: "length (word_bytes s) = length s"
  by (simp add: word_bytes_def)

lemma little_endian_le_int: "little_endian s = word_of_int (le_int (word_bytes s))"
proof (induction s)
  case (Cons c s)
  have b: "byte_ok (int (byte_of c))" using word_bytes_ok [of "[c]"] by (simp add: word_bytes_def)
  have "int (byte_of c) + 256 * le_int (word_bytes s) = int (byte_of c) OR push_bit 8 (le_int (word_bytes s))"
    using b by (simp add: low_byte concat_bit_def byte_ok_take)
  then show ?case
    using Cons by (simp add: word_bytes_def of_int_or_eq of_int_push_bit)
qed (simp add: word_bytes_def)

lemma swar_constants:
  "swarHi = word_of_int (high_bits 8)" "swarLo = word_of_int (each_byte 8 1)"
  "swarLo * 0x20 = word_of_int (each_byte 8 0x20)"
  "swarQuoteAmpMask = word_of_int (each_byte 8 0xFB)" "swarQuoteAmpValue = word_of_int (each_byte 8 0x22)"
  "swarAngleMask = word_of_int (each_byte 8 0xFD)" "swarAngleValue = word_of_int (each_byte 8 0x3C)"
  "of_nat (byte_of (CHR 0x5C)) * swarLo = word_of_int (each_byte 8 0x5C)"
  by (simp_all add: swarHi_def swarLo_def high_bits_def each_byte_def swarQuoteAmpMask_def swarQuoteAmpValue_def
      swarAngleMask_def swarAngleValue_def byte_of_def numeral_eq_Suc)

lemma masked_zero: "(word_of_int (x AND high_bits 8) :: 64 word) = 0 \<longleftrightarrow> x AND high_bits 8 = 0"
proof -
  have h: "0 \<le> high_bits 8" "high_bits 8 < 2 ^ 64" by (simp_all add: high_bits_def numeral_eq_Suc)
  have "0 \<le> x AND high_bits 8" "x AND high_bits 8 < 2 ^ 64"
    using h AND_upper2' [OF h(1), of "2 ^ 64" x] by simp_all
  then have "uint (word_of_int (x AND high_bits 8) :: 64 word) = x AND high_bits 8"
    by (simp add: uint_word_of_int_eq take_bit_int_eq_self del: take_bit_and)
  then show ?thesis by (metis uint_0_eq word_of_int_0)
qed

lemma word_has_less:
  assumes "list_all byte_ok bs" "length bs = 8" "1 \<le> t" "t \<le> 128"
  shows "(word_of_int (le_int bs) - word_of_int (each_byte 8 t) :: 64 word) AND NOT (word_of_int (le_int bs)) AND swarHi = 0
    \<longleftrightarrow> list_all (\<lambda>b. t \<le> b) bs"
proof -
  have "(word_of_int (le_int bs) - word_of_int (each_byte 8 t) :: 64 word) AND NOT (word_of_int (le_int bs)) AND swarHi
      = word_of_int ((le_int bs - each_byte 8 t) AND NOT (le_int bs) AND high_bits 8)"
    by (simp add: swar_constants of_int_and_eq of_int_not_eq)
  then show ?thesis
    using masked_zero [of "(le_int bs - each_byte 8 t) AND NOT (le_int bs)"] has_less_exact [OF assms(1,3,4)] assms(2)
    by (simp add: and.assoc)
qed

lemma word_has_zero:
  assumes "list_all byte_ok bs" "length bs = 8"
  shows "swarHasZero (word_of_int (le_int bs)) = 0 \<longleftrightarrow> list_all (\<lambda>b. b \<noteq> 0) bs"
proof -
  have "list_all (\<lambda>b. 1 \<le> b) bs = list_all (\<lambda>b. b \<noteq> 0) bs"
    using assms(1) by (intro list.pred_cong) (auto simp: list_all_iff byte_ok_def)
  then show ?thesis
    using word_has_less [OF assms, of 1] by (simp add: swarHasZero_def swar_constants)
qed

lemma word_all_ascii:
  assumes "list_all byte_ok bs" "length bs = 8"
  shows "(word_of_int (le_int bs) :: 64 word) AND swarHi = 0 \<longleftrightarrow> list_all (\<lambda>b. b < 128) bs"
  using masked_zero [of "le_int bs"] le_int_high [OF assms(1)] assms(2)
  by (simp add: swar_constants of_int_and_eq)

lemma list_all_replicate: "list_all P (replicate n x) \<longleftrightarrow> n = 0 \<or> P x"
  by (simp add: list_all_iff set_replicate_conv_if)

lemma map2_replicate: "map2 f bs (replicate (length bs) c) = map (\<lambda>b. f b c) bs"
  by (induction bs) simp_all

lemma word_has_byte:
  assumes "list_all byte_ok bs" "length bs = 8" "byte_ok v"
  shows "swarHasZero (word_of_int (le_int bs) XOR word_of_int (each_byte 8 v)) = 0 \<longleftrightarrow> list_all (\<lambda>b. b \<noteq> v) bs"
proof -
  define cs where "cs = map (\<lambda>b. b XOR v) bs"
  have cs: "list_all byte_ok cs" "length cs = 8" using assms by (auto simp: cs_def list_all_iff)
  have "le_int bs XOR each_byte 8 v = le_int cs"
    unfolding each_byte_def cs_def using map2_replicate [of "(XOR)" bs v] assms
    by (simp add: le_int_xor list_all_replicate)
  then have "(word_of_int (le_int bs) :: 64 word) XOR word_of_int (each_byte 8 v) = word_of_int (le_int cs)"
    by (simp flip: of_int_xor_eq)
  moreover have "x XOR y = 0 \<longleftrightarrow> x = y" for x y :: int by (auto simp: bit_eq_iff bit_xor_iff)
  then have "list_all (\<lambda>b. b \<noteq> 0) cs \<longleftrightarrow> list_all (\<lambda>b. b \<noteq> v) bs"
    by (simp add: cs_def list_all_iff)
  ultimately show ?thesis using word_has_zero [OF cs] by simp
qed

lemma word_has_masked:
  assumes "list_all byte_ok bs" "length bs = 8" "byte_ok m" "byte_ok v"
  shows "swarHasMaskedByte (word_of_int (le_int bs)) (word_of_int (each_byte 8 m)) (word_of_int (each_byte 8 v)) = 0
    \<longleftrightarrow> list_all (\<lambda>b. b AND m \<noteq> v) bs"
proof -
  define cs where "cs = map (\<lambda>b. b AND m) bs"
  have cs: "list_all byte_ok cs" "length cs = 8" using assms by (auto simp: cs_def list_all_iff)
  have "le_int bs AND each_byte 8 m = le_int cs"
    unfolding each_byte_def cs_def using map2_replicate [of "(AND)" bs m] assms
    by (simp add: le_int_and list_all_replicate)
  then have "(word_of_int (le_int bs) :: 64 word) AND word_of_int (each_byte 8 m) = word_of_int (le_int cs)"
    by (simp flip: of_int_and_eq)
  then show ?thesis
    using word_has_byte [OF cs assms(4)] by (simp add: swarHasMaskedByte_def cs_def list_all_iff)
qed

text \<open>The bytes a JSON literal may hold verbatim, and the two pairs that one masked comparison finds.\<close>

definition raw_ascii :: "char \<Rightarrow> bool" where
  "raw_ascii c \<longleftrightarrow> byte_of c < 0x80 \<and> \<not> (byte_of c < 0x20 \<or> c = CHR 0x5C \<or> c = CHR 0x22 \<or> c = CHR ''<'' \<or> c = CHR ''>'' \<or> c = CHR ''&'')"

lemma byte_without_bit:
  assumes "byte_ok b" "m AND 2 ^ n = 0" "m OR 2 ^ n = 255"
  shows "b AND m = b - (if odd (b div 2 ^ n) then 2 ^ n else 0)"
proof -
  have "(b AND m) AND (b AND 2 ^ n) = 0" using assms(2) by (metis and.assoc and.left_commute bit.conj_zero_right)
  then have "(b AND m) + (b AND 2 ^ n) = (b AND m) OR (b AND 2 ^ n)" by (rule disjunctive_add_eq_or)
  also have "\<dots> = b AND 255" using assms(3) by (metis bit.conj_disj_distrib)
  also have "\<dots> = b" using assms(1) take_bit_eq_mask [of 8 b] by (simp add: byte_ok_take mask_eq_exp_minus_1)
  finally show ?thesis by (simp add: and_power bit_iff_odd)
qed

lemma and_mask_pairs:
  assumes "byte_ok b"
  shows "b AND 0xFB = 0x22 \<longleftrightarrow> b = 0x22 \<or> b = 0x26" "b AND 0xFD = 0x3C \<longleftrightarrow> b = 0x3C \<or> b = 0x3E"
proof -
  have "b AND 0xFB = b - (if odd (b div 4) then 4 else 0)" "b AND 0xFD = b - (if odd (b div 2) then 2 else 0)"
    using byte_without_bit [OF assms, of "0xFB" 2] byte_without_bit [OF assms, of "0xFD" 1] by simp_all
  then show "b AND 0xFB = 0x22 \<longleftrightarrow> b = 0x22 \<or> b = 0x26" "b AND 0xFD = 0x3C \<longleftrightarrow> b = 0x3C \<or> b = 0x3E"
    by (auto split: if_splits)
qed

lemma raw_ascii_int:
  "raw_ascii c \<longleftrightarrow> (let b = int (byte_of c) in
     b < 128 \<and> 32 \<le> b \<and> b AND 0xFB \<noteq> 0x22 \<and> b AND 0xFD \<noteq> 0x3C \<and> b \<noteq> 0x5C)"
proof -
  have ok: "byte_ok (int (byte_of c))" using word_bytes_ok [of "[c]"] by (simp add: word_bytes_def)
  have "c = d \<longleftrightarrow> int (byte_of c) = int (byte_of d)" for d by (simp add: byte_of_def)
  note this [of "CHR 0x5C"] this [of "CHR 0x22"] this [of "CHR ''<''"] this [of "CHR ''>''"] this [of "CHR ''&''"]
  then show ?thesis
    unfolding raw_ascii_def Let_def and_mask_pairs [OF ok] by (auto simp: byte_of_def)
qed

lemma or_zero_iff: "a OR b = 0 \<longleftrightarrow> a = 0 \<and> b = (0 :: 64 word)"
  by (auto simp: or_eq_0_iff)

lemma jsonRawChunkClean_exact:
  assumes "length s = 8"
  shows "jsonRawChunkClean (little_endian s) \<longleftrightarrow> list_all raw_ascii s"
proof -
  let ?bs = "word_bytes s"
  have len: "length ?bs = 8" using assms by simp
  note ok = word_bytes_ok [of s] len
  have b: "byte_ok 0xFB" "byte_ok 0x22" "byte_ok 0xFD" "byte_ok 0x3C" "byte_ok 0x5C" by (simp_all add: byte_ok_def)
  have "jsonRawChunkClean (little_endian s) \<longleftrightarrow>
    list_all (\<lambda>b. b < 128) ?bs \<and> list_all (\<lambda>b. 32 \<le> b) ?bs \<and> list_all (\<lambda>b. b AND 0xFB \<noteq> 0x22) ?bs
    \<and> list_all (\<lambda>b. b AND 0xFD \<noteq> 0x3C) ?bs \<and> list_all (\<lambda>b. b \<noteq> 0x5C) ?bs"
    unfolding jsonRawChunkClean_def Let_def or_zero_iff swarHasByte_def little_endian_le_int swar_constants(3-)
    using word_all_ascii [OF ok] word_has_less [OF ok, of "0x20"] word_has_masked [OF ok b(1,2)]
      word_has_masked [OF ok b(3,4)] word_has_byte [OF ok b(5)]
    by simp
  also have "\<dots> \<longleftrightarrow> list_all raw_ascii s"
    by (auto simp: raw_ascii_int Let_def word_bytes_def list_all_iff)
  finally show ?thesis .
qed

end
