(* ===== verification/Json_Read.thy ===== *)
theory Json_Read
  imports Json_Text
begin

text \<open>
  The client's side of a JSON literal: \<open>json_read\<close> reads a string literal as \<open>json.Unmarshal\<close>
  does, escapes and surrogate pairs included. It is the specification the encoder of \<open>Json_Text\<close>
  is measured against: what is written reads back as the value it was written from, each byte of
  malformed UTF-8 replaced by U+FFFD.
\<close>

section \<open>UTF-8 decodes what it encodes\<close>

lemma decode_parts:
  "x < 32 \<Longrightarrow> (192 + x) mod 32 = (x :: nat)" "x < 16 \<Longrightarrow> (224 + x) mod 16 = (x :: nat)"
  "x < 8 \<Longrightarrow> (240 + x) mod 8 = (x :: nat)" "y < 64 \<Longrightarrow> (128 + y) mod 64 = (y :: nat)"
  using mod_mult_self1 [of x 6 32] mod_mult_self1 [of x 14 16] mod_mult_self1 [of x 30 8] mod_mult_self1 [of y 2 64]
  by (simp_all add: add.commute)

lemma byte_split: "lo \<le> byte_of c \<Longrightarrow> \<exists>x. byte_of c = lo + x \<and> c = char_of (lo + x)"
  by (rule exI [of _ "byte_of c - lo"]) (simp add: byte_of_def)

lemma encode_two:
  assumes "2 \<le> x" "x < 32" "y < 64"
  shows "encode_rune (x * 64 + y) = bytes [192 + x, 128 + y]"
  using assms by (simp add: encode_rune_def)

lemma low_six: "(z :: nat) < 64 \<Longrightarrow> (k * 64 + z) mod 64 = z"
  using mod_mult_self1 [of z k 64] by (simp add: add.commute)

lemma encode_three:
  assumes r: "r = x * 4096 + y * 64 + z"
    and "x < 16" "y < 64" "z < 64" "x = 0 \<Longrightarrow> 32 \<le> y" "x = 13 \<Longrightarrow> y < 32"
  shows "encode_rune r = bytes [224 + x, 128 + y, 128 + z]"
proof -
  have "\<not> r < 0x800" using assms by (cases "x = 0") auto
  moreover have "r < 0x10000" using assms by linarith
  moreover have "\<not> ((0xD800 \<le> r \<and> r \<le> 0xDFFF) \<or> 0x10FFFF < r)"
    using assms by (cases "x < 13"; cases "x = 13") auto
  moreover have "r div 4096 = x" "r div 64 = x * 64 + y" using assms by simp_all
  moreover have "r mod 64 = z" using low_six [of z "x * 64 + y"] assms by (simp add: algebra_simps)
  ultimately show ?thesis using low_six [of y x] assms(3) unfolding encode_rune_def by auto
qed

lemma encode_four:
  assumes r: "r = w * 262144 + x * 4096 + y * 64 + z"
    and "w < 5" "x < 64" "y < 64" "z < 64" "w = 0 \<Longrightarrow> 16 \<le> x" "w = 4 \<Longrightarrow> x < 16"
  shows "encode_rune r = bytes [240 + w, 128 + x, 128 + y, 128 + z]"
proof -
  have "\<not> r < 0x10000" using assms by (cases "w = 0") auto
  moreover have "\<not> 0x10FFFF < r" using assms by (cases "w = 4") auto
  moreover have "r div 262144 = w" "r div 4096 = w * 64 + x" "r div 64 = (w * 64 + x) * 64 + y" using assms by simp_all
  moreover have "r mod 64 = z" using low_six [of z "(w * 64 + x) * 64 + y"] assms by (simp add: algebra_simps)
  ultimately show ?thesis
    using low_six [of x w] low_six [of y "w * 64 + x"] assms(3,4) unfolding encode_rune_def by simp
qed

lemma leading_two: "leading_byte b = Some (2, lo, hi) \<Longrightarrow> 0xC2 \<le> b \<and> b \<le> 0xDF \<and> lo = 0x80 \<and> hi = 0xBF"
  by (auto simp: leading_byte_def split: if_splits)

lemma leading_three:
  "leading_byte b = Some (3, lo, hi) \<Longrightarrow> 0xE0 \<le> b \<and> b \<le> 0xEF \<and> 0x80 \<le> lo \<and> hi \<le> 0xBF
    \<and> (b = 0xE0 \<longrightarrow> lo = 0xA0) \<and> (b = 0xED \<longrightarrow> hi = 0x9F)"
  by (auto simp: leading_byte_def split: if_splits)

lemma leading_four:
  "leading_byte b = Some (4, lo, hi) \<Longrightarrow> 0xF0 \<le> b \<and> b \<le> 0xF4 \<and> 0x80 \<le> lo \<and> hi \<le> 0xBF
    \<and> (b = 0xF0 \<longrightarrow> lo = 0x90) \<and> (b = 0xF4 \<longrightarrow> hi = 0x8F)"
  by (auto simp: leading_byte_def split: if_splits)

lemma leading_width: "leading_byte b = Some (n, lo, hi) \<Longrightarrow> n = 2 \<or> n = 3 \<or> n = 4"
  by (auto simp: leading_byte_def split: if_splits)

text \<open>The four shapes of a well-formed sequence.\<close>

lemma decode_cases:
  assumes "decode_rune (c # s) = (r, n)" "\<not> byte_of c < rune_self" "\<not> (r = rune_error \<and> n = 1)"
  obtains (two) x y where "n = 2" "r = x * 64 + y" "2 \<le> x" "x < 32" "y < 64" "take n (c # s) = bytes [192 + x, 128 + y]"
  | (three) x y z where "n = 3" "r = x * 4096 + y * 64 + z" "x < 16" "y < 64" "z < 64" "x = 0 \<Longrightarrow> 32 \<le> y" "x = 13 \<Longrightarrow> y < 32"
      "take n (c # s) = bytes [224 + x, 128 + y, 128 + z]"
  | (four) w x y z where "n = 4" "r = w * 262144 + x * 4096 + y * 64 + z" "w < 5" "x < 64" "y < 64" "z < 64"
      "w = 0 \<Longrightarrow> 16 \<le> x" "w = 4 \<Longrightarrow> x < 16" "take n (c # s) = bytes [240 + w, 128 + x, 128 + y, 128 + z]"
proof -
  have wide: "(byte_of c < rune_self) = False" using assms(2) by simp
  obtain m lo hi where lead: "leading_byte (byte_of c) = Some (m, lo, hi)"
    using assms by (auto simp: decode_rune_def Let_def split: option.splits)
  have len: "m \<le> length (c # s)" and second: "lo \<le> byte_of (s ! 0)" "byte_of (s ! 0) \<le> hi"
    using assms lead by (auto simp: decode_rune_def Let_def split: if_splits)
  have "\<not> length (c # s) < m" "\<not> (byte_of (s ! 0) < lo \<or> hi < byte_of (s ! 0))" using len second by simp_all
  note start = this wide lead
  have two_or_more: "m \<noteq> 2 \<Longrightarrow> \<not> m \<le> 2" "m = 4 \<Longrightarrow> \<not> m \<le> 3" using leading_width [OF lead] by auto
  have rest: "(c # s) ! 2 = s ! 1" "(c # s) ! 3 = s ! 2" "(c # s) ! 1 = s ! 0" "(c # s) ! 0 = c"
    by (simp_all add: eval_nat_numeral)
  have third: "continuation (byte_of (s ! 1))" if "m \<noteq> 2"
  proof (rule ccontr)
    assume "\<not> continuation (byte_of (s ! 1))"
    then have "decode_rune (c # s) = (rune_error, 1)"
      unfolding decode_rune_def Let_def rest using start two_or_more(1) [OF that] by simp
    then show False using assms(1,3) by simp
  qed
  have fourth: "continuation (byte_of (s ! 2))" if "m = 4"
  proof (rule ccontr)
    assume "\<not> continuation (byte_of (s ! 2))"
    then have "decode_rune (c # s) = (rune_error, 1)"
      unfolding decode_rune_def Let_def rest using start two_or_more(2) [OF that] third that by simp
    then show False using assms(1,3) by simp
  qed
  from leading_width [OF lead] show thesis
  proof (elim disjE)
    assume m: "m = 2"
    note b = leading_two [OF lead [unfolded m]]
    obtain a t where s: "s = a # t" using len m by (cases s) auto
    obtain x where x: "byte_of c = 192 + x" "c = char_of (192 + x)" using byte_split [of 192 c] b by auto
    obtain y where y: "byte_of a = 128 + y" "a = char_of (128 + y)" using byte_split [of 128 a] b second s by auto
    have bounds: "2 \<le> x" "x < 32" "y < 64" using b second s x(1) y(1) by auto
    have "r = x * 64 + y" "n = 2"
      using assms(1) start m s x(1) y(1) bounds unfolding decode_rune_def Let_def rest by (simp_all add: decode_parts)
    then show thesis using two [of x y] bounds s x(2) y(2) by (simp add: bytes_def)
  next
    assume m: "m = 3"
    note b = leading_three [OF lead [unfolded m]]
    obtain a d t where s: "s = a # d # t" using len m by (cases s; cases "tl s") auto
    have third: "continuation (byte_of d)" using third m s by simp
    have nths: "s ! 0 = a" "s ! 1 = d" using s by simp_all
    obtain x where x: "byte_of c = 224 + x" "c = char_of (224 + x)" using byte_split [of 224 c] b by auto
    obtain y where y: "byte_of a = 128 + y" "a = char_of (128 + y)" using byte_split [of 128 a] b second s by auto
    obtain z where z: "byte_of d = 128 + z" "d = char_of (128 + z)"
      using byte_split [of 128 d] third by (auto simp: continuation_def)
    have bounds: "x < 16" "y < 64" "z < 64" "x = 0 \<Longrightarrow> 32 \<le> y" "x = 13 \<Longrightarrow> y < 32"
      using b second s x(1) y(1) z(1) third by (auto simp: continuation_def)
    have "r = x * 4096 + y * 64 + z" "n = 3"
      using assms(1) start m x(1) y(1) z(1) bounds(1-3) third
      unfolding decode_rune_def Let_def rest nths by (simp_all add: decode_parts)
    then show thesis using three [of x y z] bounds s x(2) y(2) z(2) by (simp add: bytes_def)
  next
    assume m: "m = 4"
    note b = leading_four [OF lead [unfolded m]]
    obtain a d e t where s: "s = a # d # e # t" using len m by (cases s; cases "tl s"; cases "tl (tl s)") auto
    have nths: "s ! 0 = a" "s ! 1 = d" "s ! 2 = e" using s by simp_all
    have third: "continuation (byte_of d)" "continuation (byte_of e)" using third fourth m nths by simp_all
    obtain w where w: "byte_of c = 240 + w" "c = char_of (240 + w)" using byte_split [of 240 c] b by auto
    obtain x where x: "byte_of a = 128 + x" "a = char_of (128 + x)" using byte_split [of 128 a] b second s by auto
    obtain y where y: "byte_of d = 128 + y" "d = char_of (128 + y)"
      using byte_split [of 128 d] third by (auto simp: continuation_def)
    obtain z where z: "byte_of e = 128 + z" "e = char_of (128 + z)"
      using byte_split [of 128 e] third by (auto simp: continuation_def)
    have bounds: "w < 5" "x < 64" "y < 64" "z < 64" "w = 0 \<Longrightarrow> 16 \<le> x" "w = 4 \<Longrightarrow> x < 16"
      using b second s w(1) x(1) y(1) z(1) third by (auto simp: continuation_def)
    have "r = w * 262144 + x * 4096 + y * 64 + z" "n = 4"
      using assms(1) start m w(1) x(1) y(1) z(1) bounds(1-4) third
      unfolding decode_rune_def Let_def rest nths by (simp_all add: decode_parts)
    then show thesis using four [of w x y z] bounds s w(2) x(2) y(2) z(2)
      by (simp add: bytes_def)
  qed
qed

lemma decode_encode:
  assumes "decode_rune (c # s) = (r, n)" "\<not> byte_of c < rune_self" "\<not> (r = rune_error \<and> n = 1)"
  shows "encode_rune r = take n (c # s)"
  using assms by (cases rule: decode_cases) (simp_all add: encode_two encode_three encode_four)

lemma decoded_high:
  assumes "decode_rune (c # s) = (r, n)" "\<not> byte_of c < rune_self" "\<not> (r = rune_error \<and> n = 1)"
  shows "list_all (\<lambda>d. rune_self \<le> byte_of d) (take n (c # s))"
proof -
  have b: "byte_of (char_of (k :: nat)) = k" if "k < 256" for k
    using that by (simp add: byte_of_def take_bit_eq_mod)
  show ?thesis using assms by (cases rule: decode_cases) (simp_all add: bytes_def b rune_self_def)
qed

section \<open>The reader\<close>

definition hex_digit :: "char \<Rightarrow> nat option" where
  "hex_digit c =
     (let b = byte_of c in
      if 48 \<le> b \<and> b \<le> 57 then Some (b - 48)
      else if 97 \<le> b \<and> b \<le> 102 then Some (b - 87)
      else if 65 \<le> b \<and> b \<le> 70 then Some (b - 55)
      else None)"

definition hex4 :: "string \<Rightarrow> (nat \<times> string) option" where
  "hex4 s =
     (if length s < 4 then None
      else case (hex_digit (s ! 0), hex_digit (s ! 1), hex_digit (s ! 2), hex_digit (s ! 3)) of
        (Some a, Some b, Some c, Some d) \<Rightarrow> Some (((a * 16 + b) * 16 + c) * 16 + d, drop 4 s)
      | _ \<Rightarrow> None)"

text \<open>What follows a backslash. A high surrogate is completed by an escaped low one; an unpaired
  surrogate reads as U+FFFD.\<close>

definition json_unescape :: "string \<Rightarrow> (string \<times> string) option" where
  "json_unescape s =
     (case s of [] \<Rightarrow> None
      | e # t \<Rightarrow>
        if e = quote \<or> e = backslash \<or> e = CHR ''/'' then Some ([e], t)
        else if e = CHR ''b'' then Some (bytes [8], t)
        else if e = CHR ''f'' then Some (bytes [12], t)
        else if e = CHR ''n'' then Some (bytes [10], t)
        else if e = CHR ''r'' then Some (bytes [13], t)
        else if e = CHR ''t'' then Some (bytes [9], t)
        else if e = CHR ''u'' then
          (case hex4 t of None \<Rightarrow> None
           | Some (h, t1) \<Rightarrow>
             if 0xD800 \<le> h \<and> h \<le> 0xDFFF then
               (case (if has_prefix t1 (backslash # ''u'') then hex4 (drop 2 t1) else None) of
                  Some (l, t2) \<Rightarrow>
                    if h \<le> 0xDBFF \<and> 0xDC00 \<le> l \<and> l \<le> 0xDFFF
                    then Some (encode_rune (0x10000 + (h - 0xD800) * 1024 + (l - 0xDC00)), t2)
                    else Some (encode_rune rune_error, t1)
                | None \<Rightarrow> Some (encode_rune rune_error, t1))
             else Some (encode_rune h, t1))
        else None)"

lemma hex4_shorter: "hex4 s = Some (h, t) \<Longrightarrow> length t < length s"
  by (auto simp: hex4_def split: if_splits option.splits)

lemma json_unescape_shorter: "json_unescape s = Some (v, t) \<Longrightarrow> length t < length s"
  by (auto simp: json_unescape_def split: list.splits if_splits option.splits prod.splits dest!: hex4_shorter)

text \<open>The characters of a literal up to its closing quote, and the text that follows it.\<close>

function json_chars :: "string \<Rightarrow> (string \<times> string) option" where
  "json_chars s =
     (case s of [] \<Rightarrow> None
      | c # t \<Rightarrow>
        if c = quote then Some ([], t)
        else if byte_of c < 0x20 then None
        else if c = backslash then
          (case json_unescape t of None \<Rightarrow> None
           | Some (u, t1) \<Rightarrow> map_option (\<lambda>(v, t2). (u @ v, t2)) (json_chars t1))
        else map_option (\<lambda>(v, t1). (c # v, t1)) (json_chars t))"
  by pat_completeness auto
termination
  by (relation "measure length") (auto dest!: json_unescape_shorter)

declare json_chars.simps [simp del]

definition json_read :: "string \<Rightarrow> (string \<times> string) option" where
  "json_read s = (case s of [] \<Rightarrow> None | c # t \<Rightarrow> if c = quote then json_chars t else None)"

abbreviation prepend :: "string \<Rightarrow> (string \<times> string) option \<Rightarrow> (string \<times> string) option" where
  "prepend u x \<equiv> map_option (\<lambda>(v, t). (u @ v, t)) x"

lemma json_chars_copy:
  "0x20 \<le> byte_of c \<Longrightarrow> c \<noteq> quote \<Longrightarrow> c \<noteq> backslash \<Longrightarrow> json_chars (c # t) = prepend [c] (json_chars t)"
  by (subst json_chars.simps) simp

lemma json_chars_escape:
  "json_unescape (u @ t) = Some (v, t) \<Longrightarrow> json_chars (backslash # u @ t) = prepend v (json_chars t)"
  by (subst json_chars.simps) (simp add: backslash_def quote_def byte_of_def)

lemma hex_digit_inverse: "k < 16 \<Longrightarrow> hex_digit (jsonHexDigits ! k) = Some k"
proof -
  have "list_all (\<lambda>k. hex_digit (jsonHexDigits ! k) = Some k) [0..<16]" by code_simp
  then show "k < 16 \<Longrightarrow> ?thesis" by (simp add: list_all_iff)
qed

lemma char_of_byte_of: "char_of (byte_of c) = c"
  by (simp add: byte_of_def)

lemma unescape_byte:
  assumes "byte_of c < rune_self" "escape_byte c = backslash # u"
  shows "json_unescape (u @ t) = Some ([c], t)"
proof -
  have c: "c = char_of (byte_of c)" by (simp add: byte_of_def)
  have u: "u = drop 1 (escape_byte c)" using assms by simp
  have esc: "hex4 ([CHR ''0'', CHR ''0'', jsonHexDigits ! (byte_of c div 16), jsonHexDigits ! (byte_of c mod 16)] @ t)
      = Some (byte_of c, t)"
    using assms(1) by (simp add: hex4_def hex_digit_inverse rune_self_def) (simp add: hex_digit_def byte_of_def)
  have low: "encode_rune (byte_of c) = [c]"
    using assms(1) by (simp add: encode_rune_def rune_self_def bytes_def char_of_byte_of)
  consider "c = backslash \<or> c = quote" | "byte_of c \<in> {8, 9, 10, 12, 13}"
    | "\<not> (c = backslash \<or> c = quote)" "byte_of c \<notin> {8, 9, 10, 12, 13}" by blast
  then show ?thesis
  proof cases
    case 1
    then show ?thesis by (auto simp: u escape_byte_def Let_def json_unescape_def)
  next
    case 2
    then have "\<not> (c = backslash \<or> c = quote)" by (auto simp: backslash_def quote_def byte_of_def)
    then show ?thesis using 2 c by (auto simp: u escape_byte_def Let_def json_unescape_def bytes_def quote_def backslash_def)
  next
    case 3
    then have "escape_byte c = backslash # CHR ''u'' # [CHR ''0'', CHR ''0'', jsonHexDigits ! (byte_of c div 16), jsonHexDigits ! (byte_of c mod 16)]"
      by (simp add: escape_byte_def Let_def)
    then show ?thesis
      using esc low assms(1) by (simp add: u json_unescape_def quote_def backslash_def rune_self_def)
  qed
qed

section \<open>What is written reads back\<close>

lemma to_valid_Nil [simp]: "to_valid [] = []"
  by (simp add: to_valid.simps)

lemma to_valid_ascii: "byte_of c < rune_self \<Longrightarrow> to_valid (c # s) = c # to_valid s"
  by (subst to_valid.simps) (simp add: malformed_def decode_rune_def rune_self_def rune_error_def)

lemma to_valid_rune:
  assumes "decode_rune (c # s) = (r, n)"
  shows "to_valid (c # s) = (if r = rune_error \<and> n = 1 then encode_rune rune_error else take n (c # s)) @ to_valid (drop n (c # s))"
  using assms by (subst to_valid.simps) (auto simp: malformed_def)

lemma json_chars_high: "list_all (\<lambda>d. rune_self \<le> byte_of d) u \<Longrightarrow> json_chars (u @ t) = prepend u (json_chars t)"
proof (induction u)
  case (Cons c u)
  then have "0x20 \<le> byte_of c" "c \<noteq> quote" "c \<noteq> backslash" by (auto simp: rune_self_def quote_def backslash_def byte_of_def)
  then show ?case using Cons by (simp add: json_chars_copy option.map_comp comp_def case_prod_beta)
qed (simp add: case_prod_beta option.map_id)

lemma unescape_rune:
  "json_unescape (''ufffd'' @ t) = Some (encode_rune rune_error, t)"
  "json_unescape (''u2028'' @ t) = Some (encode_rune 0x2028, t)"
  "json_unescape (''u2029'' @ t) = Some (encode_rune 0x2029, t)"
proof -
  have "hex4 (''fffd'' @ t) = Some (rune_error, t)" "hex4 (''2028'' @ t) = Some (0x2028, t)" "hex4 (''2029'' @ t) = Some (0x2029, t)"
    by (simp_all add: hex4_def hex_digit_def byte_of_def rune_error_def)
  then show "json_unescape (''ufffd'' @ t) = Some (encode_rune rune_error, t)"
    "json_unescape (''u2028'' @ t) = Some (encode_rune 0x2028, t)"
    "json_unescape (''u2029'' @ t) = Some (encode_rune 0x2029, t)"
    by (simp_all add: json_unescape_def quote_def backslash_def rune_error_def)
qed

lemma json_chars_body: "json_chars (json_body v @ quote # t) = Some (to_valid v, t)"
proof (induction v rule: rune_induct)
  case Nil
  show ?case by (simp add: json_chars.simps)
next
  case (Ascii c s)
  show ?case
  proof (cases "raw_ascii c")
    case True
    then show ?thesis
      using Ascii json_chars_copy [of c "json_body s @ quote # t"] by (simp add: json_body_ascii to_valid_ascii raw_ascii_iff)
  next
    case False
    have u: "escape_byte c = backslash # tl (escape_byte c)" by (simp add: escape_byte_def Let_def)
    show ?thesis
      using False Ascii json_chars_escape [OF unescape_byte [OF Ascii(1) u], of "json_body s @ quote # t"]
      unfolding json_body_ascii [OF Ascii(1)] by (subst u) (simp add: to_valid_ascii)
  qed
next
  case (Rune c s r n)
  note body = json_body_rune [OF Rune(1,2)] and valid = to_valid_rune [OF Rune(2)]
  let ?tl = "json_body (drop n (c # s)) @ quote # t"
  consider (bad) "r = rune_error \<and> n = 1" | (sep) "\<not> (r = rune_error \<and> n = 1)" "r = 0x2028 \<or> r = 0x2029"
    | (good) "\<not> (r = rune_error \<and> n = 1)" "\<not> (r = 0x2028 \<or> r = 0x2029)" by blast
  then show ?case
  proof cases
    case bad
    then show ?thesis using Rune(5) json_chars_escape [OF unescape_rune(1), of ?tl] by (simp add: body valid)
  next
    case sep
    then show ?thesis
      using Rune(5) json_chars_escape [OF unescape_rune(2), of ?tl] json_chars_escape [OF unescape_rune(3), of ?tl]
        decode_encode [OF Rune(2,1) sep(1)] by (auto simp: body valid)
  next
    case good
    have "json_chars (take n (c # s) @ ?tl) = prepend (take n (c # s)) (json_chars ?tl)"
      by (rule json_chars_high [OF decoded_high [OF Rune(2,1) good(1)]])
    then show ?thesis using good Rune(5) by (auto simp: body valid)
  qed
qed

lemma json_read_quoted: "json_read ((quote # json_body v @ [quote]) @ t) = Some (to_valid v, t)"
  by (simp add: json_read_def json_chars_body)

end
