(* ===== verification/Json_Frames.thy ===== *)
theory Json_Frames
  imports Json_Read
begin

text \<open>
  The frame builders of the streamed answer (\<open>internal/handler/sse_frame.go\<close>): the events of the
  Anthropic protocol, its in-band error and the OpenAI one. A builder pastes literals, numbers
  (\<open>strconv.AppendInt\<close>) and quoted strings into caller-owned scratch space. The client's side is
  \<open>json_value\<close>, a reader of compact JSON; the lemmas show that it reads every frame back as the
  object the frame stands for.
\<close>

section \<open>The builders\<close>

definition and_then :: "'e + 'a \<Rightarrow> ('a \<Rightarrow> 'e + 'b) \<Rightarrow> 'e + 'b" where
  "and_then x f = (case x of Inl e \<Rightarrow> Inl e | Inr v \<Rightarrow> f v)"

lemma and_then_Inr [simp]: "and_then (Inr v) f = f v"
  by (simp add: and_then_def)

definition appendSSEContentBlockStartToolUse :: "string \<Rightarrow> int \<Rightarrow> string \<Rightarrow> string \<Rightarrow> string + string" where
  "appendSSEContentBlockStartToolUse dst index ident name =
     and_then (appendJSONBytes (dst @ ''{\"type\":\"content_block_start\",\"index\":'' @ itoa index
         @ '',\"content_block\":{\"type\":\"tool_use\",\"id\":'') ident) (\<lambda>dst.
     and_then (appendJSONBytes (dst @ '',\"name\":'') name) (\<lambda>dst.
     Inr (dst @ '',\"input\":{}}}'')))"

definition appendSSEMessageStart :: "string \<Rightarrow> string \<Rightarrow> string \<Rightarrow> int \<Rightarrow> int \<Rightarrow> string + string" where
  "appendSSEMessageStart dst msgID model inputTokens outputTokens =
     and_then (appendJSONBytes (dst @ ''{\"type\":\"message_start\",\"message\":{\"id\":'') msgID) (\<lambda>dst.
     and_then (appendJSONBytes (dst @ '',\"type\":\"message\",\"role\":\"assistant\",\"content\":[],\"model\":'') model) (\<lambda>dst.
     Inr (dst @ '',\"usage\":{\"input_tokens\":'' @ itoa inputTokens @ '',\"output_tokens\":'' @ itoa outputTokens @ ''}}}'')))"

definition appendSSEContentBlockStartText :: "string \<Rightarrow> int \<Rightarrow> string + string" where
  "appendSSEContentBlockStartText dst index =
     Inr (dst @ ''{\"type\":\"content_block_start\",\"index\":'' @ itoa index
       @ '',\"content_block\":{\"type\":\"text\",\"text\":\"\"}}'')"

definition appendSSEContentBlockStartThinking :: "string \<Rightarrow> int \<Rightarrow> string \<Rightarrow> string + string" where
  "appendSSEContentBlockStartThinking dst index signature =
     and_then (appendJSONBytes (dst @ ''{\"type\":\"content_block_start\",\"index\":'' @ itoa index
         @ '',\"content_block\":{\"type\":\"thinking\",\"thinking\":\"\",\"signature\":'') signature) (\<lambda>dst.
     Inr (dst @ ''}}''))"

definition appendSSEContentBlockDeltaInputJSON :: "string \<Rightarrow> int \<Rightarrow> string \<Rightarrow> string + string" where
  "appendSSEContentBlockDeltaInputJSON dst index partialJSON =
     and_then (appendJSONBytes (dst @ ''{\"type\":\"content_block_delta\",\"index\":'' @ itoa index
         @ '',\"delta\":{\"type\":\"input_json_delta\",\"partial_json\":'') partialJSON) (\<lambda>dst.
     Inr (dst @ ''}}''))"

definition appendSSEContentBlockDeltaText :: "string \<Rightarrow> int \<Rightarrow> string \<Rightarrow> string + string" where
  "appendSSEContentBlockDeltaText dst index txt =
     and_then (appendJSONBytes (dst @ ''{\"type\":\"content_block_delta\",\"index\":'' @ itoa index
         @ '',\"delta\":{\"type\":\"text_delta\",\"text\":'') txt) (\<lambda>dst.
     Inr (dst @ ''}}''))"

definition appendSSEContentBlockDeltaThinking :: "string \<Rightarrow> int \<Rightarrow> string \<Rightarrow> string + string" where
  "appendSSEContentBlockDeltaThinking dst index thinking =
     and_then (appendJSONBytes (dst @ ''{\"type\":\"content_block_delta\",\"index\":'' @ itoa index
         @ '',\"delta\":{\"type\":\"thinking_delta\",\"thinking\":'') thinking) (\<lambda>dst.
     Inr (dst @ ''}}''))"

definition appendSSEContentBlockStop :: "string \<Rightarrow> int \<Rightarrow> string + string" where
  "appendSSEContentBlockStop dst index =
     Inr (dst @ ''{\"type\":\"content_block_stop\",\"index\":'' @ itoa index @ ''}'')"

definition appendSSEMessageDelta :: "string \<Rightarrow> string \<Rightarrow> int \<Rightarrow> string + string" where
  "appendSSEMessageDelta dst stopReason outputTokens =
     and_then (appendJSONBytes (dst @ ''{\"type\":\"message_delta\",\"delta\":{\"stop_reason\":'') stopReason) (\<lambda>dst.
     Inr (dst @ ''},\"usage\":{\"output_tokens\":'' @ itoa outputTokens @ ''}}''))"

definition marshalSSEMessageStartBytes :: "string \<Rightarrow> string \<Rightarrow> int \<Rightarrow> int \<Rightarrow> string + string" where
  "marshalSSEMessageStartBytes msgID model inputTokens outputTokens = appendSSEMessageStart [] msgID model inputTokens outputTokens"

definition marshalSSEContentBlockStartTextBytes :: "int \<Rightarrow> string + string" where
  "marshalSSEContentBlockStartTextBytes index = appendSSEContentBlockStartText [] index"

definition marshalSSEContentBlockDeltaTextBytes :: "int \<Rightarrow> string \<Rightarrow> string + string" where
  "marshalSSEContentBlockDeltaTextBytes index txt = appendSSEContentBlockDeltaText [] index txt"

definition marshalSSEContentBlockStopBytes :: "int \<Rightarrow> string + string" where
  "marshalSSEContentBlockStopBytes index = appendSSEContentBlockStop [] index"

definition marshalSSEMessageDeltaBytes :: "string \<Rightarrow> int \<Rightarrow> string + string" where
  "marshalSSEMessageDeltaBytes stopReason outputTokens = appendSSEMessageDelta [] stopReason outputTokens"

definition marshalSSEMessageStopBytes :: "string + string" where
  "marshalSSEMessageStopBytes = Inr ''{\"type\":\"message_stop\"}''"

definition appendAnthropicError :: "string \<Rightarrow> string \<Rightarrow> string \<Rightarrow> string + string" where
  "appendAnthropicError dst code message =
     and_then (appendJSONBytes (dst @ ''{\"type\":\"error\",\"error\":{\"type\":'') code) (\<lambda>dst.
     and_then (appendJSONBytes (dst @ '',\"message\":'') message) (\<lambda>dst.
     Inr (dst @ ''}}'')))"

definition marshalAnthropicErrorBytes :: "string \<Rightarrow> string \<Rightarrow> string + string" where
  "marshalAnthropicErrorBytes code message = appendAnthropicError [] code message"

definition appendOpenAIError :: "string \<Rightarrow> string \<Rightarrow> string \<Rightarrow> string + string" where
  "appendOpenAIError dst code message =
     and_then (appendJSONBytes (dst @ ''{\"error\":{\"message\":'') message) (\<lambda>dst.
     and_then (appendJSONBytes (dst @ '',\"type\":'') code) (\<lambda>dst.
     and_then (appendJSONBytes (dst @ '',\"code\":'') code) (\<lambda>dst.
     Inr (dst @ ''}}''))))"

definition marshalOpenAIErrorBytes :: "string \<Rightarrow> string \<Rightarrow> string + string" where
  "marshalOpenAIErrorBytes code message = appendOpenAIError [] code message"

section \<open>JSON values\<close>

datatype json = JString string | JInt int | JArray "json list" | JObject "(string \<times> json) list"

definition quoted :: "string \<Rightarrow> string" where
  "quoted v = quote # json_body v @ [quote]"

text \<open>The compact rendering of a value, members in order, as \<open>json.Marshal\<close> renders a struct.\<close>

fun sep :: "string list \<Rightarrow> string" where
  "sep [] = []"
| "sep [x] = x"
| "sep (x # y # xs) = x @ '','' @ sep (y # xs)"

fun json_text :: "json \<Rightarrow> string" where
  "json_text (JString s) = quoted s"
| "json_text (JInt i) = itoa i"
| "json_text (JArray vs) = ''['' @ sep (map json_text vs) @ '']''"
| "json_text (JObject ms) = ''{'' @ sep (map (\<lambda>(k, v). quoted k @ '':'' @ json_text v) ms) @ ''}''"

lemma appendJSONBytes_quoted: "appendJSONBytes dst v = Inr (dst @ quoted v)"
  by (simp add: appendJSONBytes_eq quoted_def)

section \<open>Reading values\<close>

text \<open>The fuel bounds the nesting; the length of the text is always enough.\<close>

definition read_int :: "char \<Rightarrow> string \<Rightarrow> int" where
  "read_int c ds = (if c = CHR ''-'' then - digits_value ds else digits_value (c # ds))"

fun json_value :: "nat \<Rightarrow> string \<Rightarrow> (json \<times> string) option"
  and json_elements :: "nat \<Rightarrow> string \<Rightarrow> (json list \<times> string) option"
  and json_members :: "nat \<Rightarrow> string \<Rightarrow> ((string \<times> json) list \<times> string) option"
where
  "json_value 0 s = None"
| "json_value (Suc n) s =
     (case s of [] \<Rightarrow> None
      | c # t \<Rightarrow>
        if c = quote then map_option (\<lambda>(v, r). (JString v, r)) (json_read s)
        else if c = CHR ''{'' then
          (if take 1 t = ''}'' then Some (JObject [], drop 1 t)
           else map_option (\<lambda>(ms, r). (JObject ms, r)) (json_members n t))
        else if c = CHR ''['' then
          (if take 1 t = '']'' then Some (JArray [], drop 1 t)
           else map_option (\<lambda>(vs, r). (JArray vs, r)) (json_elements n t))
        else if c = CHR ''-'' \<or> is_digit c then Some (JInt (read_int c (takeWhile is_digit t)), dropWhile is_digit t)
        else None)"
| "json_elements 0 s = None"
| "json_elements (Suc n) s =
     (case json_value n s of None \<Rightarrow> None
      | Some (v, r) \<Rightarrow>
        if take 1 r = '','' then map_option (\<lambda>(vs, r). (v # vs, r)) (json_elements n (drop 1 r))
        else if take 1 r = '']'' then Some ([v], drop 1 r) else None)"
| "json_members 0 s = None"
| "json_members (Suc n) s =
     (case json_read s of None \<Rightarrow> None
      | Some (k, r) \<Rightarrow>
        if take 1 r \<noteq> '':'' then None
        else case json_value n (drop 1 r) of None \<Rightarrow> None
          | Some (v, r) \<Rightarrow>
            if take 1 r = '','' then map_option (\<lambda>(ms, r). ((k, v) # ms, r)) (json_members n (drop 1 r))
            else if take 1 r = ''}'' then Some ([(k, v)], drop 1 r) else None)"

definition json_parse :: "string \<Rightarrow> json option" where
  "json_parse s = (case json_value (length s) s of Some (v, []) \<Rightarrow> Some v | _ \<Rightarrow> None)"

fun json_valid :: "json \<Rightarrow> json" where
  "json_valid (JString s) = JString (to_valid s)"
| "json_valid (JInt i) = JInt i"
| "json_valid (JArray vs) = JArray (map json_valid vs)"
| "json_valid (JObject ms) = JObject (map (\<lambda>(k, v). (to_valid k, json_valid v)) ms)"

definition number_ends :: "string \<Rightarrow> bool" where
  "number_ends r \<longleftrightarrow> r = [] \<or> \<not> is_digit (hd r)"

lemma number_ends_Cons [simp]: "number_ends (c # r) \<longleftrightarrow> \<not> is_digit c" "number_ends []"
  by (simp_all add: number_ends_def)

lemma json_read_quoted' [simp]: "json_read (quoted v @ r) = Some (to_valid v, r)"
  using json_read_quoted [of v r] by (simp add: quoted_def)

lemma quoted_Cons: "quoted v = quote # json_body v @ [quote]" "quote = CHR 0x22"
  by (simp_all add: quoted_def quote_def)

lemma takeWhile_digits:
  "list_all is_digit ds \<Longrightarrow> number_ends r \<Longrightarrow> takeWhile is_digit (ds @ r) = ds \<and> dropWhile is_digit (ds @ r) = r"
  by (cases r) (simp_all add: takeWhile_append2 dropWhile_append2 list_all_iff)

lemma digit_class: "is_digit c \<Longrightarrow> c \<noteq> quote \<and> c \<noteq> CHR ''{'' \<and> c \<noteq> CHR ''['' \<and> c \<noteq> CHR ''-''"
  by (auto simp: is_digit_def quote_def byte_of_def)

lemma json_value_int: "number_ends r \<Longrightarrow> json_value (Suc n) (itoa i @ r) = Some (JInt i, r)"
proof (cases "i < 0")
  case True
  assume r: "number_ends r"
  note d = nat_digits_value [of "nat (- i)"]
  show ?thesis
    using True d takeWhile_digits [OF _ r, of "nat_digits (nat (- i))"]
    by (simp add: itoa_def read_int_def quote_def)
next
  case False
  assume r: "number_ends r"
  note d = nat_digits_value [of "nat i"]
  then obtain c ds where cs: "nat_digits (nat i) = c # ds" by (cases "nat_digits (nat i)") auto
  then have "is_digit c" "list_all is_digit ds" "digits_value (c # ds) = i" using d False by simp_all
  then show ?thesis
    using False cs takeWhile_digits [OF _ r, of ds] digit_class [of c] by (simp add: itoa_def read_int_def)
qed

definition reads_back :: "json \<Rightarrow> bool" where
  "reads_back v \<longleftrightarrow> (\<forall>n r. length (json_text v) \<le> n \<longrightarrow> number_ends r \<longrightarrow>
     json_value n (json_text v @ r) = Some (json_valid v, r))"

lemma reads_backD:
  "reads_back v \<Longrightarrow> length (json_text v) \<le> n \<Longrightarrow> number_ends r \<Longrightarrow> json_value n (json_text v @ r) = Some (json_valid v, r)"
  by (simp add: reads_back_def)

lemma json_punctuation [simp]:
  "CHR ''{'' \<noteq> quote" "CHR ''['' \<noteq> quote" "CHR '','' \<noteq> quote" "CHR '']'' \<noteq> quote" "CHR ''}'' \<noteq> quote"
  "\<not> is_digit (CHR '','')" "\<not> is_digit (CHR '']'')" "\<not> is_digit (CHR ''}'')"
  by (simp_all add: quote_def is_digit_def byte_of_def)

lemma members_back:
  assumes "ms \<noteq> []" "\<And>k v. (k, v) \<in> set ms \<Longrightarrow> reads_back v"
    and "length (sep (map (\<lambda>(k, v). quoted k @ '':'' @ json_text v) ms)) < n"
  shows "json_members n (sep (map (\<lambda>(k, v). quoted k @ '':'' @ json_text v) ms) @ CHR ''}'' # r)
    = Some (map (\<lambda>(k, v). (to_valid k, json_valid v)) ms, r)"
  using assms
proof (induction ms arbitrary: n)
  case (Cons m ms)
  obtain k v where m: "m = (k, v)" by fastforce
  obtain l where n: "n = Suc l" using Cons.prems(3) by (cases n) auto
  have v: "reads_back v" using Cons.prems(2) [of k v] m by simp
  show ?case
  proof (cases ms)
    case Nil
    then have "length (json_text v) \<le> l" using Cons.prems(3) by (simp add: m n)
    then show ?thesis using reads_backD [OF v, of l "CHR ''}'' # r"] Nil by (simp add: m n)
  next
    case (Cons m' ms')
    then have len: "length (json_text v) \<le> l"
      "length (sep (map (\<lambda>(k, v). quoted k @ '':'' @ json_text v) ms)) < l"
      using Cons.prems(3) by (simp_all add: m n)
    let ?rest = "sep (map (\<lambda>(k, v). quoted k @ '':'' @ json_text v) ms) @ CHR ''}'' # r"
    have "json_value l (json_text v @ CHR '','' # ?rest) = Some (json_valid v, CHR '','' # ?rest)"
      by (rule reads_backD [OF v len(1)]) simp
    moreover have "json_members l ?rest = Some (map (\<lambda>(k, v). (to_valid k, json_valid v)) ms, r)"
      by (rule Cons.IH [OF _ _ len(2)]) (use Cons Cons.prems in auto)
    ultimately show ?thesis using Cons by (simp add: m n)
  qed
qed simp

lemma elements_back:
  assumes "vs \<noteq> []" "\<And>v. v \<in> set vs \<Longrightarrow> reads_back v" "length (sep (map json_text vs)) < n"
  shows "json_elements n (sep (map json_text vs) @ CHR '']'' # r) = Some (map json_valid vs, r)"
  using assms
proof (induction vs arbitrary: n)
  case (Cons v vs)
  obtain l where n: "n = Suc l" using Cons.prems(3) by (cases n) auto
  have v: "reads_back v" using Cons.prems(2) by simp
  show ?case
  proof (cases vs)
    case Nil
    then have "length (json_text v) \<le> l" using Cons.prems(3) by (simp add: n)
    then show ?thesis using reads_backD [OF v, of l "CHR '']'' # r"] Nil by (simp add: n)
  next
    case (Cons v' vs')
    then have len: "length (json_text v) \<le> l" "length (sep (map json_text vs)) < l"
      using Cons.prems(3) by (simp_all add: n)
    let ?rest = "sep (map json_text vs) @ CHR '']'' # r"
    have "json_value l (json_text v @ CHR '','' # ?rest) = Some (json_valid v, CHR '','' # ?rest)"
      by (rule reads_backD [OF v len(1)]) simp
    moreover have "json_elements l ?rest = Some (map json_valid vs, r)"
      by (rule Cons.IH [OF _ _ len(2)]) (use Cons Cons.prems in auto)
    ultimately show ?thesis using Cons by (simp add: n)
  qed
qed simp

lemma json_text_starts: "take 1 (json_text v @ r) \<noteq> '']''"
proof (cases v)
  case (JInt i)
  note d = nat_digits_value [of "nat i"]
  show ?thesis
  proof (cases "i < 0")
    case False
    obtain c cs where "nat_digits (nat i) = c # cs" using d by (cases "nat_digits (nat i)") auto
    then show ?thesis using d False JInt by (auto simp: itoa_def)
  qed (simp add: JInt itoa_def)
qed (simp_all add: quoted_def quote_def)

lemma json_reads_back: "reads_back v"
proof (induction v)
  case (JString x)
  show ?case unfolding reads_back_def
  proof (intro allI impI)
    fix n r
    assume "length (json_text (JString x)) \<le> n"
    then obtain l where "n = Suc l" by (cases n) (auto simp: quoted_def)
    moreover have "json_read (quote # json_body x @ quote # r) = Some (to_valid x, r)"
      using json_read_quoted' [of x r] by (simp add: quoted_def)
    ultimately show "json_value n (json_text (JString x) @ r) = Some (json_valid (JString x), r)"
      by (simp add: quoted_def)
  qed
next
  case (JInt i)
  have "itoa i \<noteq> []" using nat_digits_value [of "nat i"] by (simp add: itoa_def)
  then show ?case unfolding reads_back_def
    by (metis json_text.simps(2) json_valid.simps(2) json_value_int le_zero_eq length_0_conv not0_implies_Suc)
next
  case (JArray vs)
  show ?case unfolding reads_back_def
  proof (intro allI impI)
    fix n r
    assume len: "length (json_text (JArray vs)) \<le> n"
    then obtain l where n: "n = Suc l" by (cases n) auto
    show "json_value n (json_text (JArray vs) @ r) = Some (json_valid (JArray vs), r)"
    proof (cases vs)
      case (Cons w ws)
      have first: "take 1 (sep (map json_text vs) @ x) \<noteq> '']''" for x
        using json_text_starts [of w] Cons by (cases ws) (simp_all add: json_text_starts)
      have "json_elements l (sep (map json_text vs) @ CHR '']'' # r) = Some (map json_valid vs, r)"
        by (rule elements_back) (use JArray Cons len n in auto)
      then show ?thesis using first [of "CHR '']'' # r"] by (simp add: n)
    qed (simp add: n)
  qed
next
  case (JObject ms)
  have each: "reads_back w" if "(k, w) \<in> set ms" for k w using JObject [of "(k, w)" w] that by simp
  show ?case unfolding reads_back_def
  proof (intro allI impI)
    fix n r
    assume len: "length (json_text (JObject ms)) \<le> n"
    then obtain l where n: "n = Suc l" by (cases n) auto
    show "json_value n (json_text (JObject ms) @ r) = Some (json_valid (JObject ms), r)"
    proof (cases ms)
      case (Cons m ms')
      let ?body = "sep (map (\<lambda>(k, v). quoted k @ '':'' @ json_text v) ms)"
      have "take 1 (?body @ x) = [quote]" for x
        using Cons by (cases m; cases ms') (simp_all add: quoted_def)
      moreover have "json_members l (?body @ CHR ''}'' # r) = Some (map (\<lambda>(k, v). (to_valid k, json_valid v)) ms, r)"
        by (rule members_back [OF _ each]) (use Cons len n in auto)
      ultimately show ?thesis using json_punctuation(5) [symmetric] by (simp add: n)
    qed (simp add: n)
  qed
qed

lemma json_parse_text: "json_parse (json_text v) = Some (json_valid v)"
  using json_reads_back [of v] by (simp add: json_parse_def reads_back_def del: json_text.simps)
    (metis append_Nil2 le_refl number_ends_Cons(2) case_prod_conv list.simps(4) option.simps(5))

section \<open>The frames\<close>

datatype frame =
    MessageStart string string int int
  | BlockStartText int
  | BlockStartThinking int string
  | BlockStartTool int string string
  | DeltaText int string
  | DeltaThinking int string
  | DeltaInput int string
  | BlockStop int
  | MessageDelta string int
  | MessageStop
  | AnthropicError string string

text \<open>The event name a frame is sent under, its payload, and the object the payload stands for.\<close>

fun frame_event :: "frame \<Rightarrow> string" where
  "frame_event (MessageStart _ _ _ _) = ''message_start''"
| "frame_event (BlockStartText _) = ''content_block_start''"
| "frame_event (BlockStartThinking _ _) = ''content_block_start''"
| "frame_event (BlockStartTool _ _ _) = ''content_block_start''"
| "frame_event (DeltaText _ _) = ''content_block_delta''"
| "frame_event (DeltaThinking _ _) = ''content_block_delta''"
| "frame_event (DeltaInput _ _) = ''content_block_delta''"
| "frame_event (BlockStop _) = ''content_block_stop''"
| "frame_event (MessageDelta _ _) = ''message_delta''"
| "frame_event MessageStop = ''message_stop''"
| "frame_event (AnthropicError _ _) = ''error''"

fun frame_payload :: "frame \<Rightarrow> string + string" where
  "frame_payload (MessageStart msgID model input output) = appendSSEMessageStart [] msgID model input output"
| "frame_payload (BlockStartText i) = appendSSEContentBlockStartText [] i"
| "frame_payload (BlockStartThinking i sig) = appendSSEContentBlockStartThinking [] i sig"
| "frame_payload (BlockStartTool i ident name) = appendSSEContentBlockStartToolUse [] i ident name"
| "frame_payload (DeltaText i txt) = appendSSEContentBlockDeltaText [] i txt"
| "frame_payload (DeltaThinking i txt) = appendSSEContentBlockDeltaThinking [] i txt"
| "frame_payload (DeltaInput i txt) = appendSSEContentBlockDeltaInputJSON [] i txt"
| "frame_payload (BlockStop i) = marshalSSEContentBlockStopBytes i"
| "frame_payload (MessageDelta reason output) = appendSSEMessageDelta [] reason output"
| "frame_payload MessageStop = marshalSSEMessageStopBytes"
| "frame_payload (AnthropicError code msg) = marshalAnthropicErrorBytes code msg"

definition typed :: "string \<Rightarrow> (string \<times> json) list \<Rightarrow> json" where
  "typed t ms = JObject ((''type'', JString t) # ms)"

fun frame_json :: "frame \<Rightarrow> json" where
  "frame_json (MessageStart msgID model input output) = typed ''message_start''
     [(''message'', JObject [(''id'', JString msgID), (''type'', JString ''message''), (''role'', JString ''assistant''),
        (''content'', JArray []), (''model'', JString model),
        (''usage'', JObject [(''input_tokens'', JInt input), (''output_tokens'', JInt output)])])]"
| "frame_json (BlockStartText i) = typed ''content_block_start''
     [(''index'', JInt i), (''content_block'', typed ''text'' [(''text'', JString [])])]"
| "frame_json (BlockStartThinking i sig) = typed ''content_block_start''
     [(''index'', JInt i), (''content_block'', typed ''thinking'' [(''thinking'', JString []), (''signature'', JString sig)])]"
| "frame_json (BlockStartTool i ident name) = typed ''content_block_start''
     [(''index'', JInt i), (''content_block'',
        typed ''tool_use'' [(''id'', JString ident), (''name'', JString name), (''input'', JObject [])])]"
| "frame_json (DeltaText i txt) = typed ''content_block_delta''
     [(''index'', JInt i), (''delta'', typed ''text_delta'' [(''text'', JString txt)])]"
| "frame_json (DeltaThinking i txt) = typed ''content_block_delta''
     [(''index'', JInt i), (''delta'', typed ''thinking_delta'' [(''thinking'', JString txt)])]"
| "frame_json (DeltaInput i txt) = typed ''content_block_delta''
     [(''index'', JInt i), (''delta'', typed ''input_json_delta'' [(''partial_json'', JString txt)])]"
| "frame_json (BlockStop i) = typed ''content_block_stop'' [(''index'', JInt i)]"
| "frame_json (MessageDelta reason output) = typed ''message_delta''
     [(''delta'', JObject [(''stop_reason'', JString reason)]), (''usage'', JObject [(''output_tokens'', JInt output)])]"
| "frame_json MessageStop = typed ''message_stop'' []"
| "frame_json (AnthropicError code msg) = typed ''error''
     [(''error'', typed code [(''message'', JString msg)])]"

lemma quoted_plain: "list_all raw_ascii s \<Longrightarrow> quoted s = quote # s @ [quote]"
  using json_body_raw [of s "[]"] by (simp add: quoted_def)

lemmas append_defs =
  appendSSEContentBlockStartToolUse_def appendSSEMessageStart_def appendSSEContentBlockStartText_def
  appendSSEContentBlockStartThinking_def appendSSEContentBlockDeltaInputJSON_def appendSSEContentBlockDeltaText_def
  appendSSEContentBlockDeltaThinking_def appendSSEContentBlockStop_def appendSSEMessageDelta_def
  marshalSSEContentBlockStopBytes_def marshalSSEMessageStopBytes_def marshalAnthropicErrorBytes_def
  appendAnthropicError_def appendJSONBytes_quoted

lemma frame_payload_text: "frame_payload f = Inr (json_text (frame_json f))"
  by (cases f) (simp_all add: append_defs typed_def quoted_plain raw_ascii_def byte_of_def quote_def)

lemma openai_error_text:
  "marshalOpenAIErrorBytes code msg = Inr (json_text (JObject [(''error'',
     JObject [(''message'', JString msg), (''type'', JString code), (''code'', JString code)])]))"
  by (simp add: marshalOpenAIErrorBytes_def appendOpenAIError_def appendJSONBytes_quoted quoted_plain raw_ascii_def byte_of_def quote_def)

section \<open>One line of text\<close>

text \<open>No rendering holds a control byte, so a payload is one line of the event stream.\<close>

definition printable :: "char \<Rightarrow> bool" where
  "printable c \<longleftrightarrow> 0x20 \<le> byte_of c"

lemma printable_literals [simp]:
  "printable (CHR '','')" "printable (CHR '':'')" "printable (CHR ''['')" "printable (CHR '']'')"
  "printable (CHR ''{'')" "printable (CHR ''}'')" "printable (CHR ''-'')" "printable quote" "printable backslash"
  "list_all printable ''ufffd''" "list_all printable ''u2028''" "list_all printable ''u2029''"
  "raw_ascii c \<Longrightarrow> printable c" "is_digit c \<Longrightarrow> printable c"
  by (simp_all add: printable_def byte_of_def quote_def backslash_def raw_ascii_def is_digit_def)

lemma hex_printable: "k < 16 \<Longrightarrow> printable (jsonHexDigits ! k)"
proof -
  have "list_all (\<lambda>k. printable (jsonHexDigits ! k)) [0..<16]" by code_simp
  then show "k < 16 \<Longrightarrow> ?thesis" by (simp add: list_all_iff)
qed

lemma escape_printable: "byte_of c < rune_self \<Longrightarrow> list_all printable (escape_byte c)"
proof -
  assume c: "byte_of c < rune_self"
  have "printable (jsonHexDigits ! (byte_of c div 16))" "printable (jsonHexDigits ! (byte_of c mod 16))"
    using c by (auto intro!: hex_printable simp: rune_self_def)
  then show ?thesis by (auto simp: escape_byte_def Let_def printable_def backslash_def quote_def byte_of_def)
qed

lemma json_body_printable: "list_all printable (json_body s)"
proof (induction s rule: rune_induct)
  case (Ascii c s)
  then show ?case using escape_printable [of c] by (auto simp: json_body_ascii)
next
  case (Rune c s r n)
  have "\<not> (r = rune_error \<and> n = 1) \<Longrightarrow> list_all printable (take n (c # s))"
    using decoded_high [OF Rune(2,1)] by (auto simp: list_all_iff printable_def rune_self_def)
  then show ?case
    using Rune(5) printable_literals(10-12) unfolding json_body_rune [OF Rune(1,2)] by auto
qed simp

lemma quoted_printable: "list_all printable (quoted s)"
  using json_body_printable [of s] by (simp add: quoted_def)

lemma itoa_printable: "list_all printable (itoa i)"
  using nat_digits_value [of "nat i"] nat_digits_value [of "nat (- i)"]
  by (auto simp: itoa_def list_all_iff)

lemma sep_printable: "list_all (list_all printable) xs \<Longrightarrow> list_all printable (sep xs)"
  by (induction xs rule: sep.induct) simp_all

lemma json_text_printable: "list_all printable (json_text v)"
proof (induction v)
  case (JArray vs)
  then have "list_all (list_all printable) (map json_text vs)" by (simp add: list_all_iff)
  from sep_printable [OF this] show ?case by simp
next
  case (JObject ms)
  have "list_all (list_all printable) (map (\<lambda>(k, v). quoted k @ '':'' @ json_text v) ms)"
    using JObject quoted_printable by (fastforce simp: list_all_iff)
  from sep_printable [OF this] show ?case by simp
qed (simp_all add: quoted_printable itoa_printable)

section \<open>Properties\<close>

text \<open>C32. A streamed frame reads back. Whatever strings and numbers a frame of the Anthropic stream is
  built from - answer text, tool arguments, model names, error messages, malformed UTF-8 included -
  its builder succeeds, its payload holds no control byte and so stays on one line of the event
  stream, and a client that parses the payload gets exactly the object the frame stands for, with
  each byte of malformed UTF-8 replaced by U+FFFD.\<close>

theorem frame_reads_back:
  "\<exists>payload. frame_payload f = Inr payload \<and> list_all printable payload
     \<and> json_parse payload = Some (json_valid (frame_json f))"
  using frame_payload_text json_text_printable json_parse_text by blast

end
