(* ===== verification/Sse_Codec.thy ===== *)
theory Sse_Codec
  imports Json_Frames
begin

text \<open>
  Event streams on the wire. Writing: the frame writers of the handler
  (\<open>internal/handler/stream_frames.go\<close>, \<open>writeStreamFrameLocked\<close>) and of the shared HTTP helpers
  (\<open>internal/httpserver/sse.go\<close>). Reading: \<open>ConsumeSSE\<close> of \<open>internal/responses/sse_codec.go\<close> with
  the event it hands over and \<open>writeTo\<close>, which relays it. The lemmas show that reading does not
  depend on how the network cuts the stream, that a relayed stream is byte-identical, and that the
  frames of the gateway read back.
\<close>

section \<open>Writing frames\<close>

definition newline :: char where "newline = CHR 0x0A"
definition carriage :: char where "carriage = CHR 0x0D"

definition AppendSSEFrame :: "string \<Rightarrow> string \<Rightarrow> string \<Rightarrow> string" where
  "AppendSSEFrame frame event data =
     (let frame1 = (if event \<noteq> [] then frame @ ''event: '' @ event @ [newline] else frame)
      in frame1 @ ''data: '' @ data @ [newline, newline])"

text \<open>The handler's table of complete headers \<open>event: <name>\<newline>data: \<close>.\<close>

definition sseFramePrefix :: "string \<Rightarrow> string option" where
  "sseFramePrefix event =
     (if event \<in> {''message_start'', ''message_delta'', ''message_stop'', ''content_block_start'',
                  ''content_block_delta'', ''content_block_stop''}
      then Some (''event: '' @ event @ [newline] @ ''data: '') else None)"

text \<open>The bytes \<open>writeStreamFrameLocked\<close> hands to one write.\<close>

definition stream_frame :: "string \<Rightarrow> string \<Rightarrow> string" where
  "stream_frame event data =
     (if event \<noteq> []
      then (case sseFramePrefix event of
              Some header \<Rightarrow> header
            | None \<Rightarrow> ''event: '' @ event @ [newline] @ ''data: '')
      else ''data: '') @ data @ [newline, newline]"

lemma stream_frame_eq: "stream_frame event data = AppendSSEFrame [] event data"
  by (simp add: stream_frame_def AppendSSEFrame_def sseFramePrefix_def)

section \<open>Events\<close>

record SSEEvent =
  Event :: string
  ID :: string
  Retry :: string
  Comments :: "string list"
  Other :: "string list"
  data :: "string list"
  rawDataStart :: nat
  rawDataEnd :: nat
  hasRawData :: bool
  raw :: string

definition no_event :: SSEEvent where
  "no_event = \<lparr>Event = [], ID = [], Retry = [], Comments = [], Other = [], data = [],
     rawDataStart = 0, rawDataEnd = 0, hasRawData = False, raw = []\<rparr>"

definition slice :: "string \<Rightarrow> nat \<Rightarrow> nat \<Rightarrow> string" where
  "slice s i j = take (j - i) (drop i s)"

fun join_lines :: "string list \<Rightarrow> string" where
  "join_lines [] = []"
| "join_lines [l] = l"
| "join_lines (l # m # ls) = l @ [newline] @ join_lines (m # ls)"

definition Data :: "SSEEvent \<Rightarrow> string" where
  "Data e = (if hasRawData e then slice (raw e) (rawDataStart e) (rawDataEnd e) else join_lines (data e))"

definition HasData :: "SSEEvent \<Rightarrow> bool" where
  "HasData e \<longleftrightarrow> hasRawData e \<or> data e \<noteq> []"

text \<open>The one write \<open>writeTo\<close> makes: the raw frame when it is untouched, the writer's own framing
  of a plain single-line event when it offers one, the fields in order otherwise. A write that is
  short without an error is \<open>io.ErrShortWrite\<close>.\<close>

datatype write_call = Plain string | Framed string string

definition field_line :: "string \<Rightarrow> string \<Rightarrow> string" where
  "field_line p v = (if v \<noteq> [] then p @ v @ [newline] else [])"

definition rebuilt_frame :: "SSEEvent \<Rightarrow> string" where
  "rebuilt_frame e =
     concat (map (\<lambda>c. c @ [newline]) (Comments e))
     @ field_line ''event: '' (Event e) @ field_line ''id: '' (ID e) @ field_line ''retry: '' (Retry e)
     @ concat (map (\<lambda>f. f @ [newline]) (Other e))
     @ concat (map (\<lambda>l. ''data: '' @ l @ [newline]) (data e)) @ [newline]"

definition write_of :: "bool \<Rightarrow> SSEEvent \<Rightarrow> write_call" where
  "write_of framed e =
     (if raw e \<noteq> [] then Plain (raw e)
      else if length (data e) = 1 \<and> Comments e = [] \<and> Other e = [] \<and> ID e = [] \<and> Retry e = [] \<and> framed
        then Framed (Event e) (data e ! 0)
      else Plain (rebuilt_frame e))"

definition writeTo :: "bool \<Rightarrow> (write_call \<Rightarrow> nat \<times> string option) \<Rightarrow> SSEEvent \<Rightarrow> string option" where
  "writeTo framed write e =
     (case write_of framed e of
        Framed ev d \<Rightarrow> snd (write (Framed ev d))
      | Plain frame \<Rightarrow>
          (let (n, err) = write (Plain frame)
           in if err = None \<and> n \<noteq> length frame then Some ''short write'' else err))"

section \<open>Reading\<close>

text \<open>The split function of the scanner: how far to advance and the token, or no token yet.\<close>

definition splitLinesKeepingEnd :: "string \<Rightarrow> bool \<Rightarrow> nat \<times> string option" where
  "splitLinesKeepingEnd buf atEOF =
     (let i = length (takeWhile (\<lambda>c. c \<noteq> newline) buf) in
      if i < length buf then (i + 1, Some (take (i + 1) buf))
      else if atEOF \<and> 0 < length buf then (length buf, Some buf)
      else (0, None))"

text \<open>\<open>bufio.Scanner\<close> over a reader that returns \<open>chunks\<close> one read at a time and then its end: it
  asks the split function for a token in what it has buffered, and reads on when there is none.\<close>

function scan_tokens :: "string \<Rightarrow> string list \<Rightarrow> string list" where
  "scan_tokens buf chunks =
     (case splitLinesKeepingEnd buf (chunks = []) of
        (advance, Some token) \<Rightarrow> token # scan_tokens (drop advance buf) chunks
      | (_, None) \<Rightarrow> (case chunks of [] \<Rightarrow> [] | c # cs \<Rightarrow> scan_tokens (buf @ c) cs))"
  by pat_completeness auto
termination
  by (relation "measures [\<lambda>(b, cs). length cs, \<lambda>(b, cs). length b]")
    (auto simp: splitLinesKeepingEnd_def Let_def split: if_splits)

declare scan_tokens.simps [simp del]

text \<open>The loop of \<open>ConsumeSSE\<close>: the event under construction, the bytes of its frame so far, whether
  the first line is still to come, and the handler's own state.\<close>

record 's reading =
  event :: SSEEvent
  rawFrame :: string
  firstLine :: bool
  handled :: 's

definition blank_event :: "SSEEvent \<Rightarrow> bool" where
  "blank_event e \<longleftrightarrow> \<not> HasData e \<and> Comments e = [] \<and> Other e = [] \<and> Event e = [] \<and> ID e = [] \<and> Retry e = []"

definition flush_event :: "('s \<Rightarrow> SSEEvent \<Rightarrow> 's \<times> string option) \<Rightarrow> 's reading \<Rightarrow> 's reading \<times> string option" where
  "flush_event handle r =
     (if blank_event (event r) then (r\<lparr>rawFrame := []\<rparr>, None)
      else
        let current = (event r)\<lparr>raw := rawFrame r\<rparr>;
            (s, err) = handle (handled r) current
        in (r\<lparr>event := no_event, rawFrame := [], handled := s\<rparr>, err))"

definition bom :: string where "bom = bytes [0xEF, 0xBB, 0xBF]"

text \<open>\<open>bytes.Cut\<close> at the first colon, and the value without its leading space.\<close>

definition cut_field :: "string \<Rightarrow> string \<times> string \<times> bool" where
  "cut_field line =
     (let field = takeWhile (\<lambda>c. c \<noteq> CHR '':'') line;
          found = (CHR '':'' \<in> set line);
          v = drop (length field + 1) line;
          v = (if found \<and> v \<noteq> [] \<and> hd v = CHR '' '' then tl v else v)
      in (field, v, found))"

text \<open>The field switch on a line that is not empty; \<open>lineStart\<close> and \<open>prefixLen\<close> place the line in the
  raw frame, which already holds it.\<close>

definition add_line :: "string \<Rightarrow> nat \<Rightarrow> nat \<Rightarrow> string \<Rightarrow> SSEEvent \<Rightarrow> SSEEvent" where
  "add_line frame lineStart prefixLen line e =
     (let (field, v, found) = cut_field line in
      if hd line = CHR '':'' then e\<lparr>Comments := Comments e @ [line]\<rparr>
      else if \<not> found then e\<lparr>Other := Other e @ [line]\<rparr>
      else if field = ''event'' then e\<lparr>Event := v\<rparr>
      else if field = ''data'' then
        (if \<not> hasRawData e \<and> data e = []
         then (let start = lineStart + prefixLen + length line - length v
               in e\<lparr>rawDataStart := start, rawDataEnd := start + length v, hasRawData := True\<rparr>)
         else
           let e1 = (if hasRawData e
                     then e\<lparr>data := data e @ [slice frame (rawDataStart e) (rawDataEnd e)], hasRawData := False\<rparr>
                     else e)
           in e1\<lparr>data := data e1 @ [v]\<rparr>)
      else if field = ''id'' then e\<lparr>ID := v\<rparr>
      else if field = ''retry'' then e\<lparr>Retry := v\<rparr>
      else e\<lparr>Other := Other e @ [line]\<rparr>)"

definition read_line :: "('s \<Rightarrow> SSEEvent \<Rightarrow> 's \<times> string option) \<Rightarrow> string \<Rightarrow> 's reading \<Rightarrow> 's reading \<times> string option" where
  "read_line handle rawLine r =
     (let lineStart = length (rawFrame r);
          frame = rawFrame r @ rawLine;
          line = trim_suffix (trim_suffix rawLine [newline]) [carriage];
          marked = firstLine r \<and> has_prefix line bom;
          line = (if marked then drop 3 line else line);
          prefixLen = (if marked then 3 else 0);
          r = r\<lparr>rawFrame := frame, firstLine := False\<rparr>
      in if line = [] then flush_event handle r
         else (r\<lparr>event := add_line frame lineStart prefixLen line (event r)\<rparr>, None))"

fun read_lines :: "('s \<Rightarrow> SSEEvent \<Rightarrow> 's \<times> string option) \<Rightarrow> string list \<Rightarrow> 's reading \<Rightarrow> 's reading \<times> string option" where
  "read_lines handle [] r = (r, None)"
| "read_lines handle (l # ls) r =
     (case read_line handle l r of
        (r1, Some err) \<Rightarrow> (r1, Some err)
      | (r1, None) \<Rightarrow> read_lines handle ls r1)"

text \<open>\<open>readErr\<close> is what the reader ends with instead of end of file.\<close>

definition ConsumeSSE ::
  "('s \<Rightarrow> SSEEvent \<Rightarrow> 's \<times> string option) \<Rightarrow> 's \<Rightarrow> string list \<Rightarrow> string option \<Rightarrow> 's \<times> string option" where
  "ConsumeSSE handle s chunks readErr =
     (case read_lines handle (scan_tokens [] chunks)
        \<lparr>event = no_event, rawFrame = [], firstLine = True, handled = s\<rparr> of
        (r, Some err) \<Rightarrow> (handled r, Some err)
      | (r, None) \<Rightarrow>
          (case readErr of
             Some err \<Rightarrow> (handled r, Some err)
           | None \<Rightarrow> (let (r, err) = flush_event handle r in (handled r, err))))"

section \<open>The scanner does not see the chunks\<close>

function keep_lines :: "string \<Rightarrow> string list" where
  "keep_lines s =
     (if s = [] then []
      else if newline \<in> set s
        then (takeWhile (\<lambda>c. c \<noteq> newline) s @ [newline]) # keep_lines (tl (dropWhile (\<lambda>c. c \<noteq> newline) s))
        else [s])"
  by pat_completeness auto
termination
proof (relation "measure length", goal_cases)
  case (2 s)
  then have "dropWhile (\<lambda>c. c \<noteq> newline) s \<noteq> []" by (simp add: dropWhile_eq_Nil_conv)
  then show ?case using length_dropWhile_le [of "\<lambda>c. c \<noteq> newline" s] by (cases "dropWhile (\<lambda>c. c \<noteq> newline) s") auto
qed simp

declare keep_lines.simps [simp del]

lemma keep_lines_Nil [simp]: "keep_lines [] = []"
  by (simp add: keep_lines.simps)

lemma until_newline:
  assumes "newline \<notin> set l"
  shows "takeWhile (\<lambda>c. c \<noteq> newline) (l @ newline # t) = l" "dropWhile (\<lambda>c. c \<noteq> newline) (l @ newline # t) = newline # t"
    "takeWhile (\<lambda>c. c \<noteq> newline) l = l"
  using assms by (induction l) auto

lemma keep_lines_line: "newline \<notin> set l \<Longrightarrow> keep_lines (l @ newline # s) = (l @ [newline]) # keep_lines s"
  by (subst keep_lines.simps) (simp add: until_newline)

lemma keep_lines_open: "newline \<notin> set l \<Longrightarrow> keep_lines l = (if l = [] then [] else [l])"
  by (simp add: keep_lines.simps)

lemma split_line:
  assumes "newline \<in> set buf"
  obtains l t where "buf = l @ newline # t" "newline \<notin> set l" "splitLinesKeepingEnd buf e = (length l + 1, Some (l @ [newline]))"
proof -
  from assms obtain l t where buf: "buf = l @ newline # t" "newline \<notin> set l" by (meson split_list_first)
  then have "takeWhile (\<lambda>c. c \<noteq> newline) buf = l" by (simp add: until_newline)
  then have "splitLinesKeepingEnd buf e = (length l + 1, Some (l @ [newline]))"
    using buf(1) by (simp add: splitLinesKeepingEnd_def)
  with buf that show thesis by blast
qed

lemma split_open:
  assumes "newline \<notin> set buf"
  shows "splitLinesKeepingEnd buf e = (if e \<and> buf \<noteq> [] then (length buf, Some buf) else (0, None))"
  unfolding splitLinesKeepingEnd_def Let_def until_newline(3) [OF assms] by simp

lemma scan_tokens_end: "scan_tokens [] [] = []"
  by (subst scan_tokens.simps) (simp add: splitLinesKeepingEnd_def)

lemma scan_tokens_lines: "scan_tokens buf chunks = keep_lines (buf @ concat chunks)"
proof (induction buf chunks rule: scan_tokens.induct)
  case (1 buf chunks)
  show ?case
  proof (cases "newline \<in> set buf")
    case True
    then obtain l t where buf: "buf = l @ newline # t" "newline \<notin> set l"
      and sp: "splitLinesKeepingEnd buf (chunks = []) = (length l + 1, Some (l @ [newline]))" by (rule split_line)
    have "scan_tokens t chunks = keep_lines (t @ concat chunks)"
      using "1.IH"(2) [OF sp [symmetric] refl] buf(1) by simp
    then show ?thesis
      using sp buf by (subst scan_tokens.simps) (simp add: keep_lines_line)
  next
    case False
    show ?thesis
    proof (cases chunks)
      case Nil
      then show ?thesis
        using split_open [OF False, of True] False
        by (subst scan_tokens.simps) (auto simp: keep_lines_open scan_tokens_end)
    next
      case (Cons c cs)
      then have sp: "splitLinesKeepingEnd buf (chunks = []) = (0, None)" using split_open [OF False, of False] by simp
      have "scan_tokens (buf @ c) cs = keep_lines ((buf @ c) @ concat cs)"
        using "1.IH"(1) [OF sp [symmetric] refl Cons] by simp
      then show ?thesis using sp Cons by (subst scan_tokens.simps) simp
    qed
  qed
qed

section \<open>Lines\<close>

lemma trim_last: "trim_suffix (l @ [c]) [c] = l"
  by (simp add: trim_suffix_def has_suffix_iff suffix_def)

lemmas trim_newline = trim_last [of _ newline]

lemma bom_literal: "bom = [CHR 0xEF, CHR 0xBB, CHR 0xBF]"
  by code_simp

lemma trim_carriage: "l = [] \<or> last l \<noteq> carriage \<Longrightarrow> trim_suffix l [carriage] = l"
  by (auto simp: trim_suffix_def has_suffix_iff suffix_def)

definition stripped :: "string \<Rightarrow> string" where
  "stripped l = trim_suffix l [carriage]"

text \<open>A line of content: no newline inside, and neither blank nor a lone byte order mark.\<close>

definition content_line :: "string \<Rightarrow> bool" where
  "content_line l \<longleftrightarrow> newline \<notin> set l \<and> stripped l \<noteq> [] \<and> stripped l \<noteq> bom"

definition data_line :: "string \<Rightarrow> bool" where
  "data_line l \<longleftrightarrow> has_prefix l ''data:''"

lemma read_content:
  assumes "content_line l"
  shows "\<exists>p line. read_line handle (l @ [newline]) r
      = (r\<lparr>rawFrame := rawFrame r @ l @ [newline], firstLine := False,
           event := add_line (rawFrame r @ l @ [newline]) (length (rawFrame r)) p line (event r)\<rparr>, None)
    \<and> (\<not> (firstLine r \<and> has_prefix (stripped l) bom) \<longrightarrow> p = 0 \<and> line = stripped l)"
proof -
  let ?m = "firstLine r \<and> has_prefix (stripped l) bom"
  have "drop 3 (stripped l) \<noteq> []" if "has_prefix (stripped l) bom"
  proof -
    from that obtain t where "stripped l = bom @ t" by (auto simp: prefix_def)
    then show ?thesis using assms by (auto simp: content_line_def bom_def bytes_def)
  qed
  then have "(if ?m then drop 3 (stripped l) else stripped l) \<noteq> []" using assms by (auto simp: content_line_def)
  then show ?thesis
    by (intro exI [of _ "if ?m then 3 else 0"] exI [of _ "if ?m then drop 3 (stripped l) else stripped l"])
      (simp add: read_line_def Let_def trim_newline flip: stripped_def)
qed

lemma HasData_add_line: "HasData e \<Longrightarrow> HasData (add_line f i p l e)"
  by (auto simp: add_line_def HasData_def Let_def split: prod.splits)

lemma data_line_field:
  assumes "data_line l"
  shows "\<exists>t. stripped l = ''data:'' @ t"
proof -
  obtain t where l: "l = ''data:'' @ t" using assms by (auto simp: data_line_def prefix_def)
  show ?thesis
  proof (cases "t = [] \<or> last t \<noteq> carriage")
    case True
    then have "stripped l = l" unfolding stripped_def by (intro trim_carriage) (auto simp: l carriage_def)
    then show ?thesis using l by simp
  next
    case False
    then have "l = (''data:'' @ butlast t) @ [carriage]" using l by (metis append.assoc append_butlast_last_id)
    then have "stripped l = ''data:'' @ butlast t"
      by (simp add: stripped_def trim_suffix_def has_suffix_iff suffix_def)
    then show ?thesis by blast
  qed
qed

lemma cut_data: "cut_field (''data:'' @ t) = (''data'', (if t \<noteq> [] \<and> hd t = CHR '' '' then tl t else t), True)"
  by (simp add: cut_field_def)

lemma add_data_line: "HasData (add_line f i p (''data:'' @ t) e)"
  unfolding add_line_def cut_data by (auto simp: HasData_def Let_def)

section \<open>Frames\<close>

abbreviation ended :: "string list \<Rightarrow> string list" where
  "ended ls \<equiv> map (\<lambda>l. l @ [newline]) ls"

lemma data_line_unmarked: "data_line l \<Longrightarrow> \<not> has_prefix (stripped l) bom"
  using data_line_field [of l] by (auto simp: bom_literal prefix_def)

lemma read_content_lines:
  assumes "list_all content_line ls"
  shows "\<exists>e. read_lines handle (ended ls @ rest) r
      = read_lines handle rest (r\<lparr>rawFrame := rawFrame r @ concat (ended ls), firstLine := firstLine r \<and> ls = [], event := e\<rparr>)
    \<and> (HasData (event r) \<or> list_ex data_line ls \<longrightarrow> HasData e)"
  using assms
proof (induction ls arbitrary: r)
  case Nil
  show ?case by (rule exI [of _ "event r"]) simp
next
  case (Cons l ls)
  from Cons.prems have "content_line l" by simp
  from read_content [OF this, of handle r] obtain p line where
    step: "read_line handle (l @ [newline]) r = (r\<lparr>rawFrame := rawFrame r @ l @ [newline], firstLine := False,
           event := add_line (rawFrame r @ l @ [newline]) (length (rawFrame r)) p line (event r)\<rparr>, None)"
    and unmarked: "\<not> (firstLine r \<and> has_prefix (stripped l) bom) \<longrightarrow> p = 0 \<and> line = stripped l" by blast
  define r1 where "r1 = r\<lparr>rawFrame := rawFrame r @ l @ [newline], firstLine := False,
           event := add_line (rawFrame r @ l @ [newline]) (length (rawFrame r)) p line (event r)\<rparr>"
  have data: "HasData (event r1)" if "HasData (event r) \<or> data_line l"
  proof -
    have "HasData (event r1)" if l: "data_line l"
    proof -
      have "line = stripped l" using unmarked data_line_unmarked [OF l] by simp
      then show ?thesis using data_line_field [OF l] add_data_line by (auto simp: r1_def)
    qed
    then show ?thesis using that HasData_add_line by (auto simp: r1_def)
  qed
  from Cons.IH [of r1] Cons.prems obtain e where
    "read_lines handle (ended ls @ rest) r1
      = read_lines handle rest (r1\<lparr>rawFrame := rawFrame r1 @ concat (ended ls), firstLine := firstLine r1 \<and> ls = [], event := e\<rparr>)"
    "HasData (event r1) \<or> list_ex data_line ls \<longrightarrow> HasData e" by auto
  then show ?case using step data by (intro exI [of _ e]) (auto simp: r1_def)
qed

text \<open>A frame: its content lines, one of them data, and the blank line that ends it, with either
  line ending.\<close>

definition frame_lines :: "string list \<times> string \<Rightarrow> string list" where
  "frame_lines f = ended (fst f) @ [snd f]"

definition proper_frame :: "string list \<times> string \<Rightarrow> bool" where
  "proper_frame f \<longleftrightarrow> list_all content_line (fst f) \<and> list_ex data_line (fst f)
     \<and> (snd f = [newline] \<or> snd f = [carriage, newline])"

lemma read_blank:
  assumes "t = [newline] \<or> t = [carriage, newline]"
  shows "read_line handle t r = flush_event handle (r\<lparr>rawFrame := rawFrame r @ t, firstLine := False\<rparr>)"
proof -
  have "trim_suffix (trim_suffix t [newline]) [carriage] = []"
    using assms trim_newline [of "[]"] trim_newline [of "[carriage]"] trim_last [of "[]" carriage]
      trim_carriage [of "[]"] by auto
  moreover have "\<not> has_prefix [] bom" by (simp add: bom_def bytes_def)
  ultimately show ?thesis by (simp add: read_line_def Let_def del: has_prefix_iff)
qed

lemma read_frame:
  assumes "proper_frame f" "event r = no_event" "rawFrame r = []"
  shows "\<exists>e. raw e = concat (frame_lines f) \<and> HasData e \<and>
    read_lines handle (frame_lines f @ rest) r =
     (case handle (handled r) e of
        (s, None) \<Rightarrow> read_lines handle rest (r\<lparr>firstLine := False, handled := s\<rparr>)
      | (s, Some err) \<Rightarrow> (r\<lparr>firstLine := False, handled := s\<rparr>, Some err))"
proof -
  obtain ls t where f: "f = (ls, t)" by fastforce
  from assms(1) have ls: "list_all content_line ls" "list_ex data_line ls" and t: "t = [newline] \<or> t = [carriage, newline]"
    by (auto simp: proper_frame_def f)
  from read_content_lines [OF ls(1), of handle "[t] @ rest" r] obtain e where
    e: "read_lines handle (ended ls @ [t] @ rest) r
      = read_lines handle ([t] @ rest) (r\<lparr>rawFrame := concat (ended ls), firstLine := firstLine r \<and> ls = [], event := e\<rparr>)"
    "HasData e" using ls(2) assms by auto
  let ?e = "e\<lparr>raw := concat (frame_lines f)\<rparr>"
  have "HasData ?e" using e(2) by (simp add: HasData_def)
  moreover have "read_lines handle (frame_lines f @ rest) r =
     (case handle (handled r) ?e of
        (s, None) \<Rightarrow> read_lines handle rest (r\<lparr>firstLine := False, handled := s\<rparr>)
      | (s, Some err) \<Rightarrow> (r\<lparr>firstLine := False, handled := s\<rparr>, Some err))"
    using e assms(2,3) by (cases r) (auto simp: frame_lines_def f read_blank [OF t] flush_event_def blank_event_def Let_def
      split: prod.splits option.splits)
  ultimately show ?thesis by (intro exI [of _ ?e]) simp
qed

lemma keep_frame_lines:
  assumes "proper_frame f"
  shows "keep_lines (concat (frame_lines f) @ s) = frame_lines f @ keep_lines s"
proof -
  obtain ls t where f: "f = (ls, t)" by fastforce
  from assms have ls: "list_all content_line ls" and t: "t = [newline] \<or> t = [carriage, newline]"
    by (auto simp: proper_frame_def f)
  have "keep_lines (t @ s) = t # keep_lines s"
    using t keep_lines_line [of "[]" s] keep_lines_line [of "[carriage]" s] by (auto simp: newline_def carriage_def)
  moreover have "keep_lines (concat (ended ls) @ u) = ended ls @ keep_lines u" for u
    using ls by (induction ls) (auto simp: keep_lines_line content_line_def)
  ultimately show ?thesis by (simp add: frame_lines_def f)
qed

lemma keep_all_frames:
  "list_all proper_frame fs \<Longrightarrow> keep_lines (concat (concat (map frame_lines fs))) = concat (map frame_lines fs)"
  by (induction fs) (simp_all add: keep_frame_lines)

section \<open>Reading the gateway's frames\<close>

lemma printable_line: "list_all printable p \<Longrightarrow> newline \<notin> set p \<and> (p = [] \<or> last p \<noteq> carriage)"
  using last_in_set [of p] by (fastforce simp: list_all_iff printable_def newline_def carriage_def byte_of_def)

definition event_line :: "string \<Rightarrow> string" where "event_line n = ''event: '' @ n"
definition payload_line :: "string \<Rightarrow> string" where "payload_line p = ''data: '' @ p"

lemma stripped_lines:
  assumes "n \<noteq> []" "list_all printable n" "list_all printable p"
  shows "stripped (event_line n) = event_line n" "stripped (payload_line p) = payload_line p"
    "content_line (event_line n)" "content_line (payload_line p)" "data_line (payload_line p)"
    "\<not> has_prefix (event_line n) bom"
proof -
  have e: "stripped (event_line n) = event_line n"
    unfolding stripped_def using printable_line [OF assms(2)] assms(1) by (intro trim_carriage) (simp add: event_line_def)
  have d: "stripped (payload_line p) = payload_line p"
    unfolding stripped_def using printable_line [OF assms(3)]
    by (intro trim_carriage) (auto simp: payload_line_def carriage_def)
  show "stripped (event_line n) = event_line n" "stripped (payload_line p) = payload_line p" by (fact e d)+
  show "content_line (event_line n)"
    using printable_line [OF assms(2)] by (simp add: content_line_def e) (simp add: event_line_def bom_literal newline_def)
  show "content_line (payload_line p)"
    using printable_line [OF assms(3)] by (simp add: content_line_def d) (simp add: payload_line_def bom_literal newline_def)
  show "data_line (payload_line p)" by (simp add: data_line_def payload_line_def)
  show "\<not> has_prefix (event_line n) bom" by (simp add: event_line_def bom_literal)
qed

lemma cut_lines:
  "cut_field (event_line n) = (''event'', n, True)" "cut_field (payload_line p) = (''data'', p, True)"
  by (simp_all add: cut_field_def event_line_def payload_line_def)

lemma line_heads: "hd (event_line n) \<noteq> CHR '':''" "hd (payload_line p) \<noteq> CHR '':''"
  by (simp_all add: event_line_def payload_line_def)

definition gateway_event :: "string \<Rightarrow> string \<Rightarrow> SSEEvent" where
  "gateway_event n p =
     (let start = length (event_line n) + 1 + length (''data: '')
      in no_event\<lparr>Event := n, rawDataStart := start, rawDataEnd := start + length p, hasRawData := True,
           raw := AppendSSEFrame [] n p\<rparr>)"

lemma gateway_event_data: "n \<noteq> [] \<Longrightarrow> Data (gateway_event n p) = p" "Event (gateway_event n p) = n"
  by (simp_all add: gateway_event_def Data_def slice_def AppendSSEFrame_def event_line_def no_event_def Let_def)

lemma frame_of_lines: "n \<noteq> [] \<Longrightarrow> AppendSSEFrame [] n p = concat (ended [event_line n, payload_line p]) @ [newline]"
  by (simp add: AppendSSEFrame_def event_line_def payload_line_def)

lemma add_gateway_lines:
  "add_line f i 0 (event_line n) no_event = no_event\<lparr>Event := n\<rparr>"
  "add_line f i 0 (payload_line p) (no_event\<lparr>Event := n\<rparr>)
    = no_event\<lparr>Event := n, rawDataStart := i + length (''data: ''), rawDataEnd := i + length (''data: '') + length p, hasRawData := True\<rparr>"
proof -
  have "length (payload_line p) = length (''data: '') + length p" by (simp add: payload_line_def)
  then show "add_line f i 0 (payload_line p) (no_event\<lparr>Event := n\<rparr>)
    = no_event\<lparr>Event := n, rawDataStart := i + length (''data: ''), rawDataEnd := i + length (''data: '') + length p, hasRawData := True\<rparr>"
    by (simp add: add_line_def cut_lines line_heads Let_def no_event_def)
  show "add_line f i 0 (event_line n) no_event = no_event\<lparr>Event := n\<rparr>"
    by (simp add: add_line_def cut_lines line_heads)
qed

lemma read_gateway_frame:
  assumes "n \<noteq> []" "list_all printable n" "list_all printable p" "event r = no_event" "rawFrame r = []"
  shows "read_lines handle (ended [event_line n, payload_line p] @ [newline] # rest) r =
     (case handle (handled r) (gateway_event n p) of
        (s, None) \<Rightarrow> read_lines handle rest (r\<lparr>firstLine := False, handled := s\<rparr>)
      | (s, Some err) \<Rightarrow> (r\<lparr>firstLine := False, handled := s\<rparr>, Some err))"
proof -
  note l = stripped_lines [OF assms(1-3)]
  have one: "read_line handle (event_line n @ [newline]) r
      = (r\<lparr>rawFrame := event_line n @ [newline], firstLine := False, event := no_event\<lparr>Event := n\<rparr>\<rparr>, None)"
    using read_content [OF l(3), of handle r] l(1,6) assms(4,5)
    by (auto simp: add_gateway_lines)
  define r1 where "r1 = r\<lparr>rawFrame := event_line n @ [newline], firstLine := False, event := no_event\<lparr>Event := n\<rparr>\<rparr>"
  let ?start = "length (event_line n) + 1 + length (''data: '')"
  have two: "read_line handle (payload_line p @ [newline]) r1
      = (r1\<lparr>rawFrame := event_line n @ [newline] @ payload_line p @ [newline],
          event := no_event\<lparr>Event := n, rawDataStart := ?start, rawDataEnd := ?start + length p, hasRawData := True\<rparr>\<rparr>, None)"
    using read_content [OF l(4), of handle r1] l(2)
    by (auto simp: r1_def add_gateway_lines)
  define r2 where "r2 = r1\<lparr>rawFrame := event_line n @ [newline] @ payload_line p @ [newline],
          event := no_event\<lparr>Event := n, rawDataStart := ?start, rawDataEnd := ?start + length p, hasRawData := True\<rparr>\<rparr>"
  have three: "read_line handle [newline] r2 = (let (s, err) = handle (handled r) (gateway_event n p)
      in (r\<lparr>firstLine := False, handled := s\<rparr>, err))"
    using assms(4,5) frame_of_lines [OF assms(1), of p] unfolding read_blank [OF disjI1 [OF refl]]
    by (cases r) (simp add: r2_def r1_def flush_event_def blank_event_def HasData_def gateway_event_def Let_def)
  show ?thesis
    by (simp add: one [folded r1_def] two [folded r2_def] three Let_def
        split: prod.splits option.splits)
qed

text \<open>The bytes a frame of the stream is sent as.\<close>

definition wire_frame :: "frame \<Rightarrow> string" where
  "wire_frame f = (case frame_payload f of Inl _ \<Rightarrow> [] | Inr payload \<Rightarrow> stream_frame (frame_event f) payload)"

lemma wire_frame_eq: "wire_frame f = AppendSSEFrame [] (frame_event f) (json_text (frame_json f))"
  by (simp add: wire_frame_def frame_payload_text stream_frame_eq)

lemma frame_event_plain: "frame_event f \<noteq> [] \<and> list_all printable (frame_event f)"
  by (cases f) (simp_all add: printable_def byte_of_def)

definition wire_lines :: "frame \<Rightarrow> string list" where
  "wire_lines f = ended [event_line (frame_event f), payload_line (json_text (frame_json f))] @ [[newline]]"

lemma wire_lines_bytes: "concat (wire_lines f) = wire_frame f"
  using frame_event_plain [of f] by (simp add: wire_lines_def wire_frame_eq frame_of_lines)

lemma wire_lines_proper:
  "wire_lines f = frame_lines ([event_line (frame_event f), payload_line (json_text (frame_json f))], [newline])"
  "proper_frame ([event_line (frame_event f), payload_line (json_text (frame_json f))], [newline])"
  using stripped_lines [of "frame_event f" "json_text (frame_json f)"] frame_event_plain [of f] json_text_printable
  by (simp_all add: wire_lines_def frame_lines_def proper_frame_def)

lemma keep_wire: "keep_lines (concat (map wire_frame fs)) = concat (map wire_lines fs)"
proof (induction fs)
  case (Cons f fs)
  then show ?case
    using keep_frame_lines [OF wire_lines_proper(2), of f] by (simp add: wire_lines_proper(1) flip: wire_lines_bytes)
qed simp

definition collect :: "SSEEvent list \<Rightarrow> SSEEvent \<Rightarrow> SSEEvent list \<times> string option" where
  "collect es e = (es @ [e], None)"

abbreviation start_reading :: "'s \<Rightarrow> 's reading" where
  "start_reading s \<equiv> \<lparr>event = no_event, rawFrame = [], firstLine = True, handled = s\<rparr>"

lemma flush_nothing: "event r = no_event \<Longrightarrow> flush_event handle r = (r\<lparr>rawFrame := []\<rparr>, None)"
  by (simp add: flush_event_def blank_event_def HasData_def no_event_def)

lemma read_wire:
  assumes "event r = no_event" "rawFrame r = []"
  shows "\<exists>b. read_lines collect (concat (map wire_lines fs)) r
    = (r\<lparr>firstLine := b, handled := handled r @ map (\<lambda>f. gateway_event (frame_event f) (json_text (frame_json f))) fs\<rparr>, None)"
  using assms
proof (induction fs arbitrary: r)
  case Nil
  show ?case by (rule exI [of _ "firstLine r"]) simp
next
  case (Cons f fs)
  let ?e = "gateway_event (frame_event f) (json_text (frame_json f))"
  let ?r = "r\<lparr>firstLine := False, handled := handled r @ [?e]\<rparr>"
  have "read_lines collect (concat (map wire_lines (f # fs))) r = read_lines collect (concat (map wire_lines fs)) ?r"
    using read_gateway_frame [where handle = collect, OF _ _ json_text_printable Cons.prems] frame_event_plain [of f]
    by (simp add: wire_lines_def collect_def)
  moreover obtain b where "read_lines collect (concat (map wire_lines fs)) ?r
    = (?r\<lparr>firstLine := b, handled := handled ?r @ map (\<lambda>f. gateway_event (frame_event f) (json_text (frame_json f))) fs\<rparr>, None)"
    using Cons.IH [of ?r] Cons.prems by auto
  ultimately show ?case by (intro exI [of _ b]) simp
qed

text \<open>Relaying every event to a client that takes each write whole.\<close>

definition relay :: "string \<Rightarrow> SSEEvent \<Rightarrow> string \<times> string option" where
  "relay out e = (case write_of False e of Plain frame \<Rightarrow> (out @ frame, None) | Framed ev d \<Rightarrow> (out @ AppendSSEFrame [] ev d, None))"

lemma relay_raw: "raw e \<noteq> [] \<Longrightarrow> relay out e = (out @ raw e, None)"
  by (simp add: relay_def write_of_def)

lemma relay_frames:
  assumes "list_all proper_frame fs" "event r = no_event" "rawFrame r = []"
  shows "\<exists>b. read_lines relay (concat (map frame_lines fs)) r
    = (r\<lparr>firstLine := b, handled := handled r @ concat (concat (map frame_lines fs))\<rparr>, None)"
  using assms
proof (induction fs arbitrary: r)
  case Nil
  show ?case by (rule exI [of _ "firstLine r"]) simp
next
  case (Cons f fs)
  then have f: "proper_frame f" by simp
  from read_frame [OF this Cons.prems(2,3), of relay "concat (map frame_lines fs)"] obtain e where
    e: "raw e = concat (frame_lines f)"
    and step: "read_lines relay (frame_lines f @ concat (map frame_lines fs)) r =
     (case relay (handled r) e of
        (s, None) \<Rightarrow> read_lines relay (concat (map frame_lines fs)) (r\<lparr>firstLine := False, handled := s\<rparr>)
      | (s, Some err) \<Rightarrow> (r\<lparr>firstLine := False, handled := s\<rparr>, Some err))" by blast
  have "raw e \<noteq> []" using f by (auto simp: e frame_lines_def proper_frame_def)
  let ?r = "r\<lparr>firstLine := False, handled := handled r @ concat (frame_lines f)\<rparr>"
  obtain b where "read_lines relay (concat (map frame_lines fs)) ?r
    = (?r\<lparr>firstLine := b, handled := handled ?r @ concat (concat (map frame_lines fs))\<rparr>, None)"
    using Cons.IH [of ?r] Cons.prems by auto
  then show ?case using step relay_raw [OF \<open>raw e \<noteq> []\<close>] by (intro exI [of _ b]) (simp add: e)
qed

section \<open>Properties\<close>

text \<open>C14. The client reads the stream the gateway wrote. However the network cuts the bytes of a
  sequence of frames into reads, \<open>ConsumeSSE\<close> hands over exactly one event per frame, in order,
  under the frame's event name, and its data parses to the object the frame stands for; the reader
  ends without an error.\<close>

theorem gateway_stream_reads_back:
  assumes "concat chunks = concat (map wire_frame fs)"
  shows "\<exists>es. ConsumeSSE collect [] chunks None = (es, None)
    \<and> map (\<lambda>e. (Event e, json_parse (Data e))) es
      = map (\<lambda>f. (frame_event f, Some (json_valid (frame_json f)))) fs"
proof -
  obtain b where "read_lines collect (scan_tokens [] chunks) (start_reading [])
      = ((start_reading [])\<lparr>firstLine := b,
          handled := map (\<lambda>f. gateway_event (frame_event f) (json_text (frame_json f))) fs\<rparr>, None)"
    using read_wire [of "start_reading []" fs] by (auto simp: scan_tokens_lines assms keep_wire)
  then have "ConsumeSSE collect [] chunks None = (map (\<lambda>f. gateway_event (frame_event f) (json_text (frame_json f))) fs, None)"
    by (simp add: ConsumeSSE_def flush_nothing)
  moreover have "Event (gateway_event (frame_event f) p) = frame_event f" "Data (gateway_event (frame_event f) p) = p" for f p
    using frame_event_plain [of f] by (simp_all add: gateway_event_data)
  ultimately show ?thesis by (simp add: json_parse_text)
qed

text \<open>Two frames, read in two pieces cut inside the first.\<close>

definition sample_wire :: string where
  "sample_wire = concat (map wire_frame [DeltaText 0 ''hi'', MessageStop])"

theorem gateway_stream_reads_back_witness:
  "\<exists>es. ConsumeSSE collect [] [take 30 sample_wire, drop 30 sample_wire] None = (es, None)
    \<and> map (\<lambda>e. (Event e, json_parse (Data e))) es
      = map (\<lambda>f. (frame_event f, Some (json_valid (frame_json f)))) [DeltaText 0 ''hi'', MessageStop]"
proof (rule gateway_stream_reads_back)
  show "concat [take 30 sample_wire, drop 30 sample_wire] = concat (map wire_frame [DeltaText 0 ''hi'', MessageStop])"
    unfolding concat.simps append_Nil2 append_take_drop_id by (rule sample_wire_def)
qed

text \<open>C30. An untouched stream is relayed byte for byte. If an upstream's event stream is a sequence of
  frames, each with a data line and ended by a blank line with either line ending, then relaying
  every event \<open>ConsumeSSE\<close> hands over reproduces the upstream's bytes - comments, unknown fields,
  repeated data lines and a leading byte order mark included - however the network cut them.\<close>

theorem relayed_stream_identical:
  assumes "list_all proper_frame fs" "concat chunks = concat (concat (map frame_lines fs))"
  shows "ConsumeSSE relay [] chunks None = (concat chunks, None)"
proof -
  obtain b where "read_lines relay (scan_tokens [] chunks) (start_reading [])
      = ((start_reading [])\<lparr>firstLine := b, handled := concat chunks\<rparr>, None)"
    using relay_frames [OF assms(1), of "start_reading []"]
    by (auto simp: scan_tokens_lines assms(2) keep_all_frames [OF assms(1)])
  then show ?thesis by (simp add: ConsumeSSE_def flush_nothing)
qed

text \<open>A stream with a byte order mark, a comment, a field of its own, two data lines and both line
  endings, read in two pieces.\<close>

definition sample_frames :: "(string list \<times> string) list" where
  "sample_frames =
     [([bom @ '': hi'', ''event: x'', ''note: y'', ''data: a'', ''data: b'' @ [carriage]], [newline]),
      ([''data:'' @ [carriage]], [carriage, newline])]"

definition sample_upstream :: string where
  "sample_upstream = concat (concat (map frame_lines sample_frames))"

theorem relayed_stream_identical_witness:
  "ConsumeSSE relay [] [take 12 sample_upstream, drop 12 sample_upstream] None = (concat [take 12 sample_upstream, drop 12 sample_upstream], None)"
proof (rule relayed_stream_identical [of sample_frames])
  show "list_all proper_frame sample_frames" by code_simp
  show "concat [take 12 sample_upstream, drop 12 sample_upstream] = concat (concat (map frame_lines sample_frames))"
    unfolding concat.simps append_Nil2 append_take_drop_id by (rule sample_upstream_def)
qed

end
