(* ===== verification/Token_Estimate.thy ===== *)
theory Token_Estimate
  imports Json_Text
begin

text \<open>
  The token estimate of a streamed answer (\<open>internal/tiktoken/tokenizer.go\<close>). The estimator is fed
  fragment by fragment; a word run counts one token when it ends, a punctuation byte one, a
  non-ASCII rune one and a half. The count is kept in half tokens: the code's \<open>float64\<close> only ever
  adds 1 and 1.5, which is exact below \<open>2 ^ 52\<close>. The property shows the estimate independent of how
  a text is cut into fragments.
\<close>

section \<open>The estimator\<close>

datatype byte_class = Word_Byte | Space_Byte | Punct_Byte | Wide_Byte

definition asciiClass :: "char \<Rightarrow> byte_class" where
  "asciiClass c =
     (let b = byte_of c in
      if rune_self \<le> b then Wide_Byte
      else if (97 \<le> b \<and> b \<le> 122) \<or> (65 \<le> b \<and> b \<le> 90) \<or> (48 \<le> b \<and> b \<le> 57) then Word_Byte
      else if b = 32 \<or> b = 9 \<or> b = 10 \<or> b = 13 then Space_Byte
      else Punct_Byte)"

record Estimator =
  halves :: nat
  inWord :: bool

definition end_word :: "Estimator \<Rightarrow> Estimator" where
  "end_word e = (if inWord e then e\<lparr>halves := halves e + 2, inWord := False\<rparr> else e)"

text \<open>\<open>Add\<close> from index \<open>i\<close> on, on the rest of the text: a word run is consumed whole.\<close>

function add_from :: "string \<Rightarrow> Estimator \<Rightarrow> Estimator" where
  "add_from s e =
     (case s of [] \<Rightarrow> e
      | c # t \<Rightarrow>
        (case asciiClass c of
           Word_Byte \<Rightarrow> add_from (dropWhile (\<lambda>d. asciiClass d = Word_Byte) t) (e\<lparr>inWord := True\<rparr>)
         | Space_Byte \<Rightarrow> add_from t (end_word e)
         | Punct_Byte \<Rightarrow> add_from t ((end_word e)\<lparr>halves := halves (end_word e) + 2\<rparr>)
         | Wide_Byte \<Rightarrow>
             add_from (drop (snd (decode_rune s)) s) ((end_word e)\<lparr>halves := halves (end_word e) + 3\<rparr>)))"
  by pat_completeness auto
termination
proof (relation "measure (\<lambda>(s, e). length s)", goal_cases)
  case (2 s e c t)
  then show ?case using length_dropWhile_le [of _ t] by (simp add: le_imp_less_Suc)
next
  case (5 s e c t)
  then show ?case using rune_advances(1) [of s] by simp
qed auto

declare add_from.simps [simp del]

definition Estimator_Add :: "Estimator \<Rightarrow> string \<Rightarrow> Estimator" where
  "Estimator_Add e fragment = add_from fragment e"

text \<open>\<open>AddBytes\<close> is the same loop over a byte slice.\<close>

definition Estimator_AddBytes :: "Estimator \<Rightarrow> string \<Rightarrow> Estimator" where
  "Estimator_AddBytes e fragment = add_from fragment e"

text \<open>\<open>math.Round\<close> rounds a half up, away from zero.\<close>

definition Estimator_Count :: "Estimator \<Rightarrow> int" where
  "Estimator_Count e = int ((halves e + (if inWord e then 2 else 0) + 1) div 2)"

definition Estimator_Reset :: "Estimator \<Rightarrow> Estimator" where
  "Estimator_Reset e = e\<lparr>halves := 0, inWord := False\<rparr>"

definition new_estimator :: Estimator where "new_estimator = \<lparr>halves = 0, inWord = False\<rparr>"

definition EstimateTextTokens :: "string \<Rightarrow> int" where
  "EstimateTextTokens s = (if s = [] then 0 else Estimator_Count (Estimator_Add new_estimator s))"

section \<open>One rune at a time\<close>

lemma add_from_Nil [simp]: "add_from [] e = e"
  by (simp add: add_from.simps)

lemma add_from_run:
  "asciiClass c = Word_Byte \<Longrightarrow>
   add_from (c # s) e = add_from (dropWhile (\<lambda>d. asciiClass d = Word_Byte) s) (e\<lparr>inWord := True\<rparr>)"
  by (subst add_from.simps) simp

lemma add_from_word:
  assumes "asciiClass c = Word_Byte"
  shows "add_from (c # s) e = add_from s (e\<lparr>inWord := True\<rparr>)"
proof (cases s)
  case (Cons d t)
  then show ?thesis using assms by (cases "asciiClass d = Word_Byte") (simp_all add: add_from_run)
qed (simp add: add_from_run assms)

definition ascii_step :: "char \<Rightarrow> Estimator \<Rightarrow> Estimator" where
  "ascii_step c e =
     (if asciiClass c = Word_Byte then e\<lparr>inWord := True\<rparr>
      else if asciiClass c = Space_Byte then end_word e
      else (end_word e)\<lparr>halves := halves (end_word e) + 2\<rparr>)"

lemma ascii_class: "byte_of c < rune_self \<longleftrightarrow> asciiClass c \<noteq> Wide_Byte"
  by (simp add: asciiClass_def Let_def)

lemma add_from_ascii: "byte_of c < rune_self \<Longrightarrow> add_from (c # s) e = add_from s (ascii_step c e)"
proof (cases "asciiClass c = Word_Byte")
  case False
  then show "byte_of c < rune_self \<Longrightarrow> ?thesis"
    by (subst add_from.simps) (auto simp: ascii_class ascii_step_def split: byte_class.splits)
qed (simp add: add_from_word ascii_step_def)

lemma add_from_wide:
  assumes "\<not> byte_of c < rune_self" "decode_rune (c # s) = (r, n)"
  shows "add_from (c # s) e = add_from (drop n (c # s)) ((end_word e)\<lparr>halves := halves (end_word e) + 3\<rparr>)"
  using assms by (subst add_from.simps) (simp add: ascii_class)

text \<open>A well-formed sequence decodes the same in front of any text.\<close>

lemma decode_append:
  assumes "\<not> malformed s" "s \<noteq> []"
  shows "decode_rune (s @ t) = decode_rune s"
proof -
  have len: "leading_byte b = Some (n, lo, hi) \<Longrightarrow> n = 2 \<or> n = 3 \<or> n = 4" for b n lo hi
    by (auto simp: leading_byte_def split: if_splits)
  show ?thesis
  proof (cases "byte_of (s ! 0) < rune_self")
    case True
    then show ?thesis using assms by (simp add: decode_rune_def nth_append)
  next
    case False
    obtain n lo hi where lead: "leading_byte (byte_of (s ! 0)) = Some (n, lo, hi)"
      using assms False by (auto simp: malformed_def decode_rune_def Let_def split: option.splits)
    have "n \<le> length s" using assms False lead by (auto simp: malformed_def decode_rune_def Let_def split: if_splits)
    then have "k < n \<Longrightarrow> (s @ t) ! k = s ! k" for k by (simp add: nth_append)
    then show ?thesis using len [OF lead] \<open>n \<le> length s\<close> assms False lead
      by (auto simp: decode_rune_def Let_def nth_append)
  qed
qed

lemma add_from_append: "valid_utf8 s \<Longrightarrow> add_from (s @ t) e = add_from t (add_from s e)"
proof (induction s arbitrary: e rule: rune_induct)
  case (Ascii c s)
  have "decode_rune (c # s) = (byte_of c, 1)" using Ascii(1) by (simp add: decode_rune_def rune_self_def)
  then have "valid_utf8 s" using Ascii(3) by (subst (asm) valid_utf8.simps) (simp add: malformed_def split: if_splits)
  then show ?case using Ascii by (simp add: add_from_ascii)
next
  case (Rune c s r n)
  from Rune(6) Rune(2) have "\<not> malformed (c # s)" "valid_utf8 (drop n (c # s))"
    by (subst (asm) valid_utf8.simps, simp split: if_splits)+
  moreover from this(1) have "decode_rune (c # (s @ t)) = (r, n)" using decode_append [of "c # s" t] Rune(2) by simp
  moreover have "drop n (c # (s @ t)) = drop n (c # s) @ t" using Rune(4) by (cases n) auto
  ultimately show ?case
    using Rune(5) add_from_wide [OF Rune(1), of "s @ t"] add_from_wide [OF Rune(1,2)] by simp
qed simp

lemma valid_ascii: "list_all (\<lambda>c. byte_of c < rune_self) s \<Longrightarrow> valid_utf8 s"
proof (induction s)
  case (Cons c s)
  then have "decode_rune (c # s) = (byte_of c, 1)" by (simp add: decode_rune_def)
  then show ?case using Cons by (subst valid_utf8.simps) (auto simp: malformed_def rune_self_def rune_error_def)
qed (simp add: valid_utf8.simps)

section \<open>Property\<close>

text \<open>C35. The estimate does not depend on how an answer is streamed: feeding the estimator the
  fragments of a text one by one, whatever the cut, gives the state it would have after the whole
  text, as long as no fragment but the last ends inside a character.\<close>

theorem streamed_estimate_exact:
  assumes "list_all valid_utf8 fragments"
  shows "foldl Estimator_Add e (fragments @ [rest]) = Estimator_Add e (concat fragments @ rest)"
  using assms
proof (induction fragments arbitrary: e)
  case (Cons f fs)
  then show ?case by (simp add: Estimator_Add_def add_from_append)
qed (simp add: Estimator_Add_def)

text \<open>A word cut in two, and a fragment that ends inside a character.\<close>

theorem streamed_estimate_exact_witness:
  "foldl Estimator_Add new_estimator ([''hel'', ''lo, wor''] @ [''ld'' @ bytes [0xC3]])
     = Estimator_Add new_estimator (concat [''hel'', ''lo, wor''] @ (''ld'' @ bytes [0xC3]))"
proof (rule streamed_estimate_exact)
  show "list_all valid_utf8 [''hel'', ''lo, wor'']"
    by (simp add: valid_ascii byte_of_def rune_self_def)
qed

end
